(* ===== verification/Abt_Prelude.thy ===== *)
theory Abt_Prelude
  imports Main "HOL-Library.Word" "HOL-Library.Monad_Syntax"
begin

section \<open>Shared vocabulary\<close>

text \<open>
  The vocabulary every component of the development uses: addresses, the null-handle rule of
  \<^verbatim>\<open>src/src/abti.h\<close>, the collections of rewrite rules, the generic facts on lists and
  maps, and the interface \<open>transition_system\<close> under which every state machine of the library
  derives "the invariant holds in every reachable state" once.

  An address is a natural number and \<open>0\<close> is the null pointer.  Structs live in heaps of the
  component-as-function kind: one function from addresses to field values for every field, so
  writing one field of one object is a function update.
\<close>

type_synonym ptr = nat

abbreviation (input) nullptr :: ptr where
  "nullptr \<equiv> 0"

named_theorems queue_simps "rewrite rules of the pool queues"
named_theorems step_simps "atomic steps as equations"
named_theorems inv_intros "invariant preservation rules"


subsection \<open>Handles\<close>

text \<open>
  Handles are pointers, and the \<^verbatim>\<open>ABT_*_NULL\<close> handles are small non-zero integers, so a
  handle below \<^verbatim>\<open>0x100\<close> names no object (\<^verbatim>\<open>ABTI_is_null_handle\<close>, \<^verbatim>\<open>ABTI_obj\<close>).
\<close>

definition ABTI_is_null_handle :: "ptr \<Rightarrow> bool" where
  "ABTI_is_null_handle h \<longleftrightarrow> h < 0x100"

definition ABTI_obj :: "ptr \<Rightarrow> ptr" where
  "ABTI_obj h = (if ABTI_is_null_handle h then nullptr else h)"

definition ABT_XSTREAM_NULL :: ptr where "ABT_XSTREAM_NULL = 0x01"
definition ABT_SCHED_NULL :: ptr where "ABT_SCHED_NULL = 0x03"
definition ABT_SCHED_CONFIG_NULL :: ptr where "ABT_SCHED_CONFIG_NULL = 0x04"
definition ABT_POOL_NULL :: ptr where "ABT_POOL_NULL = 0x05"
definition ABT_POOL_CONFIG_NULL :: ptr where "ABT_POOL_CONFIG_NULL = 0x06"
definition ABT_UNIT_NULL :: ptr where "ABT_UNIT_NULL = 0x07"
definition ABT_THREAD_NULL :: ptr where "ABT_THREAD_NULL = 0x08"
definition ABT_THREAD_ATTR_NULL :: ptr where "ABT_THREAD_ATTR_NULL = 0x09"
definition ABT_TASK_NULL :: ptr where "ABT_TASK_NULL = 0x0a"
definition ABT_KEY_NULL :: ptr where "ABT_KEY_NULL = 0x0b"
definition ABT_MUTEX_NULL :: ptr where "ABT_MUTEX_NULL = 0x0c"
definition ABT_MUTEX_ATTR_NULL :: ptr where "ABT_MUTEX_ATTR_NULL = 0x0d"
definition ABT_COND_NULL :: ptr where "ABT_COND_NULL = 0x0e"
definition ABT_RWLOCK_NULL :: ptr where "ABT_RWLOCK_NULL = 0x0f"
definition ABT_EVENTUAL_NULL :: ptr where "ABT_EVENTUAL_NULL = 0x10"
definition ABT_FUTURE_NULL :: ptr where "ABT_FUTURE_NULL = 0x11"
definition ABT_BARRIER_NULL :: ptr where "ABT_BARRIER_NULL = 0x12"
definition ABT_TIMER_NULL :: ptr where "ABT_TIMER_NULL = 0x13"

lemmas null_handle_defs =
  ABT_XSTREAM_NULL_def ABT_SCHED_NULL_def ABT_SCHED_CONFIG_NULL_def ABT_POOL_NULL_def
  ABT_POOL_CONFIG_NULL_def ABT_UNIT_NULL_def ABT_THREAD_NULL_def ABT_THREAD_ATTR_NULL_def
  ABT_TASK_NULL_def ABT_KEY_NULL_def ABT_MUTEX_NULL_def ABT_MUTEX_ATTR_NULL_def
  ABT_COND_NULL_def ABT_RWLOCK_NULL_def ABT_EVENTUAL_NULL_def ABT_FUTURE_NULL_def
  ABT_BARRIER_NULL_def ABT_TIMER_NULL_def

text \<open>\<^verbatim>\<open>ABTI_pool_handle\<close>, \<^verbatim>\<open>ABTI_sched_handle\<close>, \<^verbatim>\<open>ABTI_xstream_handle\<close> and
  \<^verbatim>\<open>ABTI_thread_handle\<close> differ in their null handle only.\<close>

definition ABTI_handle :: "ptr \<Rightarrow> ptr \<Rightarrow> ptr" where
  "ABTI_handle null p = (if p \<noteq> nullptr then p else null)"

abbreviation ABTI_pool_handle :: "ptr \<Rightarrow> ptr" where
  "ABTI_pool_handle \<equiv> ABTI_handle ABT_POOL_NULL"
abbreviation ABTI_sched_handle :: "ptr \<Rightarrow> ptr" where
  "ABTI_sched_handle \<equiv> ABTI_handle ABT_SCHED_NULL"
abbreviation ABTI_xstream_handle :: "ptr \<Rightarrow> ptr" where
  "ABTI_xstream_handle \<equiv> ABTI_handle ABT_XSTREAM_NULL"
abbreviation ABTI_thread_handle :: "ptr \<Rightarrow> ptr" where
  "ABTI_thread_handle \<equiv> ABTI_handle ABT_THREAD_NULL"

text \<open>An address of an object: what the allocator returns lies above every null handle.\<close>

abbreviation is_obj :: "ptr \<Rightarrow> bool" where
  "is_obj p \<equiv> \<not> ABTI_is_null_handle p"

lemma is_obj_nonzero [simp]: "is_obj p \<Longrightarrow> p \<noteq> nullptr"
  by (auto simp: ABTI_is_null_handle_def)

lemma ABTI_obj_is_obj [simp]: "is_obj p \<Longrightarrow> ABTI_obj p = p"
  by (simp add: ABTI_obj_def)

lemma ABTI_obj_null [simp]: "ABTI_is_null_handle p \<Longrightarrow> ABTI_obj p = nullptr"
  by (simp add: ABTI_obj_def)

lemma ABTI_obj_eq_null_iff: "ABTI_obj p = nullptr \<longleftrightarrow> ABTI_is_null_handle p"
  by (auto simp: ABTI_obj_def ABTI_is_null_handle_def)

lemma null_handles_null [simp]:
  "ABTI_is_null_handle nullptr"
  "ABTI_is_null_handle ABT_XSTREAM_NULL" "ABTI_is_null_handle ABT_SCHED_NULL"
  "ABTI_is_null_handle ABT_SCHED_CONFIG_NULL" "ABTI_is_null_handle ABT_POOL_NULL"
  "ABTI_is_null_handle ABT_POOL_CONFIG_NULL" "ABTI_is_null_handle ABT_UNIT_NULL"
  "ABTI_is_null_handle ABT_THREAD_NULL" "ABTI_is_null_handle ABT_THREAD_ATTR_NULL"
  "ABTI_is_null_handle ABT_TASK_NULL" "ABTI_is_null_handle ABT_KEY_NULL"
  "ABTI_is_null_handle ABT_MUTEX_NULL" "ABTI_is_null_handle ABT_MUTEX_ATTR_NULL"
  "ABTI_is_null_handle ABT_COND_NULL" "ABTI_is_null_handle ABT_RWLOCK_NULL"
  "ABTI_is_null_handle ABT_EVENTUAL_NULL" "ABTI_is_null_handle ABT_FUTURE_NULL"
  "ABTI_is_null_handle ABT_BARRIER_NULL" "ABTI_is_null_handle ABT_TIMER_NULL"
  by (simp_all add: ABTI_is_null_handle_def null_handle_defs)


subsection \<open>State machines\<close>

text \<open>
  Reachability of a step relation from a set of start states, and the interface under which an
  invariant of the start states that every step keeps holds wherever the machine can go.
\<close>

inductive reach :: "('s \<Rightarrow> bool) \<Rightarrow> ('s \<Rightarrow> 's \<Rightarrow> bool) \<Rightarrow> 's \<Rightarrow> bool"
  for init :: "'s \<Rightarrow> bool" and step :: "'s \<Rightarrow> 's \<Rightarrow> bool" where
  reach_init: "init s \<Longrightarrow> reach init step s"
| reach_step: "reach init step s \<Longrightarrow> step s t \<Longrightarrow> reach init step t"

locale transition_system =
  fixes init :: "'s \<Rightarrow> bool"
    and step :: "'s \<Rightarrow> 's \<Rightarrow> bool"
    and inv :: "'s \<Rightarrow> bool"
  assumes inv_init: "init s \<Longrightarrow> inv s"
    and inv_step: "inv s \<Longrightarrow> step s t \<Longrightarrow> inv t"
begin

lemma reach_inv: "reach init step s \<Longrightarrow> inv s"
  by (induction rule: reach.induct) (auto intro: inv_init inv_step)

lemma reach_inv_step: "reach init step s \<Longrightarrow> step s t \<Longrightarrow> inv s \<and> inv t"
  by (blast intro: reach_inv inv_step)

end


subsection \<open>Generic facts\<close>

lemma filter_remove1_neg: "\<not> P x \<Longrightarrow> filter P (remove1 x xs) = filter P xs"
  by (induction xs) auto

lemma remove1_append_mid: "distinct (xs @ t # ys) \<Longrightarrow> remove1 t (xs @ t # ys) = xs @ ys"
  by (simp add: remove1_append)

lemma last_nonnull: "nullptr \<notin> set xs \<Longrightarrow> xs \<noteq> [] \<Longrightarrow> last xs \<noteq> nullptr"
  by (metis last_in_set)

lemma hd_nonnull: "nullptr \<notin> set xs \<Longrightarrow> xs \<noteq> [] \<Longrightarrow> hd xs \<noteq> nullptr"
  by (metis hd_in_set)

lemma last_snoc_hd: "xs \<noteq> [] \<Longrightarrow> last (tl (xs @ [y])) = y"
  by (cases xs) auto

lemma hd_append_single [simp]: "xs \<noteq> [] \<Longrightarrow> hd (xs @ [y]) = hd xs"
  by (cases xs) auto

lemma card_remove_int: "finite A \<Longrightarrow> x \<in> A \<Longrightarrow> int (card (A - {x})) = int (card A) - 1"
  using card.remove [of A x] by simp

lemma length_remove1_int: "x \<in> set xs \<Longrightarrow> int (length (remove1 x xs)) = int (length xs) - 1"
  by (induction xs) auto

end
