(* ===== verification/Pool_Heap.thy ===== *)
theory Pool_Heap
  imports Abt_Prelude
begin

section \<open>The storage of built-in pools\<close>

text \<open>
  \<^verbatim>\<open>ABTI_pool\<close> (\<^verbatim>\<open>src/src/abti.h\<close>) stores its units in one of two intrusive queues:
  a doubly linked list through \<^verbatim>\<open>lprev\<close> and \<^verbatim>\<open>lnext\<close> of the threads, or Vyukov's
  multi-producer single-consumer queue through the \<^verbatim>\<open>ABTI_qnode\<close> embedded in every thread
  and in the pool itself (the stub).  This theory holds the fields the two queues use and the
  contract \<open>unit_store\<close> both queues meet, under which the code above the queues reasons: a
  store is a sequence of units, \<^verbatim>\<open>push\<close> appends, \<^verbatim>\<open>pop\<close> takes the oldest.
\<close>

text \<open>
  A queue node is named by the object it is embedded in: \<open>Stub p\<close> is \<^verbatim>\<open>&p->stub\<close> and
  \<open>QN t\<close> is \<^verbatim>\<open>&t->qn\<close>.  \<^verbatim>\<open>ABTI_qnode::owner\<close> is set once, by the constructors.
\<close>

datatype ABTI_qnode = Stub ptr | QN ptr

primrec qn_owner :: "ABTI_qnode \<Rightarrow> ptr" where
  "qn_owner (Stub p) = nullptr"
| "qn_owner (QN t) = t"

record queue_heap =
  qn_next :: "ABTI_qnode \<Rightarrow> ABTI_qnode option"
  t_lprev :: "ptr \<Rightarrow> ptr"
  t_lnext :: "ptr \<Rightarrow> ptr"
  t_in_pool :: "ptr \<Rightarrow> bool"
  t_removed :: "ptr \<Rightarrow> bool"
  p_tail :: "ptr \<Rightarrow> ABTI_qnode"
  p_head :: "ptr \<Rightarrow> ABTI_qnode"
  p_lhead :: "ptr \<Rightarrow> ptr"
  p_ltail :: "ptr \<Rightarrow> ptr"
  p_count :: "ptr \<Rightarrow> int"

text \<open>The initialisers of a new pool's queue fields.\<close>

definition pool_queue_init :: "ptr \<Rightarrow> 'a queue_heap_scheme \<Rightarrow> 'a queue_heap_scheme" where
  "pool_queue_init p h =
     h\<lparr>qn_next := (qn_next h)(Stub p := None),
       p_tail := (p_tail h)(p := Stub p), p_head := (p_head h)(p := Stub p),
       p_lhead := (p_lhead h)(p := nullptr), p_ltail := (p_ltail h)(p := nullptr),
       p_count := (p_count h)(p := 0)\<rparr>"

text \<open>The initialisers of a new thread's queue fields.\<close>

definition thread_queue_init :: "ptr \<Rightarrow> 'a queue_heap_scheme \<Rightarrow> 'a queue_heap_scheme" where
  "thread_queue_init t h =
     h\<lparr>qn_next := (qn_next h)(QN t := None),
       t_lprev := (t_lprev h)(t := nullptr), t_lnext := (t_lnext h)(t := nullptr),
       t_in_pool := (t_in_pool h)(t := False), t_removed := (t_removed h)(t := False)\<rparr>"

definition count_add :: "ptr \<Rightarrow> int \<Rightarrow> 'a queue_heap_scheme \<Rightarrow> 'a queue_heap_scheme" where
  "count_add p d h = h\<lparr>p_count := (p_count h)(p := p_count h p + d)\<rparr>"

text \<open>\<^verbatim>\<open>ABTI_pool::size\<close> of a built-in pool clamps the counter, which a pop may take below
  zero before the push it overtook has counted its unit.\<close>

definition builtin_size :: "ptr \<Rightarrow> 'a queue_heap_scheme \<Rightarrow> nat" where
  "builtin_size p h = (if p_count h p > 0 then nat (p_count h p) else 0)"


subsection \<open>What a pool pop takes\<close>

text \<open>
  The primary ULT can only be resumed by its home PE, so a pop on another PE passes over it.
  \<open>take_unit pinned xs\<close> is the contract: the first unit that is not pinned to another PE, and
  the sequence without it.
\<close>

fun take_unit :: "(ptr \<Rightarrow> bool) \<Rightarrow> ptr list \<Rightarrow> ptr \<times> ptr list" where
  "take_unit pinned [] = (nullptr, [])"
| "take_unit pinned (t # ts) =
     (if pinned t then (fst (take_unit pinned ts), t # snd (take_unit pinned ts)) else (t, ts))"

lemma take_unit_unpinned: "(\<And>t. t \<in> set ts \<Longrightarrow> \<not> pinned t) \<Longrightarrow>
    take_unit pinned ts = (case ts of [] \<Rightarrow> (nullptr, []) | t # r \<Rightarrow> (t, r))"
  by (cases ts) auto

lemma take_unit_null_iff:
  "nullptr \<notin> set ts \<Longrightarrow> fst (take_unit pinned ts) = nullptr \<longleftrightarrow> (\<forall>t\<in>set ts. pinned t)"
  by (induction ts) auto

lemma take_unit_null_rest:
  "\<forall>t\<in>set ts. pinned t \<Longrightarrow> take_unit pinned ts = (nullptr, ts)"
  by (induction ts) auto

lemma take_unit_found:
  "take_unit pinned ts = (u, us) \<Longrightarrow> u \<noteq> nullptr \<Longrightarrow>
   \<not> pinned u \<and> (\<exists>xs ys. ts = xs @ u # ys \<and> us = xs @ ys \<and> (\<forall>x\<in>set xs. pinned x))"
proof (induction ts arbitrary: us)
  case Nil
  then show ?case by simp
next
  case (Cons t ts)
  show ?case
  proof (cases "pinned t")
    case False
    with Cons.prems have "u = t" "us = ts" by auto
    with False have "\<not> pinned u \<and> t # ts = [] @ u # ts \<and> us = [] @ ts" by simp
    then show ?thesis by (metis empty_iff list.set(1))
  next
    case True
    with Cons.prems obtain vs where vs: "take_unit pinned ts = (u, vs)" "us = t # vs"
      by (cases "take_unit pinned ts") auto
    from Cons.IH [OF vs(1) Cons.prems(2)] obtain xs ys where
      xs: "\<not> pinned u" "ts = xs @ u # ys" "vs = xs @ ys" "\<forall>x\<in>set xs. pinned x" by blast
    have "t # ts = (t # xs) @ u # ys \<and> us = (t # xs) @ ys \<and> (\<forall>x\<in>set (t # xs). pinned x)"
      using xs vs(2) True by simp
    with xs(1) show ?thesis by blast
  qed
qed


subsection \<open>The contract of a store\<close>

text \<open>
  \<open>store h p xs\<close> says that the units linked into pool \<open>p\<close> are exactly \<open>xs\<close>, oldest first;
  \<open>removed h\<close> marks linked units that \<^verbatim>\<open>ABT_pool_remove\<close> has taken out and a pop has to
  pass over, \<open>member h\<close> is the \<^verbatim>\<open>in_pool\<close> flag.  \<open>push\<close> appends a unit that is in no
  pool, \<open>pop\<close> drops the removed units at the front and takes the next one (null when there is
  none), and neither touches another pool.  The two queues of the code interpret this contract.
\<close>

locale unit_store =
  fixes store :: "'s \<Rightarrow> ptr \<Rightarrow> ptr list \<Rightarrow> bool"
    and member :: "'s \<Rightarrow> ptr \<Rightarrow> bool"
    and removed :: "'s \<Rightarrow> ptr \<Rightarrow> bool"
    and push :: "ptr \<Rightarrow> ptr \<Rightarrow> 's \<Rightarrow> 's"
    and pop :: "(ptr \<Rightarrow> bool) \<Rightarrow> ptr \<Rightarrow> 's \<Rightarrow> (ptr \<times> 's) option"
    and init :: "ptr \<Rightarrow> 's \<Rightarrow> 's"
  assumes store_distinct: "store h p xs \<Longrightarrow> distinct xs \<and> nullptr \<notin> set xs"
    and store_member: "store h p xs \<Longrightarrow> t \<in> set xs \<Longrightarrow> member h t"
    and store_unique: "store h p xs \<Longrightarrow> store h p ys \<Longrightarrow> xs = ys"
    and store_init: "store (init p h) p []"
    and init_flags: "member (init p h) = member h" "removed (init p h) = removed h"
    and store_push: "store h p xs \<Longrightarrow> \<not> member h t \<Longrightarrow> \<not> removed h t \<Longrightarrow> t \<noteq> nullptr \<Longrightarrow>
      store (push p t h) p (xs @ [t])"
    and push_flags: "member (push p t h) = (member h)(t := True)"
      "removed (push p t h) = removed h"
    and store_push_frame: "store h p xs \<Longrightarrow> store h q ys \<Longrightarrow> p \<noteq> q \<Longrightarrow>
      set xs \<inter> set ys = {} \<Longrightarrow> \<not> member h t \<Longrightarrow> store (push p t h) q ys"
    and store_pop: "store h p xs \<Longrightarrow> zs = dropWhile (removed h) xs \<Longrightarrow>
      (zs \<noteq> [] \<Longrightarrow> \<not> pinned (hd zs)) \<Longrightarrow>
      \<exists>h'. pop pinned p h = Some (if zs = [] then nullptr else hd zs, h') \<and> store h' p (tl zs) \<and>
        (\<forall>u. member h' u \<longleftrightarrow>
           member h u \<and> u \<notin> set (takeWhile (removed h) xs) \<and> (zs = [] \<or> u \<noteq> hd zs)) \<and>
        (\<forall>u. removed h' u \<longleftrightarrow> removed h u \<and> u \<notin> set (takeWhile (removed h) xs)) \<and>
        (\<forall>q ys. q \<noteq> p \<longrightarrow> store h q ys \<longrightarrow> set xs \<inter> set ys = {} \<longrightarrow> store h' q ys)"
begin

fun push_all :: "ptr \<Rightarrow> ptr list \<Rightarrow> 's \<Rightarrow> 's" where
  "push_all p [] h = h"
| "push_all p (t # ts) h = push_all p ts (push p t h)"

fun pop_n :: "ptr \<Rightarrow> nat \<Rightarrow> 's \<Rightarrow> (ptr list \<times> 's) option" where
  "pop_n p 0 h = Some ([], h)"
| "pop_n p (Suc n) h =
     (case pop (\<lambda>_. False) p h of None \<Rightarrow> None
      | Some (t, h') \<Rightarrow>
          (if t = nullptr then Some ([], h')
           else (case pop_n p n h' of None \<Rightarrow> None | Some (ts, h'') \<Rightarrow> Some (t # ts, h''))))"

lemma store_push_all:
  "store h p xs \<Longrightarrow> distinct (xs @ ts) \<Longrightarrow> nullptr \<notin> set ts \<Longrightarrow>
   \<forall>t\<in>set ts. \<not> member h t \<and> \<not> removed h t \<Longrightarrow> store (push_all p ts h) p (xs @ ts)"
proof (induction ts arbitrary: xs h)
  case Nil
  then show ?case by simp
next
  case (Cons t ts)
  then have "store (push p t h) p (xs @ [t])" by (simp add: store_push)
  moreover have "\<forall>u\<in>set ts. \<not> member (push p t h) u \<and> \<not> removed (push p t h) u"
    using Cons.prems by (auto simp: push_flags)
  ultimately show ?case using Cons.IH [of "push p t h" "xs @ [t]"] Cons.prems by simp
qed

lemma push_all_removed: "removed (push_all p ts h) = removed h"
  by (induction ts arbitrary: h) (simp_all add: push_flags)

lemma pop_n_drains:
  "store h p xs \<Longrightarrow> \<forall>t\<in>set xs. \<not> removed h t \<Longrightarrow>
   \<exists>h'. pop_n p n h = Some (take n xs, h') \<and> store h' p (drop n xs)"
proof (induction n arbitrary: xs h)
  case 0
  then show ?case by simp
next
  case (Suc n)
  have z: "dropWhile (removed h) xs = xs" "takeWhile (removed h) xs = []"
    using Suc.prems(2) by (cases xs; simp)+
  from store_pop [OF Suc.prems(1) refl, of "\<lambda>_. False"] z obtain h1 where
    h1: "pop (\<lambda>_. False) p h = Some (if xs = [] then nullptr else hd xs, h1)"
      "store h1 p (tl xs)" "\<forall>u. removed h1 u \<longleftrightarrow> removed h u" by auto
  show ?case
  proof (cases xs)
    case Nil
    with h1 show ?thesis by simp
  next
    case (Cons t r)
    with store_distinct [OF Suc.prems(1)] have "t \<noteq> nullptr" by auto
    moreover from Suc.IH [OF h1(2)] obtain h2 where
      "pop_n p n h1 = Some (take n r, h2)" "store h2 p (drop n r)"
      using Cons h1(3) Suc.prems(2) by auto
    ultimately show ?thesis using h1 Cons by simp
  qed
qed

text \<open>First in, first out: what was pushed into a new pool comes out in the same order.\<close>

lemma fifo: "distinct ts \<Longrightarrow> nullptr \<notin> set ts \<Longrightarrow> \<forall>t\<in>set ts. \<not> member h t \<and> \<not> removed h t \<Longrightarrow>
   \<exists>h'. pop_n p (length ts) (push_all p ts (init p h)) = Some (ts, h') \<and> store h' p []"
  using pop_n_drains [OF store_push_all [OF store_init, where ts = ts], where n = "length ts"]
  by (simp add: push_all_removed init_flags)

end

end
