(* ===== verification/Pool_List.thy ===== *)
theory Pool_List
  imports Pool_Heap
begin

section \<open>The doubly linked list of SPMC and MPMC pools\<close>

text \<open>
  \<^verbatim>\<open>ABTI_pool::push\<close>, \<^verbatim>\<open>list_unlink\<close>, \<^verbatim>\<open>pop_list\<close> and \<^verbatim>\<open>remove_unit\<close>
  (\<^verbatim>\<open>src/src/pool.cpp\<close>) on the spinlocked path.  Each runs between \<^verbatim>\<open>lk.lock()\<close> and
  \<^verbatim>\<open>lk.unlock()\<close>, so it is one atomic step; the counter is adjusted outside the lock.
  \<open>dll h p xs\<close> relates the links to the sequence \<open>xs\<close>, and every operation is shown to do on
  the links what its name says on the sequence.
\<close>

definition list_push :: "ptr \<Rightarrow> ptr \<Rightarrow> 'a queue_heap_scheme \<Rightarrow> 'a queue_heap_scheme" where
  "list_push p t h =
     (let h1 = h\<lparr>t_lnext := (t_lnext h)(t := nullptr)\<rparr>;
          h2 = h1\<lparr>t_lprev := (t_lprev h1)(t := p_ltail h1 p)\<rparr>;
          h3 = (if p_ltail h2 p \<noteq> nullptr
                then h2\<lparr>t_lnext := (t_lnext h2)(p_ltail h2 p := t)\<rparr>
                else h2\<lparr>p_lhead := (p_lhead h2)(p := t)\<rparr>)
      in h3\<lparr>p_ltail := (p_ltail h3)(p := t)\<rparr>)"

definition list_unlink :: "ptr \<Rightarrow> ptr \<Rightarrow> 'a queue_heap_scheme \<Rightarrow> 'a queue_heap_scheme" where
  "list_unlink p t h =
     (let h1 = (if t_lprev h t \<noteq> nullptr
                then h\<lparr>t_lnext := (t_lnext h)(t_lprev h t := t_lnext h t)\<rparr>
                else h\<lparr>p_lhead := (p_lhead h)(p := t_lnext h t)\<rparr>);
          h2 = (if t_lnext h1 t \<noteq> nullptr
                then h1\<lparr>t_lprev := (t_lprev h1)(t_lnext h1 t := t_lprev h1 t)\<rparr>
                else h1\<lparr>p_ltail := (p_ltail h1)(p := t_lprev h1 t)\<rparr>)
      in h2\<lparr>t_lprev := (t_lprev h2)(t := nullptr), t_lnext := (t_lnext h2)(t := nullptr)\<rparr>)"

definition pop_list ::
  "(ptr \<Rightarrow> bool) \<Rightarrow> ptr \<Rightarrow> 'a queue_heap_scheme \<Rightarrow> ptr \<times> 'a queue_heap_scheme" where
  "pop_list pinned_elsewhere p h =
     (let t = p_lhead h p;
          t = (if t \<noteq> nullptr \<and> pinned_elsewhere t then t_lnext h t else t)
      in if t \<noteq> nullptr
         then (let h1 = list_unlink p t h;
                   h2 = h1\<lparr>t_in_pool := (t_in_pool h1)(t := False)\<rparr>
               in (t, count_add p (-1) h2))
         else (t, h))"

text \<open>The list branch of \<^verbatim>\<open>ABTI_pool::push\<close>: the \<^verbatim>\<open>in_pool\<close> flag, the links, the counter.\<close>

definition push_list :: "ptr \<Rightarrow> ptr \<Rightarrow> 'a queue_heap_scheme \<Rightarrow> 'a queue_heap_scheme" where
  "push_list p t h =
     count_add p 1 (list_push p t (h\<lparr>t_in_pool := (t_in_pool h)(t := True)\<rparr>))"

text \<open>The list branch of \<^verbatim>\<open>ABTI_pool::remove_unit\<close>, entered when the unit is in this pool.\<close>

definition remove_list :: "ptr \<Rightarrow> ptr \<Rightarrow> 'a queue_heap_scheme \<Rightarrow> 'a queue_heap_scheme" where
  "remove_list p t h =
     (let h1 = list_unlink p t h
      in count_add p (-1) (h1\<lparr>t_in_pool := (t_in_pool h1)(t := False)\<rparr>))"


subsection \<open>Segments of the list\<close>

text \<open>
  \<open>dseg nx pv a x xs b y\<close>: walking \<open>nx\<close> from \<open>x\<close> passes the nodes \<open>xs\<close> and arrives at \<open>y\<close>; every
  node points back to the one before it, the first back to \<open>a\<close>; \<open>b\<close> is the last node passed.
\<close>

fun dseg :: "(ptr \<Rightarrow> ptr) \<Rightarrow> (ptr \<Rightarrow> ptr) \<Rightarrow> ptr \<Rightarrow> ptr \<Rightarrow> ptr list \<Rightarrow> ptr \<Rightarrow> ptr \<Rightarrow> bool" where
  "dseg nx pv a x [] b y \<longleftrightarrow> x = y \<and> b = a"
| "dseg nx pv a x (t # ts) b y \<longleftrightarrow> x = t \<and> t \<noteq> nullptr \<and> pv t = a \<and> dseg nx pv t (nx t) ts b y"

definition dll :: "'a queue_heap_scheme \<Rightarrow> ptr \<Rightarrow> ptr list \<Rightarrow> bool" where
  "dll h p xs \<longleftrightarrow>
     dseg (t_lnext h) (t_lprev h) nullptr (p_lhead h p) xs (p_ltail h p) nullptr \<and> distinct xs \<and>
     (\<forall>t\<in>set xs. t_in_pool h t \<and> \<not> t_removed h t)"

lemma dseg_append:
  "dseg nx pv a x (xs @ ys) b y \<longleftrightarrow> (\<exists>m z. dseg nx pv a x xs m z \<and> dseg nx pv m z ys b y)"
  by (induction xs arbitrary: a x) auto

lemma dseg_cong:
  "(\<And>t. t \<in> set xs \<Longrightarrow> nx t = nx' t) \<Longrightarrow> (\<And>t. t \<in> set xs \<Longrightarrow> pv t = pv' t) \<Longrightarrow>
   dseg nx pv a x xs b y = dseg nx' pv' a x xs b y"
  by (induction xs arbitrary: a x) auto

lemma dseg_fun_upd [simp]:
  "t \<notin> set xs \<Longrightarrow> dseg (nx(t := u)) pv a x xs b y = dseg nx pv a x xs b y"
  "t \<notin> set xs \<Longrightarrow> dseg nx (pv(t := u)) a x xs b y = dseg nx pv a x xs b y"
  by (auto intro!: dseg_cong)

lemma dseg_nonnull: "dseg nx pv a x xs b y \<Longrightarrow> nullptr \<notin> set xs"
  by (induction xs arbitrary: a x) auto

lemma dseg_last: "dseg nx pv a x xs b y \<Longrightarrow> b = (if xs = [] then a else last xs)"
  by (induction xs arbitrary: a x) auto

lemma dseg_first: "dseg nx pv a x xs b y \<Longrightarrow> x = (if xs = [] then y else hd xs)"
  by (cases xs) auto

lemma dseg_unique: "dseg nx pv a x xs b nullptr \<Longrightarrow> dseg nx pv a x ys c nullptr \<Longrightarrow> xs = ys"
proof (induction xs arbitrary: a x ys)
  case Nil
  then show ?case by (cases ys) auto
next
  case (Cons t ts)
  then obtain us where "ys = t # us" by (cases ys) auto
  with Cons show ?case by auto
qed

text \<open>Redirecting the last node's successor, or the first node's predecessor, re-ends a segment.\<close>

lemma dseg_relink_end:
  "dseg nx pv a x xs b y \<Longrightarrow> distinct xs \<Longrightarrow> xs \<noteq> [] \<Longrightarrow> dseg (nx(b := z)) pv a x xs b z"
proof (induction xs arbitrary: a x)
  case Nil
  then show ?case by simp
next
  case (Cons t ts)
  show ?case
  proof (cases ts)
    case Nil
    with Cons.prems show ?thesis by auto
  next
    case (Cons u us)
    with Cons.prems have seg: "dseg nx pv t (nx t) ts b y" and "t \<notin> set ts" by auto
    moreover from dseg_last [OF seg] Cons have "b \<in> set ts" by auto
    ultimately have "b \<noteq> t" by auto
    with Cons.prems Cons.IH [OF seg] Cons show ?thesis by auto
  qed
qed

lemma dseg_relink_start:
  "dseg nx pv a x (t # ts) b y \<Longrightarrow> t \<notin> set ts \<Longrightarrow> dseg nx (pv(t := c)) c x (t # ts) b y"
  by simp


subsection \<open>What the operations do to the sequence\<close>

lemma dll_facts:
  assumes "dll h p xs"
  shows "distinct xs" "nullptr \<notin> set xs"
    "p_lhead h p = (if xs = [] then nullptr else hd xs)"
    "p_ltail h p = (if xs = [] then nullptr else last xs)"
proof -
  have seg: "dseg (t_lnext h) (t_lprev h) nullptr (p_lhead h p) xs (p_ltail h p) nullptr"
    using assms by (simp add: dll_def)
  show "distinct xs" using assms by (simp add: dll_def)
  show "nullptr \<notin> set xs" using dseg_nonnull [OF seg] .
  show "p_lhead h p = (if xs = [] then nullptr else hd xs)" using dseg_first [OF seg] .
  show "p_ltail h p = (if xs = [] then nullptr else last xs)" using dseg_last [OF seg] .
qed

lemma list_push_dll:
  assumes d: "dll h p xs" and t: "t \<notin> set xs" "t \<noteq> nullptr" "t_in_pool h t" "\<not> t_removed h t"
  shows "dll (list_push p t h) p (xs @ [t])"
proof (cases "xs = []")
  case True
  with d t show ?thesis by (auto simp: dll_def list_push_def Let_def)
next
  case False
  let ?b = "p_ltail h p"
  have seg: "dseg (t_lnext h) (t_lprev h) nullptr (p_lhead h p) xs ?b nullptr" and dx: "distinct xs"
    using d by (auto simp: dll_def)
  have b: "?b = last xs" "?b \<in> set xs" using dll_facts(4) [OF d] False by auto
  have bt: "?b \<noteq> t" "?b \<noteq> nullptr" using b t last_nonnull [OF dll_facts(2) [OF d] False] by auto
  let ?nx = "(t_lnext h)(t := nullptr, ?b := t)" and ?pv = "(t_lprev h)(t := ?b)"
  have "dseg (t_lnext h) ?pv nullptr (p_lhead h p) xs ?b nullptr" using seg t(1) by simp
  then have "dseg ((t_lnext h)(t := nullptr)) ?pv nullptr (p_lhead h p) xs ?b nullptr"
    using t(1) by simp
  from dseg_relink_end [OF this dx False, of t]
  have "dseg ?nx ?pv nullptr (p_lhead h p) xs ?b t" .
  then have "dseg ?nx ?pv nullptr (p_lhead h p) (xs @ [t]) t nullptr"
    using bt t by (auto simp: dseg_append)
  then show ?thesis using d t dx bt by (auto simp: dll_def list_push_def Let_def)
qed

lemma list_unlink_dll:
  assumes d: "dll h p (xs @ t # ys)"
  shows "dll (list_unlink p t h) p (xs @ ys)"
proof -
  let ?nx = "t_lnext h" and ?pv = "t_lprev h"
  from d obtain m where
    s1: "dseg ?nx ?pv nullptr (p_lhead h p) xs m t" and
    s2: "?pv t = m" "t \<noteq> nullptr" "dseg ?nx ?pv t (?nx t) ys (p_ltail h p) nullptr" and
    dist: "distinct (xs @ t # ys)" and fl: "\<forall>u\<in>set (xs @ ys). t_in_pool h u \<and> \<not> t_removed h u"
    by (auto simp: dll_def dseg_append)
  have nn: "nullptr \<notin> set xs" "nullptr \<notin> set ys"
    using dseg_nonnull s1 s2(3) by blast+
  have m: "m = (if xs = [] then nullptr else last xs)" using dseg_last [OF s1] .
  have ny: "?nx t = (if ys = [] then nullptr else hd ys)" using dseg_first [OF s2(3)] .
  have lt: "p_ltail h p = (if ys = [] then t else last ys)" using dseg_last [OF s2(3)] .
  have hd0: "p_lhead h p = (if xs = [] then t else hd xs)" using dseg_first [OF s1] .
  define nx' where "nx' = (if m \<noteq> nullptr then ?nx(m := ?nx t) else ?nx)"
  have mnull: "m \<noteq> nullptr \<longleftrightarrow> xs \<noteq> []" using m last_nonnull [OF nn(1)] by simp
  have mt: "m \<noteq> t \<and> m \<notin> set ys"
  proof (cases "xs = []")
    case True
    with m s2(2) nn(2) show ?thesis by simp
  next
    case False
    with m have "m \<in> set xs" by simp
    with dist show ?thesis by auto
  qed
  define pv' where "pv' = (if ?nx t \<noteq> nullptr then ?pv(?nx t := m) else ?pv)"
  have ynull: "?nx t \<noteq> nullptr \<longleftrightarrow> ys \<noteq> []" using ny nn by (cases ys) auto
  have yx: "?nx t \<notin> set xs \<and> ?nx t \<noteq> t" using ny dist s2(2) nn(1) by (cases ys) auto
  have seg1: "dseg nx' pv' nullptr (if xs = [] then ?nx t else p_lhead h p) xs m (?nx t)"
  proof (cases "xs = []")
    case True
    with m show ?thesis by simp
  next
    case False
    have "dseg ?nx pv' nullptr (p_lhead h p) xs m t" using s1 yx by (simp add: pv'_def)
    from dseg_relink_end [OF this _ False, of "?nx t"] dist
    show ?thesis using False mnull by (simp add: nx'_def)
  qed
  have seg2: "dseg nx' pv' m (?nx t) ys (if ys = [] then m else p_ltail h p) nullptr"
  proof (cases ys)
    case Nil
    with ny show ?thesis by simp
  next
    case (Cons u us)
    have "dseg nx' ?pv t (?nx t) ys (p_ltail h p) nullptr" using s2(3) mt by (simp add: nx'_def)
    with Cons ny ynull dist show ?thesis by (auto simp: pv'_def)
  qed
  have "dseg nx' pv' nullptr (if xs = [] then ?nx t else p_lhead h p) (xs @ ys)
          (if ys = [] then m else p_ltail h p) nullptr"
    unfolding dseg_append using seg1 seg2 by blast
  moreover have "t \<notin> set (xs @ ys)" using dist by auto
  ultimately have "dseg (nx'(t := nullptr)) (pv'(t := nullptr)) nullptr
      (if xs = [] then ?nx t else p_lhead h p) (xs @ ys) (if ys = [] then m else p_ltail h p) nullptr"
    by simp
  moreover have
    "t_lnext (list_unlink p t h) = nx'(t := nullptr)"
    "t_lprev (list_unlink p t h) = pv'(t := nullptr)"
    "p_lhead (list_unlink p t h) p = (if xs = [] then ?nx t else p_lhead h p)"
    "p_ltail (list_unlink p t h) p = (if ys = [] then m else p_ltail h p)"
    "t_in_pool (list_unlink p t h) = t_in_pool h" "t_removed (list_unlink p t h) = t_removed h"
    using mnull ynull s2(1) mt
    by (cases "xs = []"; cases "ys = []"; simp add: list_unlink_def Let_def nx'_def pv'_def)+
  ultimately show ?thesis using dist fl by (simp add: dll_def)
qed


text \<open>Another pool's list lies outside the links an operation writes.\<close>

lemma dll_frame:
  assumes "dll h q ys" "p_lhead h' q = p_lhead h q" "p_ltail h' q = p_ltail h q"
    "\<And>t. t \<in> set ys \<Longrightarrow> t_lnext h' t = t_lnext h t \<and> t_lprev h' t = t_lprev h t \<and>
       t_in_pool h' t = t_in_pool h t \<and> t_removed h' t = t_removed h t"
  shows "dll h' q ys"
proof -
  have "dseg (t_lnext h') (t_lprev h') a x ys b y = dseg (t_lnext h) (t_lprev h) a x ys b y"
    for a x b y using assms(4) by (intro dseg_cong) auto
  with assms show ?thesis by (simp add: dll_def)
qed

lemma list_push_writes:
  "u \<noteq> t \<Longrightarrow> u \<noteq> p_ltail h p \<Longrightarrow> t_lnext (list_push p t h) u = t_lnext h u"
  "u \<noteq> t \<Longrightarrow> t_lprev (list_push p t h) u = t_lprev h u"
  "q \<noteq> p \<Longrightarrow> p_lhead (list_push p t h) q = p_lhead h q"
  "q \<noteq> p \<Longrightarrow> p_ltail (list_push p t h) q = p_ltail h q"
  by (auto simp: list_push_def Let_def)

lemma list_unlink_writes:
  "u \<noteq> t \<Longrightarrow> u \<noteq> t_lprev h t \<Longrightarrow> t_lnext (list_unlink p t h) u = t_lnext h u"
  "u \<noteq> t \<Longrightarrow> u \<noteq> t_lnext h t \<Longrightarrow> t_lprev h t \<noteq> t \<Longrightarrow> t_lprev (list_unlink p t h) u = t_lprev h u"
  "q \<noteq> p \<Longrightarrow> p_lhead (list_unlink p t h) q = p_lhead h q"
  "q \<noteq> p \<Longrightarrow> p_ltail (list_unlink p t h) q = p_ltail h q"
  by (auto simp: list_unlink_def Let_def)

lemma list_op_flags [simp]:
  "t_in_pool (list_push p t h) = t_in_pool h" "t_removed (list_push p t h) = t_removed h"
  "t_in_pool (list_unlink p t h) = t_in_pool h" "t_removed (list_unlink p t h) = t_removed h"
  "p_count (list_push p t h) = p_count h" "p_count (list_unlink p t h) = p_count h"
  by (auto simp: list_push_def list_unlink_def Let_def)

lemma count_add_fields [simp]:
  "t_in_pool (count_add p d h) = t_in_pool h" "t_removed (count_add p d h) = t_removed h"
  "qn_next (count_add p d h) = qn_next h" "p_head (count_add p d h) = p_head h"
  "p_tail (count_add p d h) = p_tail h" "t_lnext (count_add p d h) = t_lnext h"
  "t_lprev (count_add p d h) = t_lprev h" "p_lhead (count_add p d h) = p_lhead h"
  "p_ltail (count_add p d h) = p_ltail h"
  "p_count (count_add p d h) = (p_count h)(p := p_count h p + d)"
  by (simp_all add: count_add_def)

lemma dll_count_add [simp]: "dll (count_add p d h) q xs = dll h q xs"
  by (simp add: dll_def)

lemma dll_in_pool_True: "dll h p xs \<Longrightarrow> dll (h\<lparr>t_in_pool := (t_in_pool h)(t := True)\<rparr>) p xs"
  by (auto simp: dll_def)

lemma dll_in_pool_False:
  "dll h p xs \<Longrightarrow> t \<notin> set xs \<Longrightarrow> dll (h\<lparr>t_in_pool := (t_in_pool h)(t := False)\<rparr>) p xs"
  by (auto simp: dll_def)

lemma dll_neighbours:
  assumes "dll h p (xs @ t # ys)"
  shows "t_lprev h t = (if xs = [] then nullptr else last xs)"
    "t_lnext h t = (if ys = [] then nullptr else hd ys)"
proof -
  from assms obtain m where
    "dseg (t_lnext h) (t_lprev h) nullptr (p_lhead h p) xs m t" "t_lprev h t = m"
    "dseg (t_lnext h) (t_lprev h) t (t_lnext h t) ys (p_ltail h p) nullptr"
    by (auto simp: dll_def dseg_append)
  then show "t_lprev h t = (if xs = [] then nullptr else last xs)"
    "t_lnext h t = (if ys = [] then nullptr else hd ys)"
    using dseg_last dseg_first by metis+
qed

lemma list_unlink_frame:
  assumes "dll h p (xs @ t # ys)" "dll h q zs" "q \<noteq> p" "set (xs @ t # ys) \<inter> set zs = {}"
  shows "dll (list_unlink p t h) q zs"
proof (rule dll_frame [OF assms(2)])
  note nb = dll_neighbours [OF assms(1)]
  have z: "nullptr \<notin> set zs" "t \<noteq> nullptr" "t \<notin> set xs"
    using dll_facts(1,2) [OF assms(1)] dll_facts(2) [OF assms(2)] by auto
  have "xs \<noteq> [] \<Longrightarrow> last xs \<notin> set zs \<and> last xs \<noteq> t"
    using assms(4) z(3) last_in_set by fastforce
  then have ne1: "t_lprev h t \<notin> set zs" "t_lprev h t \<noteq> t" using nb(1) z by auto
  have "ys \<noteq> [] \<Longrightarrow> hd ys \<notin> set zs" using assms(4) hd_in_set by fastforce
  then have ne2: "t_lnext h t \<notin> set zs" using nb(2) z by auto
  fix u
  assume "u \<in> set zs"
  with ne1 ne2 assms(4) have "u \<noteq> t" "u \<noteq> t_lprev h t" "u \<noteq> t_lnext h t" by auto
  with ne1(2) show "t_lnext (list_unlink p t h) u = t_lnext h u \<and>
      t_lprev (list_unlink p t h) u = t_lprev h u \<and>
      t_in_pool (list_unlink p t h) u = t_in_pool h u \<and>
      t_removed (list_unlink p t h) u = t_removed h u"
    by (simp add: list_unlink_writes)
qed (use assms(3) in \<open>auto simp: list_unlink_writes\<close>)

lemma push_list_dll:
  "dll h p xs \<Longrightarrow> \<not> t_in_pool h t \<Longrightarrow> \<not> t_removed h t \<Longrightarrow> t \<noteq> nullptr \<Longrightarrow>
   dll (push_list p t h) p (xs @ [t])"
  unfolding push_list_def dll_count_add
  by (rule list_push_dll) (auto simp: dll_def)

lemma push_list_frame:
  assumes "dll h p xs" "dll h q ys" "p \<noteq> q" "set xs \<inter> set ys = {}" "\<not> t_in_pool h t"
  shows "dll (push_list p t h) q ys"
proof (rule dll_frame [OF assms(2)])
  have lt: "p_ltail h p \<notin> set ys"
    using dll_facts(4) [OF assms(1)] dll_facts(2) [OF assms(2)] assms(4)
    by (auto split: if_splits dest: last_in_set)
  fix u
  assume u: "u \<in> set ys"
  with assms(2,5) lt have "u \<noteq> t" "u \<noteq> p_ltail h p" by (auto simp: dll_def)
  then show "t_lnext (push_list p t h) u = t_lnext h u \<and>
      t_lprev (push_list p t h) u = t_lprev h u \<and> t_in_pool (push_list p t h) u = t_in_pool h u \<and>
      t_removed (push_list p t h) u = t_removed h u"
    by (auto simp: push_list_def list_push_writes)
qed (use assms(3) in \<open>auto simp: push_list_def list_push_writes\<close>)

text \<open>
  A pop looks one node deep: the head, or the node after it when the head is pinned to another
  PE.  With at most one pinned unit in the list that is the first unit this PE may run.
\<close>

definition at_most_one :: "('b \<Rightarrow> bool) \<Rightarrow> 'b list \<Rightarrow> bool" where
  "at_most_one P xs \<longleftrightarrow> length (filter P xs) \<le> 1"

definition pop_list_at :: "ptr \<Rightarrow> ptr \<Rightarrow> 'a queue_heap_scheme \<Rightarrow> 'a queue_heap_scheme" where
  "pop_list_at p t h =
     (if t = nullptr then h
      else count_add p (-1) ((list_unlink p t h)\<lparr>t_in_pool := (t_in_pool h)(t := False)\<rparr>))"

lemma pop_list_head:
  assumes d: "dll h p xs" and one: "at_most_one pinned xs"
  shows "pop_list pinned p h =
    (fst (take_unit pinned xs), pop_list_at p (fst (take_unit pinned xs)) h)"
proof (cases xs)
  case Nil
  with dll_facts(3) [OF d] show ?thesis by (simp add: pop_list_def pop_list_at_def)
next
  case (Cons x r)
  have x: "x \<noteq> nullptr" "p_lhead h p = x" using dll_facts(2,3) [OF d] Cons by auto
  show ?thesis
  proof (cases "pinned x")
    case False
    with x Cons show ?thesis by (simp add: pop_list_def pop_list_at_def Let_def)
  next
    case True
    have nx: "t_lnext h x = (if r = [] then nullptr else hd r)"
      using dll_neighbours(2) [of h p "[]" x r] d Cons by simp
    show ?thesis
    proof (cases r)
      case Nil
      with True x nx Cons show ?thesis by (simp add: pop_list_def pop_list_at_def Let_def)
    next
      case r: (Cons y s)
      with one True Cons have "\<not> pinned y" by (auto simp: at_most_one_def)
      moreover have "y \<noteq> nullptr" using dll_facts(2) [OF d] Cons r by auto
      ultimately show ?thesis using True x nx r Cons
        by (simp add: pop_list_def pop_list_at_def Let_def)
    qed
  qed
qed

lemma pop_list_dll:
  assumes d: "dll h p xs" and one: "at_most_one pinned xs"
    and pop: "pop_list pinned p h = (t, h')"
  shows "t = fst (take_unit pinned xs)" "dll h' p (snd (take_unit pinned xs))"
    "q \<noteq> p \<Longrightarrow> dll h q zs \<Longrightarrow> set xs \<inter> set zs = {} \<Longrightarrow> dll h' q zs"
    "t_in_pool h' = (if t = nullptr then t_in_pool h else (t_in_pool h)(t := False))"
    "t_removed h' = t_removed h"
    "p_count h' p = p_count h p - (if t = nullptr then 0 else 1)"
proof -
  show t: "t = fst (take_unit pinned xs)" using pop_list_head [OF d one] pop by simp
  have h': "h' = pop_list_at p t h" using pop_list_head [OF d one] pop t by simp
  have "dll h' p (snd (take_unit pinned xs)) \<and>
      (q \<noteq> p \<longrightarrow> dll h q zs \<longrightarrow> set xs \<inter> set zs = {} \<longrightarrow> dll h' q zs)"
  proof (cases "t = nullptr")
    case True
    then have "snd (take_unit pinned xs) = xs"
      using t take_unit_null_iff [of xs pinned] dll_facts(2) [OF d]
        take_unit_null_rest [of xs pinned] by simp
    with True h' d show ?thesis by (simp add: pop_list_at_def)
  next
    case False
    from take_unit_found [of pinned xs t "snd (take_unit pinned xs)"] False t obtain as bs where
      ab: "xs = as @ t # bs" "snd (take_unit pinned xs) = as @ bs" by auto
    have tn: "t \<notin> set (as @ bs)" using dll_facts(1) [OF d] ab(1) by auto
    have 1: "dll (list_unlink p t h) p (as @ bs)" using list_unlink_dll d ab(1) by blast
    have 2: "h' = count_add p (-1) ((list_unlink p t h)
        \<lparr>t_in_pool := (t_in_pool (list_unlink p t h))(t := False)\<rparr>)"
      using h' False by (simp add: pop_list_at_def)
    have "dll h' q zs" if "q \<noteq> p" "dll h q zs" "set xs \<inter> set zs = {}"
    proof -
      have "dll (list_unlink p t h) q zs"
        using list_unlink_frame [of h p as t bs q zs] d that ab(1) by simp
      moreover have "t \<notin> set zs" using that(3) ab(1) by auto
      ultimately show ?thesis unfolding 2 dll_count_add by (rule dll_in_pool_False)
    qed
    moreover have "dll h' p (as @ bs)"
      unfolding 2 dll_count_add using 1 tn by (rule dll_in_pool_False)
    ultimately show ?thesis using ab(2) by simp
  qed
  then show "dll h' p (snd (take_unit pinned xs))"
    "q \<noteq> p \<Longrightarrow> dll h q zs \<Longrightarrow> set xs \<inter> set zs = {} \<Longrightarrow> dll h' q zs" by blast+
  show "t_in_pool h' = (if t = nullptr then t_in_pool h else (t_in_pool h)(t := False))"
    "t_removed h' = t_removed h"
    "p_count h' p = p_count h p - (if t = nullptr then 0 else 1)"
    using h' by (simp_all add: pop_list_at_def)
qed


lemma remove_list_dll:
  assumes d: "dll h p xs" and t: "t \<in> set xs"
  shows "dll (remove_list p t h) p (remove1 t xs)"
proof -
  from t obtain as bs where ab: "xs = as @ t # bs" using split_list by metis
  have dist: "distinct (as @ t # bs)" using dll_facts(1) [OF d] ab by simp
  have "dll (list_unlink p t h) p (as @ bs)" using list_unlink_dll d ab by blast
  moreover have "t \<notin> set (as @ bs)" using dist by auto
  ultimately have "dll (remove_list p t h) p (as @ bs)"
    unfolding remove_list_def Let_def dll_count_add by (rule dll_in_pool_False)
  then show ?thesis using remove1_append_mid [OF dist] ab by simp
qed

lemma dll_pool_queue_init: "dll (pool_queue_init p h) p []"
  by (simp add: dll_def pool_queue_init_def)

lemma dll_not_removed: "dll h p xs \<Longrightarrow> dropWhile (t_removed h) xs = xs \<and> takeWhile (t_removed h) xs = []"
  by (cases xs) (auto simp: dll_def)

lemma take_unit_hd: "\<not> pinned (hd xs) \<or> xs = [] \<Longrightarrow>
  take_unit pinned xs = (if xs = [] then nullptr else hd xs, tl xs)"
  by (cases xs) auto

lemma pop_list_unpinned_head:
  assumes "dll h p xs" "xs \<noteq> [] \<Longrightarrow> \<not> pinned (hd xs)"
  shows "pop_list pinned p h = pop_list (\<lambda>_. False) p h"
  using assms dll_facts(3) [OF assms(1)] by (auto simp: pop_list_def Let_def)


subsection \<open>The list is a store\<close>

interpretation list_store: unit_store
  "dll :: 'a queue_heap_scheme \<Rightarrow> ptr \<Rightarrow> ptr list \<Rightarrow> bool" t_in_pool t_removed push_list
  "\<lambda>pinned p h. Some (pop_list pinned p h)" pool_queue_init
proof (unfold_locales, goal_cases)
  case (1 h p xs)
  then show ?case using dll_facts by blast
next
  case (2 h p xs t)
  then show ?case by (simp add: dll_def)
next
  case (3 h p xs ys)
  then show ?case using dseg_unique by (auto simp: dll_def)
next
  case (4 p h)
  show ?case by (rule dll_pool_queue_init)
next
  case (5 p h)
  show ?case by (simp add: pool_queue_init_def)
next
  case (6 p h)
  show ?case by (simp add: pool_queue_init_def)
next
  case (7 h p xs t)
  then show ?case by (simp add: push_list_dll)
next
  case (8 p t h)
  show ?case by (simp add: push_list_def)
next
  case (9 p t h)
  show ?case by (simp add: push_list_def)
next
  case (10 h p xs q ys t)
  then show ?case by (simp add: push_list_frame)
next
  case (11 h p xs zs pinned)
  then have zs: "zs = xs" "takeWhile (t_removed h) xs = []" using dll_not_removed by auto
  have one: "at_most_one (\<lambda>_. False) xs" by (simp add: at_most_one_def)
  obtain t h' where pop: "pop_list (\<lambda>_. False) p h = (t, h')" by fastforce
  note r = pop_list_dll [OF 11(1) one pop]
  have tu: "take_unit (\<lambda>_. False) xs = (if xs = [] then nullptr else hd xs, tl xs)"
    by (rule take_unit_hd) simp
  have pop': "pop_list pinned p h = (t, h')"
    using pop_list_unpinned_head [OF 11(1)] 11(3) zs(1) pop by simp
  have "t = nullptr \<longleftrightarrow> xs = []" using r(1) tu hd_nonnull dll_facts(2) [OF 11(1)] by auto
  then show ?case
    using r pop' tu zs by (intro exI [of _ h']) auto
qed

end
