(* ===== verification/Pool_Mpsc.thy ===== *)
theory Pool_Mpsc
  imports Pool_List
begin

section \<open>The multi-producer single-consumer queue of PRIV, SPSC and MPSC pools\<close>

text \<open>
  \<^verbatim>\<open>ABTI_pool::push\<close> and \<^verbatim>\<open>pop_mpsc\<close> (\<^verbatim>\<open>src/src/pool.cpp\<close>) on the lock-free path,
  as one caller executes them without interference.  Theory \<open>Pool_Mpsc_Steps\<close> breaks the same
  code into its atomic accesses and interleaves them.

  The consumer's loop goes round again when it has detached a unit that \<^verbatim>\<open>ABT_pool_remove\<close>
  had marked; \<open>pop_mpsc_iter\<close> is one round (\<open>Inl\<close>: go round again, \<open>Inr\<close>: leave with a unit
  or null) and \<open>pop_mpsc_loop\<close> the loop, whose value is \<open>None\<close> should it never end.
\<close>

definition push_mpsc :: "ptr \<Rightarrow> ptr \<Rightarrow> 'a queue_heap_scheme \<Rightarrow> 'a queue_heap_scheme" where
  "push_mpsc p t h =
     (let h1 = h\<lparr>t_in_pool := (t_in_pool h)(t := True)\<rparr>;
          h2 = h1\<lparr>qn_next := (qn_next h1)(QN t := None)\<rparr>;
          prev = p_tail h2 p;
          h3 = h2\<lparr>p_tail := (p_tail h2)(p := QN t)\<rparr>;
          h4 = h3\<lparr>qn_next := (qn_next h3)(prev := Some (QN t))\<rparr>
      in count_add p 1 h4)"

text \<open>\<^verbatim>\<open>head = next\<close>, the unit leaves the pool, and a removed one is passed over.\<close>

definition mpsc_take :: "ptr \<Rightarrow> ABTI_qnode \<Rightarrow> ABTI_qnode \<Rightarrow> 'a queue_heap_scheme \<Rightarrow>
    'a queue_heap_scheme + ptr \<times> 'a queue_heap_scheme" where
  "mpsc_take p n0 next h =
     (let h1 = h\<lparr>p_head := (p_head h)(p := next)\<rparr>;
          t = qn_owner n0;
          h2 = h1\<lparr>t_in_pool := (t_in_pool h1)(t := False)\<rparr>;
          h3 = h2\<lparr>t_removed := (t_removed h2)(t := False)\<rparr>
      in if t_removed h2 t then Inl h3 else Inr (t, h3))"

text \<open>From \<^verbatim>\<open>if (!next)\<close> on: re-append the stub behind a last node so it can be detached.\<close>

definition mpsc_detach :: "ptr \<Rightarrow> ABTI_qnode \<Rightarrow> ABTI_qnode option \<Rightarrow> 'a queue_heap_scheme \<Rightarrow>
    'a queue_heap_scheme + ptr \<times> 'a queue_heap_scheme" where
  "mpsc_detach p n0 next h =
     (case next of
        Some n \<Rightarrow> mpsc_take p n0 n h
      | None \<Rightarrow>
          if n0 \<noteq> p_tail h p then Inr (nullptr, h)
          else (let h1 = h\<lparr>qn_next := (qn_next h)(Stub p := None)\<rparr>;
                    prev = p_tail h1 p;
                    h2 = h1\<lparr>p_tail := (p_tail h1)(p := Stub p)\<rparr>;
                    h3 = h2\<lparr>qn_next := (qn_next h2)(prev := Some (Stub p))\<rparr>
                in case qn_next h3 n0 of
                     None \<Rightarrow> Inr (nullptr, h3)
                   | Some n \<Rightarrow> mpsc_take p n0 n h3))"

definition pop_mpsc_iter :: "ptr \<Rightarrow> 'a queue_heap_scheme \<Rightarrow>
    'a queue_heap_scheme + ptr \<times> 'a queue_heap_scheme" where
  "pop_mpsc_iter p h =
     (let n0 = p_head h p; next = qn_next h n0
      in if n0 = Stub p
         then (case next of
                 None \<Rightarrow> Inr (nullptr, h)
               | Some n \<Rightarrow>
                   (let h1 = h\<lparr>p_head := (p_head h)(p := n)\<rparr>
                    in mpsc_detach p n (qn_next h1 n) h1))
         else mpsc_detach p n0 next h)"

partial_function (option) pop_mpsc_loop ::
  "ptr \<Rightarrow> 'a queue_heap_scheme \<Rightarrow> (ptr \<times> 'a queue_heap_scheme) option" where
  "pop_mpsc_loop p h =
     (case pop_mpsc_iter p h of Inl h' \<Rightarrow> pop_mpsc_loop p h' | Inr r \<Rightarrow> Some r)"

text \<open>
  The tail of \<^verbatim>\<open>pop_mpsc\<close>: the counter, and the unit that only its home PE may run is pushed
  back (through \<open>repush\<close>, which stands for the \<^verbatim>\<open>push(t)\<close> call) and reported as empty.
\<close>

definition pop_mpsc :: "(ptr \<Rightarrow> 'a queue_heap_scheme \<Rightarrow> 'a queue_heap_scheme option) \<Rightarrow>
    (ptr \<Rightarrow> bool) \<Rightarrow> ptr \<Rightarrow> 'a queue_heap_scheme \<Rightarrow> (ptr \<times> 'a queue_heap_scheme) option" where
  "pop_mpsc repush pinned_elsewhere p h =
     do { (t, h1) \<leftarrow> pop_mpsc_loop p h;
          if t = nullptr then Some (nullptr, h1)
          else let h2 = count_add p (-1) h1
               in if pinned_elsewhere t
                  then do { h3 \<leftarrow> repush t h2; Some (nullptr, h3) }
                  else Some (t, h2) }"

text \<open>The MPSC branch of \<^verbatim>\<open>remove_unit\<close>, for a unit of this pool: mark it, once.\<close>

definition remove_mpsc :: "ptr \<Rightarrow> ptr \<Rightarrow> 'a queue_heap_scheme \<Rightarrow> bool \<times> 'a queue_heap_scheme" where
  "remove_mpsc p t h =
     (if t_removed h t then (False, h)
      else (True, count_add p (-1) (h\<lparr>t_removed := (t_removed h)(t := True)\<rparr>)))"


subsection \<open>The chain of nodes\<close>

text \<open>
  \<open>links nx pv Q\<close>: from every node of \<open>Q\<close> the \<^verbatim>\<open>next\<close> field leads to the node after it, but for
  the nodes \<open>m\<close> whose push has exchanged the tail and not yet stored its link: there \<open>pv m\<close> is the
  node the push will write, and that node's \<^verbatim>\<open>next\<close> is still null.
\<close>

fun links :: "(ABTI_qnode \<Rightarrow> ABTI_qnode option) \<Rightarrow> (ABTI_qnode \<Rightarrow> ABTI_qnode option) \<Rightarrow>
    ABTI_qnode list \<Rightarrow> bool" where
  "links nx pv [] \<longleftrightarrow> True"
| "links nx pv [n] \<longleftrightarrow> nx n = None"
| "links nx pv (n # m # r) \<longleftrightarrow>
     (if pv m = None then nx n = Some m else pv m = Some n \<and> nx n = None) \<and>
     links nx pv (m # r)"

lemma links_tl: "links nx pv (n # Q) \<Longrightarrow> links nx pv Q"
  by (cases Q) auto

lemma links_cong:
  "(\<And>n. n \<in> set Q \<Longrightarrow> nx n = nx' n) \<Longrightarrow> (\<And>n. n \<in> set (tl Q) \<Longrightarrow> pv n = pv' n) \<Longrightarrow>
   links nx pv Q = links nx' pv' Q"
proof (induction Q rule: induct_list012)
  case (3 x y zs)
  then have "nx x = nx' x" "pv y = pv' y" "links nx pv (y # zs) = links nx' pv' (y # zs)" by simp_all
  then show ?case by simp
qed simp_all

lemma links_fun_upd [simp]:
  "n \<notin> set Q \<Longrightarrow> links (nx(n := x)) pv Q = links nx pv Q"
  "n \<notin> set (tl Q) \<Longrightarrow> links nx (pv(n := x)) Q = links nx pv Q"
  by (auto intro!: links_cong)

lemma links_next: "links nx pv (h # Q) \<Longrightarrow> nx h = Some n \<Longrightarrow> \<exists>R. Q = n # R"
  by (cases Q) (auto split: if_splits)

lemma links_last: "links nx pv Q \<Longrightarrow> Q \<noteq> [] \<Longrightarrow> nx (last Q) = None"
  by (induction Q rule: induct_list012) auto

text \<open>Exchanging the tail appends a node whose link is still owed.\<close>

lemma links_snoc:
  "links nx pv Q \<Longrightarrow> Q \<noteq> [] \<Longrightarrow> n \<notin> set Q \<Longrightarrow> nx n = None \<Longrightarrow>
   links nx (pv(n := Some (last Q))) (Q @ [n])"
proof (induction Q rule: induct_list012)
  case 1
  then show ?case by simp
next
  case (2 x)
  then show ?case by simp
next
  case (3 x y zs)
  then show ?case by auto
qed

text \<open>Storing the link pays it.\<close>

lemma links_pay:
  "links nx pv Q \<Longrightarrow> distinct Q \<Longrightarrow> pv m = Some n \<Longrightarrow> m \<in> set (tl Q) \<Longrightarrow>
   links (nx(n := Some m)) (pv(m := None)) Q \<and> n \<in> set Q \<and> n \<noteq> last Q"
proof (induction Q rule: induct_list012)
  case 1
  then show ?case by simp
next
  case (2 x)
  then show ?case by simp
next
  case (3 x y zs)
  show ?case
  proof (cases "m = y")
    case True
    with 3 have n: "n = x" "links nx pv (y # zs)" "x \<notin> set (y # zs)" "y \<notin> set zs" by auto
    then have "links (nx(n := Some m)) (pv(m := None)) (y # zs)" using True by simp
    moreover have "last (y # zs) \<noteq> x" using n(3) last_in_set [of "y # zs"] by auto
    moreover have "if (pv(m := None)) y = None then (nx(n := Some m)) x = Some y
        else (pv(m := None)) y = Some x \<and> (nx(n := Some m)) x = None" using n(1) True by simp
    ultimately show ?thesis unfolding links.simps using n(1) by simp
  next
    case False
    with "3.prems" have m: "m \<in> set (tl (y # zs))" by simp
    have "links nx pv (y # zs)" "distinct (y # zs)" using "3.prems" by auto
    from "3.IH"(2) [OF \<open>links nx pv (y # zs)\<close> \<open>distinct (y # zs)\<close> "3.prems"(3) m]
    have IH: "links (nx(n := Some m)) (pv(m := None)) (y # zs)"
      "n \<in> set (y # zs)" "n \<noteq> last (y # zs)" by blast+
    from IH(2) "3.prems"(2) have "n \<noteq> x" by auto
    with False "3.prems"(1) have step: "if (pv(m := None)) y = None then (nx(n := Some m)) x = Some y
        else (pv(m := None)) y = Some x \<and> (nx(n := Some m)) x = None" by simp
    from IH show ?thesis unfolding links.simps using step by simp
  qed
qed


subsection \<open>The queue at rest is a store\<close>

abbreviation unit_nodes :: "ptr \<Rightarrow> ABTI_qnode list \<Rightarrow> ptr list" where
  "unit_nodes p Q \<equiv> map qn_owner (filter (\<lambda>n. n \<noteq> Stub p) Q)"

definition mpsc_chain :: "'a queue_heap_scheme \<Rightarrow> ptr \<Rightarrow> ABTI_qnode list \<Rightarrow> bool" where
  "mpsc_chain h p Q \<longleftrightarrow>
     Q \<noteq> [] \<and> distinct Q \<and> p_head h p = hd Q \<and> p_tail h p = last Q \<and>
     links (qn_next h) (\<lambda>_. None) Q \<and>
     (\<forall>n\<in>set Q. n = Stub p \<or> (\<exists>t. n = QN t \<and> t \<noteq> nullptr \<and> t_in_pool h t))"

definition mpsc :: "'a queue_heap_scheme \<Rightarrow> ptr \<Rightarrow> ptr list \<Rightarrow> bool" where
  "mpsc h p xs \<longleftrightarrow> (\<exists>Q. mpsc_chain h p Q \<and> xs = unit_nodes p Q)"

lemma unit_nodes_eq:
  assumes "\<forall>n\<in>set Q. n = Stub p \<or> (\<exists>t. n = QN t \<and> P t)"
  shows "t \<in> set (unit_nodes p Q) \<longleftrightarrow> QN t \<in> set Q"
    and "distinct Q \<Longrightarrow> distinct (unit_nodes p Q)"
    and "\<forall>t\<in>set (unit_nodes p Q). P t"
proof -
  show "t \<in> set (unit_nodes p Q) \<longleftrightarrow> QN t \<in> set Q" using assms by force
  have "inj_on qn_owner (set (filter (\<lambda>n. n \<noteq> Stub p) Q))"
  proof (rule inj_onI)
    fix a b
    assume "a \<in> set (filter (\<lambda>n. n \<noteq> Stub p) Q)" "b \<in> set (filter (\<lambda>n. n \<noteq> Stub p) Q)"
    then obtain u v where "a = QN u" "b = QN v" using assms by fastforce
    then show "qn_owner a = qn_owner b \<Longrightarrow> a = b" by simp
  qed
  then show "distinct Q \<Longrightarrow> distinct (unit_nodes p Q)" by (simp add: distinct_map)
  show "\<forall>t\<in>set (unit_nodes p Q). P t" using assms by force
qed

lemma links_unique:
  "links nx (\<lambda>_. None) Q \<Longrightarrow> links nx (\<lambda>_. None) R \<Longrightarrow> Q \<noteq> [] \<Longrightarrow> R \<noteq> [] \<Longrightarrow> hd Q = hd R \<Longrightarrow> Q = R"
proof (induction Q arbitrary: R rule: induct_list012)
  case 1
  then show ?case by simp
next
  case (2 x)
  then show ?case by (cases R rule: remdups_adj.cases) auto
next
  case (3 x y zs)
  then obtain zs' where R: "R = x # y # zs'" by (cases R rule: remdups_adj.cases) auto
  with 3 have "y # zs = y # zs'" by (intro "3.IH"(2)) auto
  with R show ?case by simp
qed

text \<open>What the consumer changes: the ends of the chain of its own pool, and the flags of the units
  \<open>T\<close> it has detached.\<close>

definition mpsc_popped :: "ptr \<Rightarrow> (ABTI_qnode \<Rightarrow> ABTI_qnode option) \<Rightarrow> ABTI_qnode \<Rightarrow> ABTI_qnode \<Rightarrow>
    ptr set \<Rightarrow> 'a queue_heap_scheme \<Rightarrow> 'a queue_heap_scheme" where
  "mpsc_popped p nx a b T h =
     h\<lparr>qn_next := nx, t_in_pool := (\<lambda>u. t_in_pool h u \<and> u \<notin> T),
       t_removed := (\<lambda>u. t_removed h u \<and> u \<notin> T),
       p_tail := (p_tail h)(p := b), p_head := (p_head h)(p := a)\<rparr>"

lemma mpsc_popped_sel [simp]:
  "qn_next (mpsc_popped p nx a b T h) = nx"
  "t_in_pool (mpsc_popped p nx a b T h) = (\<lambda>u. t_in_pool h u \<and> u \<notin> T)"
  "t_removed (mpsc_popped p nx a b T h) = (\<lambda>u. t_removed h u \<and> u \<notin> T)"
  "p_tail (mpsc_popped p nx a b T h) = (p_tail h)(p := b)"
  "p_head (mpsc_popped p nx a b T h) = (p_head h)(p := a)"
  "p_count (mpsc_popped p nx a b T h) = p_count h"
  by (simp_all add: mpsc_popped_def)

lemma mpsc_popped_popped:
  "mpsc_popped p nx' a' b' T' (mpsc_popped p nx a b T h) = mpsc_popped p nx' a' b' (T \<union> T') h"
  by (simp add: mpsc_popped_def conj_assoc fun_eq_iff)

lemma mpsc_take_popped:
  "mpsc_take p (QN t) n h =
     (let h' = mpsc_popped p (qn_next h) n (p_tail h p) {t} h
      in if t_removed h t then Inl h' else Inr (t, h'))"
proof -
  have "f(t := False) = (\<lambda>u. f u \<and> u \<notin> {t})" for f :: "ptr \<Rightarrow> bool" by (auto simp: fun_eq_iff)
  then show ?thesis by (simp add: mpsc_take_def mpsc_popped_def Let_def)
qed

lemma mpsc_chain_popped:
  assumes "mpsc_chain h p (QN t # Q)" "Q \<noteq> []" "nx = qn_next h" "a = hd Q" "b = last Q"
  shows "mpsc_chain (mpsc_popped p nx a b {t} h) p Q"
  using assms links_tl [of "qn_next h" _ "QN t" Q] by (auto simp: mpsc_chain_def)

text \<open>Detaching the first unit of the chain, with the stub re-appended when it is the last node.\<close>

lemma mpsc_detach_chain:
  assumes c: "mpsc_chain h p (QN t # R)"
  obtains nx a b Q where
    "mpsc_detach p (QN t) (qn_next h (QN t)) h =
       (let h' = mpsc_popped p nx a b {t} h in if t_removed h t then Inl h' else Inr (t, h'))"
    "mpsc_chain (mpsc_popped p nx a b {t} h) p Q" "unit_nodes p Q = unit_nodes p R"
    "\<forall>n. n \<noteq> Stub p \<and> n \<noteq> QN t \<longrightarrow> nx n = qn_next h n"
proof (cases R)
  case (Cons n R')
  with c have n: "qn_next h (QN t) = Some n" by (simp add: mpsc_chain_def)
  have d: "mpsc_detach p (QN t) (qn_next h (QN t)) h = (let h' = mpsc_popped p (qn_next h) n (p_tail h p) {t} h
      in if t_removed h t then Inl h' else Inr (t, h'))"
    unfolding n mpsc_detach_def by (simp add: mpsc_take_popped)
  have "mpsc_chain (mpsc_popped p (qn_next h) n (p_tail h p) {t} h) p R"
    by (rule mpsc_chain_popped) (use c Cons in \<open>auto simp: mpsc_chain_def\<close>)
  then show thesis using that d by blast
next
  case Nil
  with c have tl: "p_tail h p = QN t" and nx: "qn_next h (QN t) = None"
    and hd: "p_head h p = QN t" and t: "t \<noteq> nullptr" "t_in_pool h t"
    by (auto simp: mpsc_chain_def)
  define nx' where "nx' = (qn_next h)(Stub p := None, QN t := Some (Stub p))"
  define h3 where "h3 = h\<lparr>p_tail := (p_tail h)(p := Stub p), qn_next := nx'\<rparr>"
  have "mpsc_detach p (QN t) (qn_next h (QN t)) h = mpsc_take p (QN t) (Stub p) h3"
    unfolding mpsc_detach_def nx by (simp add: tl h3_def nx'_def Let_def)
  also have "\<dots> = (let h' = mpsc_popped p nx' (Stub p) (Stub p) {t} h
      in if t_removed h t then Inl h' else Inr (t, h'))"
    by (simp add: mpsc_take_popped h3_def mpsc_popped_def Let_def)
  finally have d: "mpsc_detach p (QN t) (qn_next h (QN t)) h = \<dots>" .
  have "mpsc_chain (mpsc_popped p nx' (Stub p) (Stub p) {t} h) p [Stub p]"
    by (simp add: mpsc_chain_def nx'_def)
  then show thesis by (rule that [OF d]) (simp_all add: Nil nx'_def)
qed

lemma mpsc_chain_stub: "mpsc_chain h p Q \<Longrightarrow> unit_nodes p Q = [] \<longleftrightarrow> Q = [Stub p]"
  by (cases Q rule: remdups_adj.cases) (auto simp: mpsc_chain_def)

lemma pop_mpsc_iter_empty:
  assumes "mpsc_chain h p [Stub p]"
  shows "pop_mpsc_iter p h = Inr (nullptr, h)"
  using assms by (simp add: mpsc_chain_def pop_mpsc_iter_def)

lemma pop_mpsc_iter_chain:
  assumes c: "mpsc_chain h p Q" and xs: "unit_nodes p Q = t # xs"
  obtains nx a b Q' where
    "pop_mpsc_iter p h =
       (let h' = mpsc_popped p nx a b {t} h in if t_removed h t then Inl h' else Inr (t, h'))"
    "mpsc_chain (mpsc_popped p nx a b {t} h) p Q'" "unit_nodes p Q' = xs"
    "\<forall>n. n \<noteq> Stub p \<and> n \<noteq> QN t \<longrightarrow> nx n = qn_next h n"
proof (cases "hd Q = Stub p")
  case False
  with c xs obtain R where Q: "Q = QN t # R" "unit_nodes p R = xs"
    by (cases Q) (auto simp: mpsc_chain_def)
  with c have "p_head h p = QN t" by (simp add: mpsc_chain_def)
  then have "pop_mpsc_iter p h = mpsc_detach p (QN t) (qn_next h (QN t)) h"
    by (simp add: pop_mpsc_iter_def Let_def)
  note i = this
  from c Q have "mpsc_chain h p (QN t # R)" by simp
  then show thesis
    by (rule mpsc_detach_chain) (rule that, simp_all add: i Q(2))
next
  case True
  with c obtain R where "Q = Stub p # R" "Stub p \<notin> set R" by (cases Q) (auto simp: mpsc_chain_def)
  with xs c obtain R' where Q: "Q = Stub p # QN t # R'" "unit_nodes p R' = xs"
    by (cases R) (auto simp: mpsc_chain_def)
  define h1 where "h1 = h\<lparr>p_head := (p_head h)(p := QN t)\<rparr>"
  have "p_head h p = Stub p" "qn_next h (Stub p) = Some (QN t)" using c Q by (simp_all add: mpsc_chain_def)
  then have i: "pop_mpsc_iter p h = mpsc_detach p (QN t) (qn_next h1 (QN t)) h1"
    by (simp add: pop_mpsc_iter_def h1_def Let_def)
  have "mpsc_chain h1 p (QN t # R')" using c Q by (auto simp: mpsc_chain_def h1_def)
  then obtain nx a b Q' where m:
    "mpsc_detach p (QN t) (qn_next h1 (QN t)) h1 =
       (let h' = mpsc_popped p nx a b {t} h1 in if t_removed h1 t then Inl h' else Inr (t, h'))"
    "mpsc_chain (mpsc_popped p nx a b {t} h1) p Q'" "unit_nodes p Q' = unit_nodes p R'"
    "\<forall>n. n \<noteq> Stub p \<and> n \<noteq> QN t \<longrightarrow> nx n = qn_next h1 n" by (rule mpsc_detach_chain)
  have h1: "mpsc_popped p nx a b {t} h1 = mpsc_popped p nx a b {t} h"
    "t_removed h1 = t_removed h" "qn_next h1 = qn_next h"
    by (simp_all add: h1_def mpsc_popped_def)
  show thesis by (rule that [of nx a b Q']) (use i m Q h1 in simp_all)
qed

text \<open>The loop ends, for it detaches a unit per round, and leaves with the first unit that was not
  removed.\<close>

lemma pop_mpsc_loop_chain:
  assumes "mpsc_chain h p Q" "xs = unit_nodes p Q" "zs = dropWhile (t_removed h) xs"
    "T = set (takeWhile (t_removed h) xs) \<union> (if zs = [] then {} else {hd zs})"
  shows "\<exists>nx a b Q'. pop_mpsc_loop p h =
       Some (if zs = [] then nullptr else hd zs, mpsc_popped p nx a b T h) \<and>
     mpsc_chain (mpsc_popped p nx a b T h) p Q' \<and> unit_nodes p Q' = tl zs \<and>
     (\<forall>n. n \<noteq> Stub p \<and> n \<notin> QN ` T \<longrightarrow> nx n = qn_next h n)"
  using assms
proof (induction xs arbitrary: h Q T)
  case Nil
  then have "Q = [Stub p]" using mpsc_chain_stub [OF Nil.prems(1)] by simp
  moreover have "mpsc_popped p (qn_next h) (p_head h p) (p_tail h p) {} h = h" by (simp add: mpsc_popped_def)
  moreover have "pop_mpsc_loop p h = Some (nullptr, h)"
    using Nil.prems(1) pop_mpsc_iter_empty [of h p] \<open>Q = [Stub p]\<close> by (subst pop_mpsc_loop.simps) simp
  moreover have "zs = []" "T = {}" using Nil.prems(3,4) by simp_all
  ultimately have "pop_mpsc_loop p h = Some (if zs = [] then nullptr else hd zs,
      mpsc_popped p (qn_next h) (p_head h p) (p_tail h p) T h) \<and>
     mpsc_chain (mpsc_popped p (qn_next h) (p_head h p) (p_tail h p) T h) p Q \<and> unit_nodes p Q = tl zs \<and>
     (\<forall>n. n \<noteq> Stub p \<and> n \<notin> QN ` T \<longrightarrow> qn_next h n = qn_next h n)" using Nil.prems(1,2) by simp
  then show ?case by blast
next
  case (Cons t xs)
  obtain nx a b Q' where m:
    "pop_mpsc_iter p h =
       (let h' = mpsc_popped p nx a b {t} h in if t_removed h t then Inl h' else Inr (t, h'))"
    "mpsc_chain (mpsc_popped p nx a b {t} h) p Q'" "unit_nodes p Q' = xs"
    "\<forall>n. n \<noteq> Stub p \<and> n \<noteq> QN t \<longrightarrow> nx n = qn_next h n"
    by (rule pop_mpsc_iter_chain [OF Cons.prems(1) Cons.prems(2) [symmetric]])
  let ?h = "mpsc_popped p nx a b {t} h"
  show ?case
  proof (cases "t_removed h t")
    case False
    with Cons.prems(3,4) have "zs = t # xs" "T = {t}" by simp_all
    moreover have "pop_mpsc_loop p h = Some (t, ?h)"
      using m(1) False by (subst pop_mpsc_loop.simps) (simp add: Let_def)
    ultimately have "pop_mpsc_loop p h = Some (if zs = [] then nullptr else hd zs, mpsc_popped p nx a b T h) \<and>
       mpsc_chain (mpsc_popped p nx a b T h) p Q' \<and> unit_nodes p Q' = tl zs \<and>
       (\<forall>n. n \<noteq> Stub p \<and> n \<notin> QN ` T \<longrightarrow> nx n = qn_next h n)" using m(2-4) by simp
    then show ?thesis by blast
  next
    case True
    have "t \<notin> set xs" using Cons.prems(1,2) unit_nodes_eq(2) [of Q p "\<lambda>t. t \<noteq> nullptr \<and> t_in_pool h t"]
      by (metis distinct.simps(2) mpsc_chain_def)
    then have same: "dropWhile (t_removed ?h) xs = zs"
      "takeWhile (t_removed ?h) xs = takeWhile (t_removed h) xs"
      using True Cons.prems(3) by (auto intro: dropWhile_cong takeWhile_cong)
    define T' where "T' = set (takeWhile (t_removed h) xs) \<union> (if zs = [] then {} else {hd zs})"
    from Cons.IH [OF m(2) m(3) [symmetric] same(1) [symmetric], of T'] obtain nx' a' b' Q'' where
      i: "pop_mpsc_loop p ?h = Some (if zs = [] then nullptr else hd zs, mpsc_popped p nx' a' b' T' ?h)"
        "mpsc_chain (mpsc_popped p nx' a' b' T' ?h) p Q''" "unit_nodes p Q'' = tl zs"
        "\<forall>n. n \<noteq> Stub p \<and> n \<notin> QN ` T' \<longrightarrow> nx' n = nx n"
      unfolding same T'_def by auto
    have T: "T = {t} \<union> T'" using Cons.prems(3,4) True by (auto simp: T'_def)
    have "pop_mpsc_loop p h = pop_mpsc_loop p ?h"
      using m(1) True by (subst pop_mpsc_loop.simps) (simp add: Let_def)
    moreover have "\<forall>n. n \<noteq> Stub p \<and> n \<notin> QN ` T \<longrightarrow> nx' n = qn_next h n"
      using i(4) m(4) unfolding T by auto
    ultimately show ?thesis using i(1-3) unfolding mpsc_popped_popped T by metis
  qed
qed

lemma mpsc_chain_cong:
  assumes "mpsc_chain h q Q" "\<And>n. n \<in> set Q \<Longrightarrow> qn_next h' n = qn_next h n"
    "p_head h' q = p_head h q" "p_tail h' q = p_tail h q"
    "\<And>t. QN t \<in> set Q \<Longrightarrow> t_in_pool h t \<Longrightarrow> t_in_pool h' t"
  shows "mpsc_chain h' q Q"
proof -
  have "links (qn_next h') (\<lambda>_. None) Q = links (qn_next h) (\<lambda>_. None) Q"
    using assms(2) by (rule links_cong) simp_all
  with assms show ?thesis by (auto simp: mpsc_chain_def)
qed

lemma mpsc_chain_member: "mpsc_chain h p Q \<Longrightarrow> QN t \<in> set Q \<Longrightarrow> t_in_pool h t \<and> t \<noteq> nullptr"
  by (auto simp: mpsc_chain_def)

lemma mpsc_chain_other: "mpsc_chain h q Q \<Longrightarrow> p \<noteq> q \<Longrightarrow> Stub p \<notin> set Q"
  by (auto simp: mpsc_chain_def)

lemma mpsc_chain_units: "mpsc_chain h p Q \<Longrightarrow> t \<in> set (unit_nodes p Q) \<longleftrightarrow> QN t \<in> set Q"
  using unit_nodes_eq(1) [of Q p "\<lambda>t. t \<noteq> nullptr \<and> t_in_pool h t" t] by (simp add: mpsc_chain_def)

lemma push_mpsc_chain:
  assumes c: "mpsc_chain h p Q" and t: "\<not> t_in_pool h t" "t \<noteq> nullptr"
  shows "mpsc_chain (push_mpsc p t h) p (Q @ [QN t])"
proof -
  have Q: "Q \<noteq> []" "distinct Q" "QN t \<notin> set Q" "links (qn_next h) (\<lambda>_. None) Q" "p_tail h p = last Q"
    using c t by (auto simp: mpsc_chain_def)
  let ?nx = "(qn_next h)(QN t := None)" and ?pv = "(\<lambda>_. None)(QN t := Some (last Q))"
  have "links ?nx (\<lambda>_. None) Q" using Q by simp
  then have "links ?nx ?pv (Q @ [QN t])" using Q by (intro links_snoc) simp_all
  then have "links (?nx(last Q := Some (QN t))) (?pv(QN t := None)) (Q @ [QN t])"
    using Q by (intro links_pay [THEN conjunct1]) simp_all
  moreover have "?pv(QN t := None) = (\<lambda>_. None)" by auto
  ultimately have "links (?nx(last Q := Some (QN t))) (\<lambda>_. None) (Q @ [QN t])" by simp
  moreover have "qn_next (push_mpsc p t h) = ?nx(last Q := Some (QN t))"
    "p_head (push_mpsc p t h) = p_head h" "p_tail (push_mpsc p t h) p = QN t"
    "t_in_pool (push_mpsc p t h) = (t_in_pool h)(t := True)"
    using Q(5) by (simp_all add: push_mpsc_def Let_def count_add_def)
  moreover have "\<forall>n\<in>set (Q @ [QN t]). n = Stub p \<or>
      (\<exists>u. n = QN u \<and> u \<noteq> nullptr \<and> ((t_in_pool h)(t := True)) u)"
  proof
    fix n assume "n \<in> set (Q @ [QN t])"
    then show "n = Stub p \<or> (\<exists>u. n = QN u \<and> u \<noteq> nullptr \<and> ((t_in_pool h)(t := True)) u)"
      using mpsc_chain_member [OF c] t(2) c
      by (cases n rule: ABTI_qnode.exhaust) (auto simp: mpsc_chain_def)
  qed
  ultimately show ?thesis using c Q(1,3) unfolding mpsc_chain_def by simp
qed

lemma push_mpsc_sel:
  "t_in_pool (push_mpsc p t h) = (t_in_pool h)(t := True)"
  "t_removed (push_mpsc p t h) = t_removed h"
  "p_head (push_mpsc p t h) = p_head h"
  "p_tail (push_mpsc p t h) = (p_tail h)(p := QN t)"
  "p_count (push_mpsc p t h) = (p_count h)(p := p_count h p + 1)"
  by (simp_all add: push_mpsc_def Let_def count_add_def)

lemma push_mpsc_frame:
  assumes c: "mpsc_chain h p Q" and d: "mpsc_chain h q R" and "p \<noteq> q" "\<not> t_in_pool h t"
    "set (unit_nodes p Q) \<inter> set (unit_nodes q R) = {}"
  shows "mpsc_chain (push_mpsc p t h) q R"
proof (rule mpsc_chain_cong [OF d])
  fix n assume n: "n \<in> set R"
  have "p_tail h p \<in> set Q" using c by (simp add: mpsc_chain_def)
  have "set Q \<inter> set R = {}"
  proof -
    { fix x assume x: "x \<in> set Q" "x \<in> set R"
      then have "\<exists>u. x = QN u" using c d \<open>p \<noteq> q\<close> by (force simp: mpsc_chain_def)
      then obtain u where "x = QN u" by blast
      then have False using x assms(5) mpsc_chain_units [OF c] mpsc_chain_units [OF d] by blast }
    then show ?thesis by blast
  qed
  with n \<open>p_tail h p \<in> set Q\<close> have "n \<noteq> p_tail h p" by auto
  moreover have "n \<noteq> QN t" using n d assms(4) mpsc_chain_member by blast
  ultimately show "qn_next (push_mpsc p t h) n = qn_next h n"
    by (simp add: push_mpsc_def Let_def count_add_def)
qed (use assms(3) in \<open>simp_all add: push_mpsc_sel\<close>)

lemma mpsc_popped_frame:
  assumes "mpsc_chain h q R" "p \<noteq> q" "T \<inter> set (unit_nodes q R) = {}"
    "\<forall>n. n \<noteq> Stub p \<and> n \<notin> QN ` T \<longrightarrow> nx n = qn_next h n"
  shows "mpsc_chain (mpsc_popped p nx a b T h) q R"
proof (rule mpsc_chain_cong [OF assms(1)])
  have T: "QN u \<in> set R \<Longrightarrow> u \<notin> T" for u
    using mpsc_chain_units [OF assms(1)] assms(3) by blast
  show "qn_next (mpsc_popped p nx a b T h) n = qn_next h n" if "n \<in> set R" for n
    using that T assms(4) mpsc_chain_other [OF assms(1,2)] by (metis imageE mpsc_popped_sel(1))
  show "t_in_pool (mpsc_popped p nx a b T h) u" if "QN u \<in> set R" "t_in_pool h u" for u
    using that T by simp
qed (use assms(2) in simp_all)

text \<open>The whole pop on a queue at rest.\<close>

lemma pop_mpsc_chain:
  assumes c: "mpsc_chain h p Q" and xs: "xs = unit_nodes p Q"
    and zs: "zs = dropWhile (t_removed h) xs" and pin: "zs \<noteq> [] \<Longrightarrow> \<not> pinned (hd zs)"
    and T: "T = set (takeWhile (t_removed h) xs) \<union> (if zs = [] then {} else {hd zs})"
  obtains nx a b Q' where
    "pop_mpsc repush pinned p h =
       Some (if zs = [] then (nullptr, mpsc_popped p nx a b T h)
             else (hd zs, count_add p (-1) (mpsc_popped p nx a b T h)))"
    "mpsc_chain (mpsc_popped p nx a b T h) p Q'" "unit_nodes p Q' = tl zs"
    "\<forall>n. n \<noteq> Stub p \<and> n \<notin> QN ` T \<longrightarrow> nx n = qn_next h n"
proof -
  from pop_mpsc_loop_chain [OF c xs zs T] obtain nx a b Q' where l:
    "pop_mpsc_loop p h = Some (if zs = [] then nullptr else hd zs, mpsc_popped p nx a b T h)"
    "mpsc_chain (mpsc_popped p nx a b T h) p Q'" "unit_nodes p Q' = tl zs"
    "\<forall>n. n \<noteq> Stub p \<and> n \<notin> QN ` T \<longrightarrow> nx n = qn_next h n" by blast
  have "hd zs \<noteq> nullptr" if "zs \<noteq> []"
  proof -
    have "hd zs \<in> set xs" using that zs by (metis hd_in_set set_dropWhileD)
    then show ?thesis using mpsc_chain_units [OF c] mpsc_chain_member [OF c] xs by blast
  qed
  then have "pop_mpsc repush pinned p h =
       Some (if zs = [] then (nullptr, mpsc_popped p nx a b T h)
             else (hd zs, count_add p (-1) (mpsc_popped p nx a b T h)))"
    using pin l(1) by (auto simp: pop_mpsc_def Let_def)
  then show thesis using l(2-4) by (rule that)
qed

lemma mpsc_chain_count_add [simp]: "mpsc_chain (count_add p d h) q Q = mpsc_chain h q Q"
  by (simp add: mpsc_chain_def)

lemma mpsc_unique: "mpsc h p xs \<Longrightarrow> mpsc h p ys \<Longrightarrow> xs = ys"
  unfolding mpsc_def mpsc_chain_def using links_unique by (metis (no_types))

lemma mpsc_members: "mpsc h p xs \<Longrightarrow> t \<in> set xs \<Longrightarrow> t_in_pool h t \<and> t \<noteq> nullptr"
  unfolding mpsc_def using mpsc_chain_units mpsc_chain_member by blast

lemma mpsc_distinct: "mpsc h p xs \<Longrightarrow> distinct xs"
  unfolding mpsc_def mpsc_chain_def
  using unit_nodes_eq(2) [of _ p "\<lambda>t. t \<noteq> nullptr \<and> t_in_pool h t"] by blast

lemma push_mpsc_mpsc:
  assumes "mpsc h p xs" "\<not> t_in_pool h t" "t \<noteq> nullptr"
  shows "mpsc (push_mpsc p t h) p (xs @ [t])"
proof -
  from assms(1) obtain Q where Q: "mpsc_chain h p Q" "xs = unit_nodes p Q" unfolding mpsc_def by blast
  have "unit_nodes p (Q @ [QN t]) = xs @ [t]" using Q(2) by simp
  with push_mpsc_chain [OF Q(1) assms(2,3)] show ?thesis unfolding mpsc_def by metis
qed

lemma push_mpsc_mpsc_frame:
  assumes "mpsc h p xs" "mpsc h q ys" "p \<noteq> q" "set xs \<inter> set ys = {}" "\<not> t_in_pool h t"
  shows "mpsc (push_mpsc p t h) q ys"
  using assms push_mpsc_frame unfolding mpsc_def by metis

text \<open>
  The pop of the contract: what is in front and removed is dropped, the next unit is taken, no
  other pool changes.
\<close>

lemma pop_mpsc_mpsc:
  assumes "mpsc h p xs" and zs: "zs = dropWhile (t_removed h) xs"
    and pin: "zs \<noteq> [] \<Longrightarrow> \<not> pinned (hd zs)"
  shows "\<exists>h'. pop_mpsc repush pinned p h = Some (if zs = [] then nullptr else hd zs, h') \<and>
    mpsc h' p (tl zs) \<and>
    (\<forall>u. t_in_pool h' u \<longleftrightarrow>
       t_in_pool h u \<and> u \<notin> set (takeWhile (t_removed h) xs) \<and> (zs = [] \<or> u \<noteq> hd zs)) \<and>
    (\<forall>u. t_removed h' u \<longleftrightarrow> t_removed h u \<and> u \<notin> set (takeWhile (t_removed h) xs)) \<and>
    (\<forall>q ys. q \<noteq> p \<longrightarrow> mpsc h q ys \<longrightarrow> set xs \<inter> set ys = {} \<longrightarrow> mpsc h' q ys)"
proof -
  from assms(1) obtain Q where Q: "mpsc_chain h p Q" "xs = unit_nodes p Q" unfolding mpsc_def by blast
  define T where "T = set (takeWhile (t_removed h) xs) \<union> (if zs = [] then {} else {hd zs})"
  obtain nx a b Q' where r:
    "pop_mpsc repush pinned p h =
       Some (if zs = [] then (nullptr, mpsc_popped p nx a b T h)
             else (hd zs, count_add p (-1) (mpsc_popped p nx a b T h)))"
    "mpsc_chain (mpsc_popped p nx a b T h) p Q'" "unit_nodes p Q' = tl zs"
    "\<forall>n. n \<noteq> Stub p \<and> n \<notin> QN ` T \<longrightarrow> nx n = qn_next h n"
    by (rule pop_mpsc_chain [OF Q zs _ T_def, of pinned repush]) (rule pin)
  have "zs \<noteq> [] \<Longrightarrow> hd zs \<in> set xs" using zs by (metis hd_in_set set_dropWhileD)
  then have T: "T \<subseteq> set xs" unfolding T_def by (auto dest: set_takeWhileD)
  have zr: "zs \<noteq> [] \<Longrightarrow> \<not> t_removed h (hd zs)" using zs hd_dropWhile by metis
  define h' where "h' = (if zs = [] then mpsc_popped p nx a b T h
    else count_add p (-1) (mpsc_popped p nx a b T h))"
  have chain: "mpsc_chain h' q R = mpsc_chain (mpsc_popped p nx a b T h) q R" for q R
    by (simp add: h'_def)
  have "mpsc h' p (tl zs)" unfolding mpsc_def chain using r(2,3) by metis
  moreover have "mpsc h' q ys" if "q \<noteq> p" "mpsc h q ys" "set xs \<inter> set ys = {}" for q ys
  proof -
    from that(2) obtain R where "mpsc_chain h q R" "ys = unit_nodes q R" unfolding mpsc_def by blast
    moreover have "T \<inter> set ys = {}" using T that(3) by blast
    ultimately have "mpsc_chain h' q R"
      unfolding chain using that(1) r(4) by (intro mpsc_popped_frame) simp_all
    with \<open>ys = unit_nodes q R\<close> show ?thesis unfolding mpsc_def by blast
  qed
  moreover have "\<forall>u. t_in_pool h' u \<longleftrightarrow>
      t_in_pool h u \<and> u \<notin> set (takeWhile (t_removed h) xs) \<and> (zs = [] \<or> u \<noteq> hd zs)"
    "\<forall>u. t_removed h' u \<longleftrightarrow> t_removed h u \<and> u \<notin> set (takeWhile (t_removed h) xs)"
    using zr by (auto simp: h'_def T_def)
  moreover have "pop_mpsc repush pinned p h = Some (if zs = [] then nullptr else hd zs, h')"
    using r(1) by (simp add: h'_def)
  ultimately show ?thesis by blast
qed

lemma mpsc_pool_queue_init: "mpsc (pool_queue_init p h) p []"
  unfolding mpsc_def by (intro exI [of _ "[Stub p]"]) (simp add: mpsc_chain_def pool_queue_init_def)

interpretation mpsc_store: unit_store mpsc t_in_pool t_removed push_mpsc
  "\<lambda>pinned p h. pop_mpsc (\<lambda>t h. Some (push_mpsc p t h)) pinned p h" pool_queue_init
proof unfold_locales
  fix h :: "'a queue_heap_scheme" and p q t xs ys zs pinned
  show "mpsc h p xs \<Longrightarrow> distinct xs \<and> nullptr \<notin> set xs"
    using mpsc_distinct mpsc_members by blast
  show "mpsc h p xs \<Longrightarrow> t \<in> set xs \<Longrightarrow> t_in_pool h t" using mpsc_members by blast
  show "mpsc h p xs \<Longrightarrow> mpsc h p ys \<Longrightarrow> xs = ys" by (rule mpsc_unique)
  show "mpsc (pool_queue_init p h) p []" by (rule mpsc_pool_queue_init)
  show "t_in_pool (pool_queue_init p h) = t_in_pool h" "t_removed (pool_queue_init p h) = t_removed h"
    by (simp_all add: pool_queue_init_def)
  show "mpsc h p xs \<Longrightarrow> \<not> t_in_pool h t \<Longrightarrow> \<not> t_removed h t \<Longrightarrow> t \<noteq> nullptr \<Longrightarrow>
      mpsc (push_mpsc p t h) p (xs @ [t])" by (rule push_mpsc_mpsc)
  show "mpsc h p xs \<Longrightarrow> mpsc h q ys \<Longrightarrow> p \<noteq> q \<Longrightarrow> set xs \<inter> set ys = {} \<Longrightarrow>
      \<not> t_in_pool h t \<Longrightarrow> mpsc (push_mpsc p t h) q ys" by (rule push_mpsc_mpsc_frame)
qed ((rule pop_mpsc_mpsc; blast) | simp add: push_mpsc_sel)+

end
