(* ===== verification/Pool_Mpsc_Steps.thy ===== *)
theory Pool_Mpsc_Steps
  imports Pool_Mpsc "HOL-Library.Sublist"
begin

section \<open>The multi-producer single-consumer queue under interleaving\<close>

text \<open>
  The lock-free path of \<^verbatim>\<open>ABTI_pool::push\<close>, \<^verbatim>\<open>pop_mpsc\<close> and the MPSC branch of
  \<^verbatim>\<open>remove_unit\<close> (\<^verbatim>\<open>src/src/pool.cpp\<close>) cut at every access to shared memory, with any number
  of producers interleaved with the consumer and with removals.  Accesses are taken in one total
  order; the orderings the code asks for (acquire, release, sequentially consistent) are what
  allows that reading.  The pool's lock \<^verbatim>\<open>lk\<close> serialises consumers and removals, so there is one
  consumer program counter, and the lock is free exactly when it is \<open>CIdle\<close>.

  A producer is named by the unit it pushes: the flag \<^verbatim>\<open>in_pool\<close> it sets first keeps a second
  push of the same unit out.
\<close>

datatype ppc =
    PIdle
  | PClear                  \<comment> \<open>about to clear \<^verbatim>\<open>t->qn.next\<close>\<close>
  | PExch                   \<comment> \<open>about to exchange the tail\<close>
  | PLink ABTI_qnode        \<comment> \<open>about to store \<^verbatim>\<open>prev->next\<close>\<close>

datatype cpc =
    CIdle
  | CTop                                      \<comment> \<open>top of the loop\<close>
  | CSkip ABTI_qnode                          \<comment> \<open>the stub was skipped, about to load \<^verbatim>\<open>h->next\<close>\<close>
  | CCheck ABTI_qnode "ABTI_qnode option"     \<comment> \<open>about to test \<^verbatim>\<open>next\<close>\<close>
  | CStubClear ABTI_qnode                     \<comment> \<open>about to clear \<^verbatim>\<open>stub.next\<close>\<close>
  | CStubExch ABTI_qnode                      \<comment> \<open>about to exchange the tail for the stub\<close>
  | CStubLink ABTI_qnode ABTI_qnode           \<comment> \<open>about to store \<^verbatim>\<open>prev->next = &stub\<close>\<close>
  | CReload ABTI_qnode                        \<comment> \<open>about to load \<^verbatim>\<open>h->next\<close> again\<close>
  | CTake ABTI_qnode ABTI_qnode               \<comment> \<open>about to move the head and clear \<^verbatim>\<open>in_pool\<close>\<close>
  | CClear ptr                                \<comment> \<open>about to exchange \<^verbatim>\<open>t->removed\<close>\<close>

text \<open>
  \<open>uncounted\<close> pushes have linked their unit and not yet incremented the counter, \<open>unsub\<close> pops and
  removals have not yet decremented it.  The last four fields are history: the nodes from head to
  tail, the units in the order their pushes exchanged the tail, the units in the order the consumer
  detached them, and those it returned.
\<close>

record mpsc_sys = queue_heap +
  ppc :: "ptr \<Rightarrow> ppc"
  cons :: cpc
  uncounted :: nat
  unsub :: nat
  chain :: "ABTI_qnode list"
  pushed :: "ptr list"
  taken :: "ptr list"
  returned :: "ptr list"

definition push_step :: "ptr \<Rightarrow> ptr \<Rightarrow> mpsc_sys \<Rightarrow> mpsc_sys" where
  "push_step p t s =
     (case ppc s t of
        PIdle \<Rightarrow> s
      | PClear \<Rightarrow> s\<lparr>qn_next := (qn_next s)(QN t := None), ppc := (ppc s)(t := PExch)\<rparr>
      | PExch \<Rightarrow> s\<lparr>p_tail := (p_tail s)(p := QN t), ppc := (ppc s)(t := PLink (p_tail s p)),
                   chain := chain s @ [QN t], pushed := pushed s @ [t]\<rparr>
      | PLink prev \<Rightarrow> s\<lparr>qn_next := (qn_next s)(prev := Some (QN t)), ppc := (ppc s)(t := PIdle),
                        uncounted := uncounted s + 1\<rparr>)"

definition pop_step :: "ptr \<Rightarrow> mpsc_sys \<Rightarrow> mpsc_sys" where
  "pop_step p s =
     (case cons s of
        CIdle \<Rightarrow> s
      | CTop \<Rightarrow>
          (let h = p_head s p; next = qn_next s h
           in if h = Stub p
              then (case next of None \<Rightarrow> s\<lparr>cons := CIdle\<rparr>
                    | Some n \<Rightarrow> s\<lparr>p_head := (p_head s)(p := n), chain := tl (chain s), cons := CSkip n\<rparr>)
              else s\<lparr>cons := CCheck h next\<rparr>)
      | CSkip h \<Rightarrow> s\<lparr>cons := CCheck h (qn_next s h)\<rparr>
      | CCheck h next \<Rightarrow>
          (case next of
             Some n \<Rightarrow> s\<lparr>cons := CTake h n\<rparr>
           | None \<Rightarrow> if h \<noteq> p_tail s p then s\<lparr>cons := CIdle\<rparr> else s\<lparr>cons := CStubClear h\<rparr>)
      | CStubClear h \<Rightarrow> s\<lparr>qn_next := (qn_next s)(Stub p := None), cons := CStubExch h\<rparr>
      | CStubExch h \<Rightarrow> s\<lparr>p_tail := (p_tail s)(p := Stub p), cons := CStubLink h (p_tail s p),
                         chain := chain s @ [Stub p]\<rparr>
      | CStubLink h prev \<Rightarrow> s\<lparr>qn_next := (qn_next s)(prev := Some (Stub p)), cons := CReload h\<rparr>
      | CReload h \<Rightarrow>
          (case qn_next s h of None \<Rightarrow> s\<lparr>cons := CIdle\<rparr> | Some n \<Rightarrow> s\<lparr>cons := CTake h n\<rparr>)
      | CTake h n \<Rightarrow>
          s\<lparr>p_head := (p_head s)(p := n), t_in_pool := (t_in_pool s)(qn_owner h := False),
            chain := tl (chain s), taken := taken s @ [qn_owner h], cons := CClear (qn_owner h)\<rparr>
      | CClear t \<Rightarrow>
          (let s' = s\<lparr>t_removed := (t_removed s)(t := False)\<rparr>
           in if t_removed s t then s'\<lparr>cons := CTop\<rparr>
              else s'\<lparr>cons := CIdle, unsub := unsub s + 1, returned := returned s @ [t]\<rparr>))"

text \<open>
  The steps of the system.  A push starts with \<^verbatim>\<open>in_pool.exchange(true)\<close>, which aborts the process
  if the unit is queued; a removal holds the lock, so it is one step as the consumer sees it.
\<close>

inductive mpsc_step :: "ptr \<Rightarrow> mpsc_sys \<Rightarrow> mpsc_sys \<Rightarrow> bool" for p where
  push_start: "t \<noteq> nullptr \<Longrightarrow> \<not> t_in_pool s t \<Longrightarrow>
     mpsc_step p s (s\<lparr>t_in_pool := (t_in_pool s)(t := True), ppc := (ppc s)(t := PClear)\<rparr>)"
| push: "ppc s t \<noteq> PIdle \<Longrightarrow> mpsc_step p s (push_step p t s)"
| count_inc: "uncounted s > 0 \<Longrightarrow>
     mpsc_step p s (count_add p 1 (s\<lparr>uncounted := uncounted s - 1\<rparr>))"
| pop_start: "cons s = CIdle \<Longrightarrow> mpsc_step p s (s\<lparr>cons := CTop\<rparr>)"
| pop: "cons s \<noteq> CIdle \<Longrightarrow> mpsc_step p s (pop_step p s)"
| count_dec: "unsub s > 0 \<Longrightarrow>
     mpsc_step p s (count_add p (-1) (s\<lparr>unsub := unsub s - 1\<rparr>))"
| remove: "cons s = CIdle \<Longrightarrow> t_in_pool s t \<Longrightarrow> \<not> t_removed s t \<Longrightarrow>
     mpsc_step p s (s\<lparr>t_removed := (t_removed s)(t := True), unsub := unsub s + 1\<rparr>)"

definition mpsc_init :: "ptr \<Rightarrow> mpsc_sys \<Rightarrow> bool" where
  "mpsc_init p s \<longleftrightarrow>
     p_head s p = Stub p \<and> p_tail s p = Stub p \<and> qn_next s (Stub p) = None \<and> p_count s p = 0 \<and>
     t_in_pool s = (\<lambda>_. False) \<and> t_removed s = (\<lambda>_. False) \<and> ppc s = (\<lambda>_. PIdle) \<and>
     cons s = CIdle \<and> uncounted s = 0 \<and> unsub s = 0 \<and> chain s = [Stub p] \<and>
     pushed s = [] \<and> taken s = [] \<and> returned s = []"


subsection \<open>The invariant\<close>

text \<open>The link a node's push still owes: the node whose \<^verbatim>\<open>next\<close> it is about to write.\<close>

definition owed :: "ptr \<Rightarrow> mpsc_sys \<Rightarrow> ABTI_qnode \<Rightarrow> ABTI_qnode option" where
  "owed p s n = (case n of
       QN t \<Rightarrow> (case ppc s t of PLink m \<Rightarrow> Some m | _ \<Rightarrow> None)
     | Stub q \<Rightarrow> if q = p then (case cons s of CStubLink h m \<Rightarrow> Some m | _ \<Rightarrow> None) else None)"

definition chain_ok :: "ptr \<Rightarrow> (ABTI_qnode \<Rightarrow> ABTI_qnode option) \<Rightarrow> (ABTI_qnode \<Rightarrow> ABTI_qnode option) \<Rightarrow>
    ABTI_qnode \<Rightarrow> ABTI_qnode \<Rightarrow> ABTI_qnode list \<Rightarrow> bool" where
  "chain_ok p nx ow a b Q \<longleftrightarrow>
     Q \<noteq> [] \<and> distinct Q \<and> a = hd Q \<and> b = last Q \<and> links nx ow Q \<and> ow (hd Q) = None \<and>
     (\<forall>m. m \<notin> set Q \<longrightarrow> ow m = None) \<and> (\<forall>n\<in>set Q. n = Stub p \<or> (\<exists>t. n = QN t \<and> t \<noteq> nullptr))"

abbreviation chain_inv :: "ptr \<Rightarrow> mpsc_sys \<Rightarrow> bool" where
  "chain_inv p s \<equiv> chain_ok p (qn_next s) (owed p s) (p_head s p) (p_tail s p) (chain s)"

definition push_inv :: "mpsc_sys \<Rightarrow> bool" where
  "push_inv s \<longleftrightarrow>
     (\<forall>t. t_in_pool s t \<longleftrightarrow> QN t \<in> set (chain s) \<or> ppc s t = PClear \<or> ppc s t = PExch) \<and>
     (\<forall>t. ppc s t = PClear \<or> ppc s t = PExch \<longrightarrow> QN t \<notin> set (chain s)) \<and>
     (\<forall>t. ppc s t = PExch \<longrightarrow> qn_next s (QN t) = None) \<and>
     (\<forall>t. ppc s t \<noteq> PIdle \<longrightarrow> t \<noteq> nullptr)"

definition pop_inv :: "ptr \<Rightarrow> mpsc_sys \<Rightarrow> bool" where
  "pop_inv p s \<longleftrightarrow>
     (case cons s of
        CIdle \<Rightarrow> True | CTop \<Rightarrow> True
      | CSkip h \<Rightarrow> h = hd (chain s) \<and> h \<noteq> Stub p
      | CCheck h next \<Rightarrow> h = hd (chain s) \<and> h \<noteq> Stub p \<and> (next \<noteq> None \<longrightarrow> qn_next s h = next)
      | CStubClear h \<Rightarrow> h = hd (chain s) \<and> Stub p \<notin> set (chain s)
      | CStubExch h \<Rightarrow> h = hd (chain s) \<and> Stub p \<notin> set (chain s) \<and> qn_next s (Stub p) = None
      | CStubLink h prev \<Rightarrow> h = hd (chain s) \<and> h \<noteq> Stub p
      | CReload h \<Rightarrow> h = hd (chain s) \<and> h \<noteq> Stub p
      | CTake h n \<Rightarrow> h = hd (chain s) \<and> h \<noteq> Stub p \<and> qn_next s h = Some n
      | CClear t \<Rightarrow> t \<noteq> nullptr)"

definition history_inv :: "ptr \<Rightarrow> mpsc_sys \<Rightarrow> bool" where
  "history_inv p s \<longleftrightarrow>
     pushed s = taken s @ unit_nodes p (chain s) \<and>
     subseq (returned s @ (case cons s of CClear t \<Rightarrow> [t] | _ \<Rightarrow> [])) (taken s)"

text \<open>
  The units the pool holds: those being pushed or linked and not removed.  A unit whose \<^verbatim>\<open>removed\<close>
  mark the consumer is about to clear may have been pushed again, and then it counts.
\<close>

definition held :: "mpsc_sys \<Rightarrow> ptr set" where
  "held s = {t. t_in_pool s t \<and> (t_removed s t \<longrightarrow> cons s = CClear t)}"

fun clearing :: "cpc \<Rightarrow> (ptr \<Rightarrow> bool) \<Rightarrow> int" where
  "clearing (CClear t) removed = (if removed t then 0 else 1)"
| "clearing _ removed = 0"

definition count_inv :: "ptr \<Rightarrow> mpsc_sys \<Rightarrow> bool" where
  "count_inv p s \<longleftrightarrow>
     finite (held s) \<and> finite {t. ppc s t \<noteq> PIdle} \<and>
     (\<forall>t. t_removed s t \<longrightarrow> t_in_pool s t \<or> cons s = CClear t) \<and>
     int (card (held s)) = p_count s p + int (uncounted s) + int (card {t. ppc s t \<noteq> PIdle}) -
       int (unsub s) - clearing (cons s) (t_removed s)"

definition mpsc_inv :: "ptr \<Rightarrow> mpsc_sys \<Rightarrow> bool" where
  "mpsc_inv p s \<longleftrightarrow> chain_inv p s \<and> push_inv s \<and> pop_inv p s \<and> history_inv p s \<and> count_inv p s"


subsection \<open>The chain\<close>

lemma owed_push:
  "cons s' = cons s \<Longrightarrow> ppc s' = (ppc s)(t := x) \<Longrightarrow>
   owed p s' = (owed p s)(QN t := (case x of PLink m \<Rightarrow> Some m | _ \<Rightarrow> None))"
  by (auto simp: owed_def fun_eq_iff split: ABTI_qnode.splits ppc.splits)

lemma owed_pop:
  "ppc s' = ppc s \<Longrightarrow>
   owed p s' = (owed p s)(Stub p := (case cons s' of CStubLink h m \<Rightarrow> Some m | _ \<Rightarrow> None))"
  by (auto simp: owed_def fun_eq_iff split: ABTI_qnode.splits ppc.splits)

lemma owed_same:
  "ppc s' = ppc s \<Longrightarrow> \<forall>h m. cons s' = CStubLink h m \<longleftrightarrow> cons s = CStubLink h m \<Longrightarrow> owed p s' = owed p s"
  by (auto simp: owed_def fun_eq_iff split: ABTI_qnode.splits ppc.splits cpc.splits)

lemma chain_ok_append:
  assumes "chain_ok p nx ow a b Q" "n \<notin> set Q" "nx n = None" "n = Stub p \<or> (\<exists>t. n = QN t \<and> t \<noteq> nullptr)"
  shows "chain_ok p nx (ow(n := Some b)) a n (Q @ [n])"
proof -
  have "n \<noteq> hd Q" using assms(1,2) by (auto simp: chain_ok_def)
  with assms links_snoc [of nx ow Q n] show ?thesis by (auto simp: chain_ok_def)
qed

lemma chain_ok_pay:
  assumes "chain_ok p nx ow a b Q" "ow m = Some n"
  shows "chain_ok p (nx(n := Some m)) (ow(m := None)) a b Q" "nx n = None" "n \<in> set Q"
proof -
  have Q: "Q \<noteq> []" "m \<in> set Q" "m \<noteq> hd Q" "links nx ow Q" "distinct Q"
    using assms by (auto simp: chain_ok_def)
  then have "m \<in> set (tl Q)" by (cases Q) auto
  from links_pay [OF Q(4,5) assms(2) this]
  show "chain_ok p (nx(n := Some m)) (ow(m := None)) a b Q" "n \<in> set Q"
    using assms(1) by (auto simp: chain_ok_def)
  show "nx n = None" using Q(4) \<open>m \<in> set (tl Q)\<close> assms(2)
    by (induction Q rule: induct_list012) auto
qed

lemma chain_ok_tl:
  assumes "chain_ok p nx ow a b Q" "nx a = Some n"
  shows "chain_ok p nx ow n b (tl Q)" "Q = a # n # tl (tl Q)"
proof -
  obtain R where Q: "Q = a # R" using assms(1) by (cases Q) (auto simp: chain_ok_def)
  with assms links_next [of nx ow a R n] obtain R' where R: "R = n # R'" by (auto simp: chain_ok_def)
  with Q show "Q = a # n # tl (tl Q)" by simp
  have "ow n = None" using assms Q R by (auto simp: chain_ok_def split: if_splits)
  moreover have "ow m = None" if "m \<notin> set R" for m
    using assms(1) Q that by (cases "m = a") (simp_all add: chain_ok_def)
  moreover have "links nx ow R" using assms(1) Q links_tl [of nx ow a R] by (simp add: chain_ok_def)
  ultimately show "chain_ok p nx ow n b (tl Q)" using assms(1) Q R by (simp add: chain_ok_def)
qed

lemma chain_ok_upd:
  "chain_ok p nx ow a b Q \<Longrightarrow> n \<notin> set Q \<Longrightarrow> chain_ok p (nx(n := x)) (ow(n := None)) a b Q"
  by (subst fun_upd_idem) (auto simp: chain_ok_def)

lemma chain_ok_not_owed:
  "chain_ok p nx ow a b Q \<Longrightarrow> n \<notin> set Q \<Longrightarrow> ow n = None"
  by (simp add: chain_ok_def)

lemma push_step_chain:
  assumes "chain_inv p s" "push_inv s"
  shows "chain_inv p (push_step p t s)"
proof (cases "ppc s t")
  case PIdle
  with assms show ?thesis by (simp add: push_step_def)
next
  case PClear
  have "owed p (push_step p t s) = (owed p s)(QN t := None)"
    using PClear by (subst owed_push [of _ s t PExch]) (simp_all add: push_step_def)
  moreover have "QN t \<notin> set (chain s)" using PClear assms(2) by (simp add: push_inv_def)
  ultimately show ?thesis using chain_ok_upd [OF assms(1)] PClear by (simp add: push_step_def)
next
  case PExch
  have "owed p (push_step p t s) = (owed p s)(QN t := Some (p_tail s p))"
    using PExch by (subst owed_push [of _ s t "PLink (p_tail s p)"]) (simp_all add: push_step_def)
  moreover have "QN t \<notin> set (chain s)" "qn_next s (QN t) = None" "t \<noteq> nullptr"
    using PExch assms(2) by (auto simp: push_inv_def)
  ultimately show ?thesis using chain_ok_append [OF assms(1)] PExch by (simp add: push_step_def)
next
  case (PLink m)
  have "owed p (push_step p t s) = (owed p s)(QN t := None)"
    using PLink by (subst owed_push [of _ s t PIdle]) (simp_all add: push_step_def)
  moreover have "owed p s (QN t) = Some m" using PLink by (simp add: owed_def)
  ultimately show ?thesis using chain_ok_pay(1) [OF assms(1)] PLink by (simp add: push_step_def)
qed

lemma pop_step_chain:
  assumes c: "chain_inv p s" and i: "pop_inv p s"
  shows "chain_inv p (pop_step p s)"
proof (cases "cons s")
  case CTop
  let ?s = "pop_step p s"
  have o: "owed p ?s = owed p s"
    by (rule owed_same) (use CTop in \<open>auto simp: pop_step_def Let_def split: option.split\<close>)
  show ?thesis
  proof (cases "p_head s p = Stub p \<and> qn_next s (p_head s p) \<noteq> None")
    case True
    then obtain n where "qn_next s (p_head s p) = Some n" by blast
    with chain_ok_tl(1) [OF c this] True CTop o show ?thesis by (simp add: pop_step_def Let_def)
  next
    case False
    with c CTop o show ?thesis by (auto simp: pop_step_def Let_def)
  qed
next
  case (CStubClear h)
  have "owed p (pop_step p s) = (owed p s)(Stub p := None)"
    using CStubClear by (subst owed_pop [of _ s]) (simp_all add: pop_step_def)
  moreover have "Stub p \<notin> set (chain s)" using i CStubClear by (simp add: pop_inv_def)
  ultimately show ?thesis using chain_ok_upd [OF c] CStubClear by (simp add: pop_step_def)
next
  case (CStubExch h)
  have "owed p (pop_step p s) = (owed p s)(Stub p := Some (p_tail s p))"
    using CStubExch by (subst owed_pop [of _ s]) (simp_all add: pop_step_def)
  moreover have "Stub p \<notin> set (chain s)" "qn_next s (Stub p) = None"
    using i CStubExch by (simp_all add: pop_inv_def)
  ultimately show ?thesis using chain_ok_append [OF c] CStubExch by (simp add: pop_step_def)
next
  case (CStubLink h m)
  have "owed p (pop_step p s) = (owed p s)(Stub p := None)"
    using CStubLink by (subst owed_pop [of _ s]) (simp_all add: pop_step_def)
  moreover have "owed p s (Stub p) = Some m" using CStubLink by (simp add: owed_def)
  ultimately show ?thesis using chain_ok_pay(1) [OF c] CStubLink by (simp add: pop_step_def)
next
  case (CTake h n)
  have "owed p (pop_step p s) = owed p s" using CTake by (intro owed_same) (auto simp: pop_step_def)
  moreover have "qn_next s (p_head s p) = Some n"
    using c i CTake by (auto simp: chain_ok_def pop_inv_def)
  ultimately show ?thesis using chain_ok_tl(1) [OF c, of n] CTake by (simp add: pop_step_def)
next
  case (CClear t)
  have "owed p (pop_step p s) = owed p s" using CClear by (intro owed_same) (auto simp: pop_step_def Let_def)
  with c CClear show ?thesis by (simp add: pop_step_def Let_def)
next
  case (CCheck h nx)
  have "owed p (pop_step p s) = owed p s"
    using CCheck by (intro owed_same) (auto simp: pop_step_def split: option.split)
  with c CCheck show ?thesis by (simp add: pop_step_def split: option.split)
next
  case (CReload h)
  have "owed p (pop_step p s) = owed p s"
    using CReload by (intro owed_same) (auto simp: pop_step_def split: option.split)
  with c CReload show ?thesis by (simp add: pop_step_def split: option.split)
next
  case (CSkip h)
  have "owed p (pop_step p s) = owed p s" using CSkip by (intro owed_same) (auto simp: pop_step_def)
  with c CSkip show ?thesis by (simp add: pop_step_def)
qed (use c in \<open>simp add: pop_step_def\<close>)



subsection \<open>The producers\<close>

lemma owed_in_chain: "chain_inv p s \<Longrightarrow> owed p s n \<noteq> None \<Longrightarrow> n \<in> set (chain s)"
  by (auto simp: chain_ok_def)

lemma ppc_PLink:
  assumes "chain_inv p s" "ppc s t = PLink m"
  shows "QN t \<in> set (chain s)" "m \<in> set (chain s)" "qn_next s m = None" "QN t \<noteq> hd (chain s)"
proof -
  have o: "owed p s (QN t) = Some m" using assms(2) by (simp add: owed_def)
  then show "QN t \<in> set (chain s)" using owed_in_chain [OF assms(1)] by simp
  show "m \<in> set (chain s)" "qn_next s m = None" using chain_ok_pay(2,3) [OF assms(1) o] by auto
  show "QN t \<noteq> hd (chain s)" using o assms(1) by (auto simp: chain_ok_def)
qed

lemma push_step_push:
  assumes c: "chain_inv p s" and i: "push_inv s"
  shows "push_inv (push_step p t s)"
proof (cases "ppc s t")
  case (PLink m)
  have "QN u \<noteq> m" if "ppc s u = PExch" for u
    using that i ppc_PLink(2) [OF c PLink] by (auto simp: push_inv_def)
  with i PLink ppc_PLink(1) [OF c PLink] show ?thesis
    by (auto simp: push_inv_def push_step_def)
qed (use i in \<open>auto simp: push_inv_def push_step_def\<close>)

lemma pop_inv_mono:
  assumes "pop_inv p s" "chain s \<noteq> []" "cons s' = cons s" "hd (chain s') = hd (chain s)"
    "Stub p \<in> set (chain s') \<Longrightarrow> Stub p \<in> set (chain s)"
    "\<And>n. qn_next s (hd (chain s)) = Some n \<Longrightarrow> qn_next s' (hd (chain s)) = Some n"
    "Stub p \<notin> set (chain s) \<Longrightarrow> qn_next s' (Stub p) = qn_next s (Stub p)"
  shows "pop_inv p s'"
proof (cases "cons s")
  case (CCheck h nx)
  with assms(1,3,4,6) show ?thesis by (cases nx) (auto simp: pop_inv_def)
qed (use assms in \<open>auto simp: pop_inv_def\<close>)

lemma pop_inv_cong:
  "cons s' = cons s \<Longrightarrow> chain s' = chain s \<Longrightarrow> qn_next s' = qn_next s \<Longrightarrow> pop_inv p s' = pop_inv p s"
  by (simp add: pop_inv_def cong: cpc.case_cong)

lemma push_step_pop:
  assumes c: "chain_inv p s" and "push_inv s" "pop_inv p s"
  shows "pop_inv p (push_step p t s)"
proof (rule pop_inv_mono [OF assms(3)])
  show Q: "chain s \<noteq> []" using c by (simp add: chain_ok_def)
  show "cons (push_step p t s) = cons s" by (simp add: push_step_def split: ppc.split)
  show "hd (chain (push_step p t s)) = hd (chain s)"
    using Q by (simp add: push_step_def split: ppc.split)
  show "Stub p \<in> set (chain (push_step p t s)) \<Longrightarrow> Stub p \<in> set (chain s)"
    by (simp add: push_step_def split: ppc.splits)
  show "qn_next (push_step p t s) (hd (chain s)) = Some n" if "qn_next s (hd (chain s)) = Some n" for n
  proof (cases "ppc s t")
    case PClear
    then have "QN t \<notin> set (chain s)" using assms(2) by (simp add: push_inv_def)
    then have "hd (chain s) \<noteq> QN t" using Q hd_in_set by metis
    with that PClear show ?thesis by (simp add: push_step_def)
  next
    case (PLink m)
    with ppc_PLink(3) [OF c PLink] that show ?thesis by (auto simp: push_step_def)
  qed (use that in \<open>auto simp: push_step_def\<close>)
  show "qn_next (push_step p t s) (Stub p) = qn_next s (Stub p)" if "Stub p \<notin> set (chain s)"
    using that ppc_PLink(2) [OF c] by (auto simp: push_step_def split: ppc.split)
qed

lemma push_step_history: "history_inv p s \<Longrightarrow> history_inv p (push_step p t s)"
  by (auto simp: history_inv_def push_step_def split: ppc.split)

lemma push_step_count:
  assumes c: "count_inv p s"
  shows "count_inv p (push_step p t s)"
proof -
  have h: "held (push_step p t s) = held s"
    by (auto simp: held_def push_step_def split: ppc.split)
  show ?thesis
  proof (cases "ppc s t")
    case (PLink m)
    let ?A = "{u. ppc s u \<noteq> PIdle}"
    have "{u. ppc (push_step p t s) u \<noteq> PIdle} = ?A - {t}" using PLink by (auto simp: push_step_def)
    moreover have "t \<in> ?A" "finite ?A" using PLink c by (auto simp: count_inv_def)
    then have "card (?A - {t}) = card ?A - 1" "card ?A > 0" "finite (?A - {t})"
      by (auto simp: card_gt_0_iff)
    ultimately show ?thesis using c PLink h by (auto simp: count_inv_def push_step_def)
  next
    case PClear
    then have "{u. ppc (push_step p t s) u \<noteq> PIdle} = {u. ppc s u \<noteq> PIdle}" by (auto simp: push_step_def)
    with c PClear h show ?thesis by (simp add: count_inv_def push_step_def)
  next
    case PExch
    then have "{u. ppc (push_step p t s) u \<noteq> PIdle} = {u. ppc s u \<noteq> PIdle}" by (auto simp: push_step_def)
    with c PExch h show ?thesis by (simp add: count_inv_def push_step_def)
  next
    case PIdle
    with c show ?thesis by (simp add: push_step_def)
  qed
qed

lemma push_start_ppc:
  assumes "chain_inv p s" "push_inv s" "\<not> t_in_pool s t"
  shows "ppc s t = PIdle" "QN t \<notin> set (chain s)"
proof -
  show Q: "QN t \<notin> set (chain s)" using assms(2,3) by (auto simp: push_inv_def)
  show "ppc s t = PIdle" using assms(2,3) Q ppc_PLink(1) [OF assms(1)]
    by (cases "ppc s t") (auto simp: push_inv_def)
qed

lemma push_start_inv:
  assumes i: "mpsc_inv p s" and t: "t \<noteq> nullptr" "\<not> t_in_pool s t"
  defines "s' \<equiv> s\<lparr>t_in_pool := (t_in_pool s)(t := True), ppc := (ppc s)(t := PClear)\<rparr>"
  shows "mpsc_inv p s'"
proof -
  have pc: "ppc s t = PIdle" "QN t \<notin> set (chain s)"
    using push_start_ppc i t(2) by (auto simp: mpsc_inv_def)
  have "owed p s' = (owed p s)(QN t := None)"
    by (subst owed_push [of _ s t PClear]) (simp_all add: s'_def)
  then have "owed p s' = owed p s" using pc(2) i by (auto simp: mpsc_inv_def chain_ok_def fun_eq_iff)
  moreover have "push_inv s'" using i t pc by (auto simp: mpsc_inv_def push_inv_def s'_def)
  moreover have "held s' = insert t (held s)" "t \<notin> held s"
    using i t by (auto simp: held_def s'_def mpsc_inv_def count_inv_def)
  moreover have "{u. ppc s' u \<noteq> PIdle} = insert t {u. ppc s u \<noteq> PIdle}" using pc by (auto simp: s'_def)
  moreover have "pop_inv p s'" using i pop_inv_cong [of s' s p] by (simp add: mpsc_inv_def s'_def)
  moreover have "history_inv p s'" using i by (simp add: mpsc_inv_def history_inv_def s'_def)
  moreover have "cons s' = cons s" "t_removed s' = t_removed s" "uncounted s' = uncounted s"
    "unsub s' = unsub s" "p_count s' = p_count s" "\<And>u. t_in_pool s u \<Longrightarrow> t_in_pool s' u"
    by (simp_all add: s'_def)
  ultimately show ?thesis using i pc(1) by (auto simp: mpsc_inv_def count_inv_def s'_def)
qed



subsection \<open>The consumer\<close>

lemma chain_hd_unit:
  assumes "chain_inv p s" "h = hd (chain s)" "h \<noteq> Stub p"
  obtains t where "h = QN t" "t \<noteq> nullptr" "chain s = QN t # tl (chain s)" "QN t \<notin> set (tl (chain s))"
  using assms by (cases "chain s") (auto simp: chain_ok_def)

lemma chain_hd_stub:
  assumes "chain_inv p s" "p_head s p = Stub p"
  shows "chain s = Stub p # tl (chain s)" "Stub p \<notin> set (tl (chain s))"
  using assms by (cases "chain s"; auto simp: chain_ok_def)+

lemma pop_step_push:
  assumes c: "chain_inv p s" and i: "push_inv s" and j: "pop_inv p s"
  shows "push_inv (pop_step p s)"
proof (cases "cons s")
  case CTop
  show ?thesis
  proof (cases "p_head s p = Stub p")
    case True
    have "QN t \<in> set (tl (chain s)) \<longleftrightarrow> QN t \<in> set (chain s)" for t
      using chain_hd_stub(1) [OF c True] by (metis ABTI_qnode.distinct(1) set_ConsD list.set_intros(2))
    with i CTop True show ?thesis
      by (auto simp: push_inv_def pop_step_def Let_def split: option.split)
  qed (use i CTop in \<open>simp add: push_inv_def pop_step_def Let_def\<close>)
next
  case (CStubLink h m)
  then have "owed p s (Stub p) = Some m" by (simp add: owed_def)
  then have "m \<in> set (chain s)" using chain_ok_pay(3) [OF c] by blast
  with i CStubLink show ?thesis by (auto simp: push_inv_def pop_step_def)
next
  case (CTake h n)
  with j have "h = hd (chain s)" "h \<noteq> Stub p" by (auto simp: pop_inv_def)
  then obtain t where t: "h = QN t" "chain s = QN t # tl (chain s)" "QN t \<notin> set (tl (chain s))"
    using chain_hd_unit [OF c] by metis
  then have m: "QN u \<in> set (tl (chain s)) \<longleftrightarrow> QN u \<in> set (chain s) \<and> u \<noteq> t" for u
    by (metis ABTI_qnode.inject(2) set_ConsD list.set_intros(2))
  have "QN t \<in> set (chain s)" using t(2) by (metis list.set_intros(1))
  with i CTake t m show ?thesis by (auto simp: push_inv_def pop_step_def)
qed (use i in \<open>auto simp: push_inv_def pop_step_def Let_def split: option.split\<close>)

lemma pop_step_pop:
  assumes c: "chain_inv p s" and j: "pop_inv p s"
  shows "pop_inv p (pop_step p s)"
proof (cases "cons s")
  case CTop
  have hd: "p_head s p = hd (chain s)" using c by (simp add: chain_ok_def)
  show ?thesis
  proof (cases "p_head s p = Stub p \<and> qn_next s (p_head s p) \<noteq> None")
    case True
    then obtain n where n: "qn_next s (p_head s p) = Some n" by blast
    have "hd (tl (chain s)) = n" "n \<in> set (tl (chain s))"
      using chain_ok_tl(2) [OF c n] by (metis list.sel(1,3), metis list.sel(3) list.set_intros(1))
    moreover have "n \<noteq> Stub p" using chain_hd_stub(2) [OF c] True \<open>n \<in> _\<close> by auto
    ultimately show ?thesis using True CTop n by (simp add: pop_inv_def pop_step_def Let_def)
  next
    case False
    with CTop hd show ?thesis by (auto simp: pop_inv_def pop_step_def Let_def)
  qed
next
  case (CCheck h nx)
  show ?thesis
  proof (cases nx)
    case (Some n)
    with CCheck j show ?thesis by (auto simp: pop_inv_def pop_step_def)
  next
    case None
    have "Stub p \<notin> set (chain s)" if "h = p_tail s p"
    proof -
      have "hd (chain s) = last (chain s)" "distinct (chain s)" "chain s \<noteq> []" "h = hd (chain s)" "h \<noteq> Stub p"
        using that c j CCheck by (auto simp: chain_ok_def pop_inv_def)
      then show ?thesis by (cases "chain s") (auto split: if_splits)
    qed
    with None CCheck j show ?thesis by (auto simp: pop_inv_def pop_step_def)
  qed
next
  case (CTake h n)
  with j have "h = hd (chain s)" "h \<noteq> Stub p" by (auto simp: pop_inv_def)
  with CTake show ?thesis using chain_hd_unit [OF c] by (fastforce simp: pop_inv_def pop_step_def)
next
  case (CStubExch h)
  have "chain s \<noteq> []" using c by (simp add: chain_ok_def)
  then have "hd (chain s) \<in> set (chain s)" by simp
  then have "hd (chain s) \<noteq> Stub p" using j CStubExch by (auto simp: pop_inv_def)
  with CStubExch j \<open>chain s \<noteq> []\<close> show ?thesis by (simp add: pop_inv_def pop_step_def)
qed (use j in \<open>auto simp: pop_inv_def pop_step_def Let_def split: option.split\<close>)

lemma pop_step_history:
  assumes c: "chain_inv p s" and j: "pop_inv p s" and h: "history_inv p s"
  shows "history_inv p (pop_step p s)"
proof (cases "cons s")
  case CTop
  have "unit_nodes p (tl (chain s)) = unit_nodes p (chain s)" if "p_head s p = Stub p"
    using chain_hd_stub(1) [OF c that] by (metis (mono_tags, lifting) filter.simps(2))
  with h CTop show ?thesis by (auto simp: history_inv_def pop_step_def Let_def split: option.split)
next
  case (CTake h n)
  with j have "h = hd (chain s)" "h \<noteq> Stub p" by (auto simp: pop_inv_def)
  then obtain t where t: "h = QN t" "chain s = QN t # tl (chain s)" using chain_hd_unit [OF c] by metis
  then have "unit_nodes p (chain s) = t # unit_nodes p (tl (chain s))"
    by (metis (mono_tags, lifting) ABTI_qnode.distinct(1) filter.simps(2) list.simps(9) qn_owner.simps(2))
  with h CTake t(1) show ?thesis by (simp add: history_inv_def pop_step_def list_emb_append_mono)
next
  case (CClear t)
  with h have "subseq (returned s @ [t]) (taken s)" by (simp add: history_inv_def)
  moreover from this have "subseq (returned s) (taken s)"
    by (meson subseq_order.trans subseq_rev_drop_many subseq_order.refl list_emb_prefix)
  ultimately show ?thesis using h CClear by (simp add: history_inv_def pop_step_def Let_def)
qed (use h in \<open>auto simp: history_inv_def pop_step_def Let_def split: option.split\<close>)

lemma pop_step_count:
  assumes c: "chain_inv p s" and i: "push_inv s" and j: "pop_inv p s" and k: "count_inv p s"
  shows "count_inv p (pop_step p s)"
proof (cases "cons s")
  case (CTake h n)
  with j have "h = hd (chain s)" "h \<noteq> Stub p" by (auto simp: pop_inv_def)
  then obtain t where t: "h = QN t" "chain s = QN t # tl (chain s)" using chain_hd_unit [OF c] by metis
  then have "QN t \<in> set (chain s)" by (metis list.set_intros(1))
  with i have m: "t_in_pool s t" by (auto simp: push_inv_def)
  have h: "held (pop_step p s) = held s - {t}" using CTake t(1) by (auto simp: held_def pop_step_def)
  have fin: "finite (held s)" using k by (simp add: count_inv_def)
  show ?thesis
  proof (cases "t_removed s t")
    case True
    then have "held s - {t} = held s" using CTake by (auto simp: held_def)
    then show ?thesis using True k h CTake t(1) by (auto simp: count_inv_def pop_step_def)
  next
    case False
    then have "t \<in> held s" using m by (simp add: held_def)
    with fin have "int (card (held s - {t})) = int (card (held s)) - 1" by (rule card_remove_int)
    then show ?thesis using False k h CTake t(1) by (auto simp: count_inv_def pop_step_def)
  qed
next
  case (CClear t)
  have "held (pop_step p s) = held s" using CClear by (auto simp: held_def pop_step_def Let_def)
  then show ?thesis using k CClear by (auto simp: count_inv_def pop_step_def Let_def)
next
  case CTop
  have "held (pop_step p s) = held s"
    using CTop by (auto simp: held_def pop_step_def Let_def split: option.split)
  then show ?thesis using k CTop by (auto simp: count_inv_def pop_step_def Let_def split: option.split)
qed (use k in \<open>auto simp: count_inv_def held_def pop_step_def split: option.split\<close>)

lemma mpsc_inv_init: "mpsc_init p s \<Longrightarrow> mpsc_inv p s"
  by (auto simp: mpsc_init_def mpsc_inv_def chain_ok_def push_inv_def pop_inv_def history_inv_def
      count_inv_def held_def owed_def split: ABTI_qnode.splits)

lemma mpsc_inv_counters:
  assumes i: "mpsc_inv p s" and s': "s' = count_add p d (s\<lparr>uncounted := a, unsub := b\<rparr>)"
    and eq: "d + int a - int b = int (uncounted s) - int (unsub s)"
  shows "mpsc_inv p s'"
proof -
  have f: "qn_next s' = qn_next s" "p_head s' = p_head s" "p_tail s' = p_tail s" "chain s' = chain s"
    "ppc s' = ppc s" "cons s' = cons s" "t_in_pool s' = t_in_pool s" "t_removed s' = t_removed s"
    "pushed s' = pushed s" "taken s' = taken s" "returned s' = returned s"
    "uncounted s' = a" "unsub s' = b" "p_count s' p = p_count s p + d"
    by (simp_all add: s' count_add_def)
  have "owed p s' = owed p s" by (rule owed_same) (simp_all add: f)
  moreover have "pop_inv p s' = pop_inv p s" by (rule pop_inv_cong) (simp_all add: f)
  moreover have "push_inv s' = push_inv s" "history_inv p s' = history_inv p s"
    by (simp_all add: push_inv_def history_inv_def f)
  moreover have "held s' = held s" by (simp add: held_def f)
  then have "count_inv p s'" using i eq by (simp add: mpsc_inv_def count_inv_def f)
  ultimately show ?thesis using i by (simp add: mpsc_inv_def f)
qed

lemma mpsc_inv_step:
  assumes i: "mpsc_inv p s" and "mpsc_step p s s'"
  shows "mpsc_inv p s'"
  using assms(2)
proof cases
  case (push_start t)
  with i show ?thesis by (simp add: push_start_inv)
next
  case (push t)
  with i show ?thesis
    by (simp add: mpsc_inv_def push_step_chain push_step_push push_step_pop push_step_history push_step_count)
next
  case pop
  with i show ?thesis
    by (simp add: mpsc_inv_def pop_step_chain pop_step_push pop_step_pop pop_step_history pop_step_count)
next
  case count_inc
  then show ?thesis by (intro mpsc_inv_counters [OF i, where d = 1 and a = "uncounted s - 1" and b = "unsub s"]) auto
next
  case count_dec
  then show ?thesis by (intro mpsc_inv_counters [OF i, where d = "-1" and a = "uncounted s" and b = "unsub s - 1"]) auto
next
  case pop_start
  then have "owed p s' = owed p s" "held s' = held s" by (auto intro!: owed_same simp: held_def)
  with i pop_start show ?thesis
    by (auto simp: mpsc_inv_def push_inv_def pop_inv_def history_inv_def count_inv_def)
next
  case (remove t)
  then have o: "owed p s' = owed p s" "held s' = held s - {t}" "t \<in> held s"
    by (auto intro!: owed_same simp: held_def)
  have "finite (held s)" using i by (simp add: mpsc_inv_def count_inv_def)
  from this o(3) have "int (card (held s - {t})) = int (card (held s)) - 1" by (rule card_remove_int)
  with i remove o show ?thesis
    by (auto simp: mpsc_inv_def push_inv_def pop_inv_def history_inv_def count_inv_def)
qed

interpretation mpsc_system: transition_system "mpsc_init p" "mpsc_step p" "mpsc_inv p"
  by unfold_locales (auto intro: mpsc_inv_init mpsc_inv_step)



subsection \<open>Executing a schedule\<close>

text \<open>A schedule is a list of actions; executing one that is enabled is a step of the system.\<close>

datatype mpsc_action = PushStart ptr | Push ptr | CountInc | PopStart | Pop | CountDec | Remove ptr

fun mpsc_act :: "ptr \<Rightarrow> mpsc_action \<Rightarrow> mpsc_sys \<Rightarrow> mpsc_sys option" where
  "mpsc_act p (PushStart t) s = (if t \<noteq> nullptr \<and> \<not> t_in_pool s t
     then Some (s\<lparr>t_in_pool := (t_in_pool s)(t := True), ppc := (ppc s)(t := PClear)\<rparr>) else None)"
| "mpsc_act p (Push t) s = (if ppc s t \<noteq> PIdle then Some (push_step p t s) else None)"
| "mpsc_act p CountInc s =
     (if uncounted s > 0 then Some (count_add p 1 (s\<lparr>uncounted := uncounted s - 1\<rparr>)) else None)"
| "mpsc_act p PopStart s = (if cons s = CIdle then Some (s\<lparr>cons := CTop\<rparr>) else None)"
| "mpsc_act p Pop s = (if cons s \<noteq> CIdle then Some (pop_step p s) else None)"
| "mpsc_act p CountDec s =
     (if unsub s > 0 then Some (count_add p (-1) (s\<lparr>unsub := unsub s - 1\<rparr>)) else None)"
| "mpsc_act p (Remove t) s = (if cons s = CIdle \<and> t_in_pool s t \<and> \<not> t_removed s t
     then Some (s\<lparr>t_removed := (t_removed s)(t := True), unsub := unsub s + 1\<rparr>) else None)"

fun mpsc_exec :: "ptr \<Rightarrow> mpsc_action list \<Rightarrow> mpsc_sys \<Rightarrow> mpsc_sys option" where
  "mpsc_exec p [] s = Some s"
| "mpsc_exec p (a # as) s = Option.bind (mpsc_act p a s) (mpsc_exec p as)"

lemma mpsc_act_step: "mpsc_act p a s = Some s' \<Longrightarrow> mpsc_step p s s'"
  by (cases a) (auto split: if_splits intro: mpsc_step.intros [simplified])

lemma mpsc_exec_reach:
  "reach (mpsc_init p) (mpsc_step p) s \<Longrightarrow> mpsc_exec p as s = Some s' \<Longrightarrow>
   reach (mpsc_init p) (mpsc_step p) s'"
proof (induction as arbitrary: s)
  case (Cons a as)
  from Cons.prems(2) obtain s1 where s1: "mpsc_act p a s = Some s1" "mpsc_exec p as s1 = Some s'"
    by (auto simp: bind_eq_Some_conv)
  from reach_step [OF Cons.prems(1) mpsc_act_step [OF s1(1)]] show ?case by (rule Cons.IH) (rule s1(2))
qed simp

definition mpsc_start :: "ptr \<Rightarrow> mpsc_sys" where
  "mpsc_start p =
     \<lparr>qn_next = (\<lambda>_. None), t_lprev = (\<lambda>_. nullptr), t_lnext = (\<lambda>_. nullptr), t_in_pool = (\<lambda>_. False),
      t_removed = (\<lambda>_. False), p_tail = (\<lambda>_. Stub p), p_head = (\<lambda>_. Stub p), p_lhead = (\<lambda>_. nullptr),
      p_ltail = (\<lambda>_. nullptr), p_count = (\<lambda>_. 0), ppc = (\<lambda>_. PIdle), cons = CIdle, uncounted = 0,
      unsub = 0, chain = [Stub p], pushed = [], taken = [], returned = []\<rparr>"

lemma mpsc_start_reach: "reach (mpsc_init p) (mpsc_step p) (mpsc_start p)"
  by (rule reach_init) (simp add: mpsc_init_def mpsc_start_def)

lemmas mpsc_exec_start = mpsc_exec_reach [OF mpsc_start_reach]


subsection \<open>What the queue guarantees\<close>

text \<open>
  C1. First in, first out under any interleaving: at every moment the units the consumer has detached
  are an initial part of the units in the order their pushes took effect (the exchange of the tail),
  what is left is exactly the chain from head to tail, and what \<^verbatim>\<open>pop\<close> has returned is a subsequence
  of what was detached, so no unit is lost, invented, duplicated or overtaken.
\<close>

theorem mpsc_fifo:
  assumes "reach (mpsc_init p) (mpsc_step p) s"
  shows "pushed s = taken s @ unit_nodes p (chain s) \<and> subseq (returned s) (taken s)"
proof -
  have "subseq (returned s @ ys) (taken s) \<Longrightarrow> subseq (returned s) (taken s)" for ys
    by (meson subseq_order.trans subseq_rev_drop_many subseq_order.refl list_emb_prefix)
  with mpsc_system.reach_inv [OF assms] show ?thesis by (auto simp: mpsc_inv_def history_inv_def)
qed

text \<open>The schedule in which two pushes overlap, the second linking first, and two pops follow.\<close>

theorem mpsc_fifo_witness:
  "\<exists>s. mpsc_exec 9 ([PushStart 1, PushStart 2, Push 1, Push 2, Push 1, Push 2, Push 2, Push 1,
        PopStart] @ replicate 5 Pop @ [PopStart] @ replicate 8 Pop) (mpsc_start 9) = Some s \<and>
     pushed s = taken s @ unit_nodes 9 (chain s) \<and> subseq (returned s) (taken s) \<and>
     pushed s = [1, 2] \<and> returned s = [1, 2]"
proof -
  let ?as = "[PushStart 1, PushStart 2, Push 1, Push 2, Push 1, Push 2, Push 2, Push 1,
        PopStart] @ replicate 5 Pop @ [PopStart] @ replicate 8 Pop"
  obtain s where s: "mpsc_exec 9 ?as (mpsc_start 9) = Some s" "pushed s = [1, 2]" "returned s = [1, 2]"
    by (simp add: mpsc_start_def push_step_def pop_step_def Let_def numeral_eq_Suc)
  from mpsc_fifo [OF mpsc_exec_start [OF s(1)]] s show ?thesis by blast
qed

text \<open>
  C27. A producer about to store \<^verbatim>\<open>prev->next\<close> writes a node that is still linked: the consumer has
  not detached it (it stops at a node whose link is missing), so the unit it belongs to has not been
  returned and cannot have been freed, and no link is there to be overwritten.
\<close>

theorem mpsc_link_target_live:
  assumes "reach (mpsc_init p) (mpsc_step p) s" "ppc s t = PLink m"
  shows "m \<in> set (chain s) \<and> qn_next s m = None \<and> (\<forall>h n. cons s = CTake h n \<longrightarrow> m \<noteq> h)"
proof -
  have i: "mpsc_inv p s" by (rule mpsc_system.reach_inv [OF assms(1)])
  then have "m \<in> set (chain s)" "qn_next s m = None" using assms(2) ppc_PLink by (auto simp: mpsc_inv_def)
  moreover have "qn_next s h = Some n" if "cons s = CTake h n" for h n
    using i that by (auto simp: mpsc_inv_def pop_inv_def)
  ultimately show ?thesis by (metis option.distinct(1))
qed

theorem mpsc_link_target_live_witness:
  "\<exists>s. mpsc_exec 9 [PushStart 1, PushStart 2, Push 1, Push 2, Push 1, Push 2] (mpsc_start 9) = Some s \<and>
     ppc s 2 = PLink (QN 1) \<and> QN 1 \<in> set (chain s) \<and> qn_next s (QN 1) = None"
proof -
  obtain s where s: "mpsc_exec 9 [PushStart 1, PushStart 2, Push 1, Push 2, Push 1, Push 2] (mpsc_start 9) = Some s"
    "ppc s 2 = PLink (QN 1)" by (simp add: mpsc_start_def push_step_def)
  from mpsc_link_target_live [OF mpsc_exec_start [OF s(1)] s(2)] s show ?thesis by blast
qed

text \<open>The system at rest: no operation is in progress.\<close>

definition mpsc_at_rest :: "mpsc_sys \<Rightarrow> bool" where
  "mpsc_at_rest s \<longleftrightarrow> (\<forall>t. ppc s t = PIdle) \<and> cons s = CIdle \<and> uncounted s = 0 \<and> unsub s = 0"

lemma mpsc_at_rest_chain:
  assumes i: "mpsc_inv p s" and r: "mpsc_at_rest s"
  shows "mpsc_chain s p (chain s)"
proof -
  have "owed p s = (\<lambda>_. None)"
    using r by (auto simp: owed_def mpsc_at_rest_def fun_eq_iff split: ABTI_qnode.splits)
  moreover have "\<forall>t. QN t \<in> set (chain s) \<longrightarrow> t_in_pool s t" using i by (auto simp: mpsc_inv_def push_inv_def)
  ultimately show ?thesis using i by (fastforce simp: mpsc_inv_def chain_ok_def mpsc_chain_def)
qed

lemma mpsc_rest_count:
  assumes i: "mpsc_inv p s" and r: "mpsc_at_rest s"
  shows "p_count s p = int (length (filter (\<lambda>t. \<not> t_removed s t) (unit_nodes p (chain s))))"
proof -
  let ?xs = "filter (\<lambda>t. \<not> t_removed s t) (unit_nodes p (chain s))"
  have c: "mpsc_chain s p (chain s)" by (rule mpsc_at_rest_chain [OF i assms(2)])
  have "t_in_pool s t \<longleftrightarrow> QN t \<in> set (chain s)" for t
    using i assms(2) by (auto simp: mpsc_inv_def push_inv_def mpsc_at_rest_def)
  then have "held s = set ?xs" using mpsc_chain_units [OF c] assms(2)
    by (auto simp: held_def mpsc_at_rest_def simp del: set_map)
  moreover have "mpsc s p (unit_nodes p (chain s))" using c by (auto simp: mpsc_def)
  then have "distinct ?xs" using mpsc_distinct by (metis distinct_filter)
  ultimately have "card (held s) = length ?xs" by (metis distinct_card)
  then show ?thesis using i assms(2) by (simp add: mpsc_inv_def count_inv_def mpsc_at_rest_def)
qed

text \<open>
  The counter is exact at rest: \<^verbatim>\<open>count\<close> is the number of queued units that have not been
  removed, although increments and decrements trail the operations they belong to.
\<close>

lemma mpsc_count_exact:
  assumes "reach (mpsc_init p) (mpsc_step p) s" "mpsc_at_rest s"
  shows "p_count s p = int (length (filter (\<lambda>t. \<not> t_removed s t) (unit_nodes p (chain s))))"
  by (rule mpsc_rest_count [OF mpsc_system.reach_inv [OF assms(1)] assms(2)])

text \<open>
  The steps of one round of the consumer's loop, run without interference: until the loop goes round
  again or the pop returns.  A round has at most nine steps.
\<close>

fun pop_round :: "ptr \<Rightarrow> nat \<Rightarrow> mpsc_sys \<Rightarrow> mpsc_sys" where
  "pop_round p 0 s = s"
| "pop_round p (Suc n) s =
     (let s' = pop_step p s
      in if cons s' = CIdle \<or> cons s' = CTop then s' else pop_round p n s')"

text \<open>What a round has to end with, for an outcome of the sequential loop body.\<close>

definition round_ends :: "mpsc_sys + ptr \<times> mpsc_sys \<Rightarrow> ptr list \<Rightarrow> mpsc_sys \<Rightarrow> bool" where
  "round_ends r ret s' \<longleftrightarrow>
     (case r of
        Inl h \<Rightarrow> queue_heap.truncate s' = queue_heap.truncate h \<and> cons s' = CTop \<and> returned s' = ret
      | Inr (t, h) \<Rightarrow> queue_heap.truncate s' = queue_heap.truncate h \<and> cons s' = CIdle \<and>
          returned s' = (if t = nullptr then ret else ret @ [t]))"

lemma round_take:
  assumes "cons s = CTake (QN t) n" "t \<noteq> nullptr" "queue_heap.truncate s = queue_heap.truncate h"
  shows "round_ends (mpsc_take p (QN t) n h) (returned s) (pop_round p (Suc (Suc k)) s)"
  using assms
  by (auto simp: mpsc_take_def pop_step_def round_ends_def Let_def queue_heap.truncate_def)

lemma round_check:
  assumes "cons s = CCheck (QN t) nx" "t \<noteq> nullptr" "queue_heap.truncate s = queue_heap.truncate h"
  shows "round_ends (mpsc_detach p (QN t) nx h) (returned s) (pop_round p (Suc (Suc (Suc (Suc (Suc (Suc (Suc k))))))) s)"
proof (cases nx)
  case (Some n)
  let ?s = "s\<lparr>cons := CTake (QN t) n\<rparr>"
  have "round_ends (mpsc_take p (QN t) n h) (returned ?s) (pop_round p (Suc (Suc (Suc (Suc (Suc (Suc k)))))) ?s)"
    using assms by (intro round_take) (simp_all add: queue_heap.truncate_def)
  with Some assms show ?thesis by (simp add: mpsc_detach_def pop_step_def)
next
  case None
  show ?thesis
  proof (cases "p_tail s p = QN t")
    case False
    with None assms show ?thesis
      by (auto simp: mpsc_detach_def pop_step_def round_ends_def queue_heap.truncate_def)
  next
    case True
    let ?h = "h\<lparr>p_tail := (p_tail h)(p := Stub p), qn_next := (qn_next h)(Stub p := None, QN t := Some (Stub p))\<rparr>"
    let ?s = "s\<lparr>p_tail := (p_tail s)(p := Stub p), qn_next := (qn_next s)(Stub p := None, QN t := Some (Stub p)),
      chain := chain s @ [Stub p], cons := CTake (QN t) (Stub p)\<rparr>"
    have t: "p_tail h p = QN t" using True assms(3) by (simp add: queue_heap.truncate_def)
    have "round_ends (mpsc_take p (QN t) (Stub p) ?h) (returned ?s) (pop_round p (Suc (Suc k)) ?s)"
      using assms by (intro round_take) (simp_all add: queue_heap.truncate_def)
    moreover have "mpsc_detach p (QN t) None h = mpsc_take p (QN t) (Stub p) ?h"
      using t by (simp add: mpsc_detach_def Let_def)
    moreover have "pop_round p (Suc (Suc (Suc (Suc (Suc (Suc (Suc k))))))) s = pop_round p (Suc (Suc k)) ?s"
      using True None assms(1) by (simp add: pop_step_def Let_def del: pop_round.simps(2) add: pop_round.simps(2) [of p "Suc _"])
    ultimately show ?thesis using None by simp
  qed
qed

text \<open>
  The steps are the code: from any reachable state a round of the consumer run alone, step by
  step, ends within nine steps with exactly the heap, the outcome (go round again, or return) and the
  unit that the sequential body of \<^verbatim>\<open>pop_mpsc\<close>'s loop computes.
\<close>

lemma pop_round_iter:
  assumes "reach (mpsc_init p) (mpsc_step p) s" "cons s = CTop"
  shows "round_ends (pop_mpsc_iter p s) (returned s) (pop_round p 9 s)"
proof -
  have c: "chain_inv p s" using mpsc_system.reach_inv [OF assms(1)] by (simp add: mpsc_inv_def)
  have nine: "(9::nat) = Suc (Suc (Suc (Suc (Suc (Suc (Suc (Suc (Suc 0))))))))" by simp
  show ?thesis
  proof (cases "p_head s p = Stub p")
    case False
    moreover have "p_head s p = hd (chain s)" using c by (simp add: chain_ok_def)
    ultimately obtain t where t: "p_head s p = QN t" "t \<noteq> nullptr" using chain_hd_unit [OF c] by metis
    let ?s = "s\<lparr>cons := CCheck (QN t) (qn_next s (QN t))\<rparr>"
    have "round_ends (mpsc_detach p (QN t) (qn_next s (QN t)) s) (returned ?s)
        (pop_round p (Suc (Suc (Suc (Suc (Suc (Suc (Suc (Suc 0)))))))) ?s)"
      using t(2) by (intro round_check) (simp_all add: queue_heap.truncate_def)
    moreover have "pop_round p 9 s = pop_round p (Suc (Suc (Suc (Suc (Suc (Suc (Suc (Suc 0)))))))) ?s"
      unfolding nine pop_round.simps(2) [of p _ s] using t assms(2) by (simp add: pop_step_def Let_def del: pop_round.simps)
    ultimately show ?thesis using t by (simp add: pop_mpsc_iter_def Let_def del: pop_round.simps)
  next
    case True
    show ?thesis
    proof (cases "qn_next s (Stub p)")
      case None
      then show ?thesis using True assms(2) unfolding nine
        by (simp add: pop_mpsc_iter_def pop_step_def round_ends_def queue_heap.truncate_def)
    next
      case (Some n)
      then have Q: "chain s = Stub p # n # tl (tl (chain s))" using chain_ok_tl(2) [OF c, of n] True by simp
      then have "n \<in> set (chain s)" "n \<noteq> Stub p"
        using chain_hd_stub(2) [OF c True] by (metis list.set_intros, metis list.sel(3) list.set_intros(1))
      then obtain t where t: "n = QN t" "t \<noteq> nullptr" using c by (auto simp: chain_ok_def)
      let ?h = "s\<lparr>p_head := (p_head s)(p := QN t)\<rparr>"
      let ?s = "?h\<lparr>chain := tl (chain s), cons := CCheck (QN t) (qn_next s (QN t))\<rparr>"
      have "round_ends (mpsc_detach p (QN t) (qn_next s (QN t)) ?h) (returned ?s)
          (pop_round p (Suc (Suc (Suc (Suc (Suc (Suc (Suc 0))))))) ?s)"
        using t(2) by (intro round_check) (simp_all add: queue_heap.truncate_def)
      moreover have "pop_round p 9 s = pop_round p (Suc (Suc (Suc (Suc (Suc (Suc (Suc 0))))))) ?s"
        unfolding nine pop_round.simps(2) [of p _ s] using t Some True assms(2)
        by (simp add: pop_step_def Let_def pop_round.simps(2) [of p "Suc (Suc (Suc (Suc (Suc (Suc (Suc 0))))))"] del: pop_round.simps)
      ultimately show ?thesis using t Some True by (simp add: pop_mpsc_iter_def Let_def del: pop_round.simps)
    qed
  qed
qed

text \<open>Two units, the first of them removed: the loop goes round again.\<close>

text \<open>
  C28. Nothing is left behind: at rest, a pop of a pool that holds units returns the oldest one that
  has not been removed, and reports empty only when there is none (for a unit this PE may run).
\<close>

theorem mpsc_pop_complete:
  assumes "reach (mpsc_init p) (mpsc_step p) s" "mpsc_at_rest s"
    and "xs = filter (\<lambda>t. \<not> t_removed s t) (unit_nodes p (chain s))"
    and "\<forall>t\<in>set xs. \<not> pinned t"
  shows "\<exists>s'. pop_mpsc repush pinned p s = Some (if xs = [] then nullptr else hd xs, s') \<and>
    builtin_size p s = length xs"
proof -
  let ?ys = "unit_nodes p (chain s)" and ?zs = "dropWhile (t_removed s) (unit_nodes p (chain s))"
  have i: "mpsc_inv p s" by (rule mpsc_system.reach_inv [OF assms(1)])
  have m: "mpsc s p ?ys" using mpsc_at_rest_chain [OF i assms(2)] by (auto simp: mpsc_def)
  have "filter (\<lambda>t. \<not> P t) ys = [] \<longleftrightarrow> dropWhile P ys = []" for P :: "ptr \<Rightarrow> bool" and ys
    by (auto simp: filter_empty_conv)
  moreover have "filter (\<lambda>t. \<not> P t) ys \<noteq> [] \<Longrightarrow> hd (filter (\<lambda>t. \<not> P t) ys) = hd (dropWhile P ys)"
    for P :: "ptr \<Rightarrow> bool" and ys by (induction ys) auto
  ultimately have e: "xs = [] \<longleftrightarrow> ?zs = []" "xs \<noteq> [] \<Longrightarrow> hd xs = hd ?zs" unfolding assms(3) by blast+
  have "\<exists>s'. pop_mpsc repush pinned p s = Some (if ?zs = [] then nullptr else hd ?zs, s')"
    using pop_mpsc_mpsc [OF m refl, of pinned repush] e assms(4) by (metis hd_in_set)
  then have "\<exists>s'. pop_mpsc repush pinned p s = Some (if xs = [] then nullptr else hd xs, s')"
    using e by (cases "xs = []") (simp_all del: dropWhile_eq_Nil_conv)
  moreover have "p_count s p = int (length xs)" unfolding assms(3) by (rule mpsc_rest_count [OF i assms(2)])
  ultimately show ?thesis by (auto simp: builtin_size_def)
qed

theorem mpsc_pop_complete_witness:
  "\<exists>s s'. mpsc_exec 9 [PushStart 1, Push 1, Push 1, Push 1, PushStart 2, Push 2, Push 2, Push 2, CountInc,
         CountInc, Remove 1, CountDec] (mpsc_start 9) = Some s \<and>
     pop_mpsc (\<lambda>_ _. None) (\<lambda>_. False) 9 s = Some (2, s') \<and> builtin_size 9 s = 1"
proof -
  obtain s where s: "mpsc_exec 9 [PushStart 1, Push 1, Push 1, Push 1, PushStart 2, Push 2, Push 2, Push 2, CountInc,
      CountInc, Remove 1, CountDec] (mpsc_start 9) = Some s" "mpsc_at_rest s"
      "filter (\<lambda>t. \<not> t_removed s t) (unit_nodes 9 (chain s)) = [2]"
    by (simp add: mpsc_start_def push_step_def count_add_def mpsc_at_rest_def)
  from mpsc_pop_complete [OF mpsc_exec_start [OF s(1)] s(2) s(3) [symmetric], of "\<lambda>_. False" "\<lambda>_ _. None"] s
  show ?thesis by auto
qed

end
