(* ===== verification/Abt_Types.thy ===== *)
theory Abt_Types
  imports Abt_Prelude
begin

section \<open>The public enumerations and error codes\<close>

text \<open>
  The enumerations of \<^verbatim>\<open>src/include/abt.h\<close> as datatypes, with the integer every
  enumerator has in C where the code compares or decodes it: \<open>error_code\<close> are the values of
  the \<^verbatim>\<open>ABT_SUCCESS\<close> and \<^verbatim>\<open>ABT_ERR_*\<close> macros, \<open>abti_error_name\<close> is the
  \<^verbatim>\<open>switch\<close> of \<^verbatim>\<open>src/src/misc.cpp\<close> that \<^verbatim>\<open>ABT_error_get_str\<close> answers from.
  The access modes are ordered by their number, because \<^verbatim>\<open>ABTI_pool_create_builtin\<close>
  picks the queue by \<^verbatim>\<open>access <= ABT_POOL_ACCESS_MPSC\<close>.
\<close>

datatype (plugins only: code) ABT_error =
    ABT_SUCCESS
  | ABT_ERR_UNINITIALIZED
  | ABT_ERR_MEM
  | ABT_ERR_OTHER
  | ABT_ERR_INV_XSTREAM
  | ABT_ERR_INV_XSTREAM_RANK
  | ABT_ERR_INV_XSTREAM_BARRIER
  | ABT_ERR_INV_SCHED
  | ABT_ERR_INV_SCHED_KIND
  | ABT_ERR_INV_SCHED_PREDEF
  | ABT_ERR_INV_SCHED_TYPE
  | ABT_ERR_INV_SCHED_CONFIG
  | ABT_ERR_INV_POOL
  | ABT_ERR_INV_POOL_KIND
  | ABT_ERR_INV_POOL_ACCESS
  | ABT_ERR_INV_UNIT
  | ABT_ERR_INV_THREAD
  | ABT_ERR_INV_THREAD_ATTR
  | ABT_ERR_INV_TASK
  | ABT_ERR_INV_KEY
  | ABT_ERR_INV_MUTEX
  | ABT_ERR_INV_MUTEX_ATTR
  | ABT_ERR_INV_COND
  | ABT_ERR_INV_RWLOCK
  | ABT_ERR_INV_EVENTUAL
  | ABT_ERR_INV_FUTURE
  | ABT_ERR_INV_BARRIER
  | ABT_ERR_INV_TIMER
  | ABT_ERR_INV_QUERY_KIND
  | ABT_ERR_XSTREAM
  | ABT_ERR_XSTREAM_STATE
  | ABT_ERR_XSTREAM_BARRIER
  | ABT_ERR_SCHED
  | ABT_ERR_SCHED_CONFIG
  | ABT_ERR_POOL
  | ABT_ERR_UNIT
  | ABT_ERR_THREAD
  | ABT_ERR_TASK
  | ABT_ERR_KEY
  | ABT_ERR_MUTEX
  | ABT_ERR_MUTEX_LOCKED
  | ABT_ERR_COND
  | ABT_ERR_COND_TIMEDOUT
  | ABT_ERR_RWLOCK
  | ABT_ERR_EVENTUAL
  | ABT_ERR_FUTURE
  | ABT_ERR_BARRIER
  | ABT_ERR_TIMER
  | ABT_ERR_MIGRATION_TARGET
  | ABT_ERR_MIGRATION_NA
  | ABT_ERR_MISSING_JOIN
  | ABT_ERR_FEATURE_NA
  | ABT_ERR_INV_TOOL_CONTEXT
  | ABT_ERR_INV_ARG
  | ABT_ERR_SYS
  | ABT_ERR_CPUID
  | ABT_ERR_INV_POOL_CONFIG
  | ABT_ERR_INV_POOL_USER_DEF

primrec error_code :: "ABT_error \<Rightarrow> int" where
  "error_code ABT_SUCCESS = 0"
| "error_code ABT_ERR_UNINITIALIZED = 1"
| "error_code ABT_ERR_MEM = 2"
| "error_code ABT_ERR_OTHER = 3"
| "error_code ABT_ERR_INV_XSTREAM = 4"
| "error_code ABT_ERR_INV_XSTREAM_RANK = 5"
| "error_code ABT_ERR_INV_XSTREAM_BARRIER = 6"
| "error_code ABT_ERR_INV_SCHED = 7"
| "error_code ABT_ERR_INV_SCHED_KIND = 8"
| "error_code ABT_ERR_INV_SCHED_PREDEF = 9"
| "error_code ABT_ERR_INV_SCHED_TYPE = 10"
| "error_code ABT_ERR_INV_SCHED_CONFIG = 11"
| "error_code ABT_ERR_INV_POOL = 12"
| "error_code ABT_ERR_INV_POOL_KIND = 13"
| "error_code ABT_ERR_INV_POOL_ACCESS = 14"
| "error_code ABT_ERR_INV_UNIT = 15"
| "error_code ABT_ERR_INV_THREAD = 16"
| "error_code ABT_ERR_INV_THREAD_ATTR = 17"
| "error_code ABT_ERR_INV_TASK = 18"
| "error_code ABT_ERR_INV_KEY = 19"
| "error_code ABT_ERR_INV_MUTEX = 20"
| "error_code ABT_ERR_INV_MUTEX_ATTR = 21"
| "error_code ABT_ERR_INV_COND = 22"
| "error_code ABT_ERR_INV_RWLOCK = 23"
| "error_code ABT_ERR_INV_EVENTUAL = 24"
| "error_code ABT_ERR_INV_FUTURE = 25"
| "error_code ABT_ERR_INV_BARRIER = 26"
| "error_code ABT_ERR_INV_TIMER = 27"
| "error_code ABT_ERR_INV_QUERY_KIND = 28"
| "error_code ABT_ERR_XSTREAM = 29"
| "error_code ABT_ERR_XSTREAM_STATE = 30"
| "error_code ABT_ERR_XSTREAM_BARRIER = 31"
| "error_code ABT_ERR_SCHED = 32"
| "error_code ABT_ERR_SCHED_CONFIG = 33"
| "error_code ABT_ERR_POOL = 34"
| "error_code ABT_ERR_UNIT = 35"
| "error_code ABT_ERR_THREAD = 36"
| "error_code ABT_ERR_TASK = 37"
| "error_code ABT_ERR_KEY = 38"
| "error_code ABT_ERR_MUTEX = 39"
| "error_code ABT_ERR_MUTEX_LOCKED = 40"
| "error_code ABT_ERR_COND = 41"
| "error_code ABT_ERR_COND_TIMEDOUT = 42"
| "error_code ABT_ERR_RWLOCK = 43"
| "error_code ABT_ERR_EVENTUAL = 44"
| "error_code ABT_ERR_FUTURE = 45"
| "error_code ABT_ERR_BARRIER = 46"
| "error_code ABT_ERR_TIMER = 47"
| "error_code ABT_ERR_MIGRATION_TARGET = 48"
| "error_code ABT_ERR_MIGRATION_NA = 49"
| "error_code ABT_ERR_MISSING_JOIN = 50"
| "error_code ABT_ERR_FEATURE_NA = 51"
| "error_code ABT_ERR_INV_TOOL_CONTEXT = 52"
| "error_code ABT_ERR_INV_ARG = 53"
| "error_code ABT_ERR_SYS = 54"
| "error_code ABT_ERR_CPUID = 55"
| "error_code ABT_ERR_INV_POOL_CONFIG = 56"
| "error_code ABT_ERR_INV_POOL_USER_DEF = 57"

text \<open>The \<^verbatim>\<open>switch\<close>: one \<^verbatim>\<open>case\<close> per macro, \<^verbatim>\<open>nullptr\<close> by default.\<close>

definition error_name_table :: "(int \<times> string) list" where
  "error_name_table =
    [(error_code ABT_SUCCESS, ''ABT_SUCCESS''),
     (error_code ABT_ERR_UNINITIALIZED, ''ABT_ERR_UNINITIALIZED''),
     (error_code ABT_ERR_MEM, ''ABT_ERR_MEM''),
     (error_code ABT_ERR_OTHER, ''ABT_ERR_OTHER''),
     (error_code ABT_ERR_INV_XSTREAM, ''ABT_ERR_INV_XSTREAM''),
     (error_code ABT_ERR_INV_XSTREAM_RANK, ''ABT_ERR_INV_XSTREAM_RANK''),
     (error_code ABT_ERR_INV_XSTREAM_BARRIER, ''ABT_ERR_INV_XSTREAM_BARRIER''),
     (error_code ABT_ERR_INV_SCHED, ''ABT_ERR_INV_SCHED''),
     (error_code ABT_ERR_INV_SCHED_KIND, ''ABT_ERR_INV_SCHED_KIND''),
     (error_code ABT_ERR_INV_SCHED_PREDEF, ''ABT_ERR_INV_SCHED_PREDEF''),
     (error_code ABT_ERR_INV_SCHED_TYPE, ''ABT_ERR_INV_SCHED_TYPE''),
     (error_code ABT_ERR_INV_SCHED_CONFIG, ''ABT_ERR_INV_SCHED_CONFIG''),
     (error_code ABT_ERR_INV_POOL, ''ABT_ERR_INV_POOL''),
     (error_code ABT_ERR_INV_POOL_KIND, ''ABT_ERR_INV_POOL_KIND''),
     (error_code ABT_ERR_INV_POOL_ACCESS, ''ABT_ERR_INV_POOL_ACCESS''),
     (error_code ABT_ERR_INV_UNIT, ''ABT_ERR_INV_UNIT''),
     (error_code ABT_ERR_INV_THREAD, ''ABT_ERR_INV_THREAD''),
     (error_code ABT_ERR_INV_THREAD_ATTR, ''ABT_ERR_INV_THREAD_ATTR''),
     (error_code ABT_ERR_INV_TASK, ''ABT_ERR_INV_TASK''),
     (error_code ABT_ERR_INV_KEY, ''ABT_ERR_INV_KEY''),
     (error_code ABT_ERR_INV_MUTEX, ''ABT_ERR_INV_MUTEX''),
     (error_code ABT_ERR_INV_MUTEX_ATTR, ''ABT_ERR_INV_MUTEX_ATTR''),
     (error_code ABT_ERR_INV_COND, ''ABT_ERR_INV_COND''),
     (error_code ABT_ERR_INV_RWLOCK, ''ABT_ERR_INV_RWLOCK''),
     (error_code ABT_ERR_INV_EVENTUAL, ''ABT_ERR_INV_EVENTUAL''),
     (error_code ABT_ERR_INV_FUTURE, ''ABT_ERR_INV_FUTURE''),
     (error_code ABT_ERR_INV_BARRIER, ''ABT_ERR_INV_BARRIER''),
     (error_code ABT_ERR_INV_TIMER, ''ABT_ERR_INV_TIMER''),
     (error_code ABT_ERR_INV_QUERY_KIND, ''ABT_ERR_INV_QUERY_KIND''),
     (error_code ABT_ERR_XSTREAM, ''ABT_ERR_XSTREAM''),
     (error_code ABT_ERR_XSTREAM_STATE, ''ABT_ERR_XSTREAM_STATE''),
     (error_code ABT_ERR_XSTREAM_BARRIER, ''ABT_ERR_XSTREAM_BARRIER''),
     (error_code ABT_ERR_SCHED, ''ABT_ERR_SCHED''),
     (error_code ABT_ERR_SCHED_CONFIG, ''ABT_ERR_SCHED_CONFIG''),
     (error_code ABT_ERR_POOL, ''ABT_ERR_POOL''),
     (error_code ABT_ERR_UNIT, ''ABT_ERR_UNIT''),
     (error_code ABT_ERR_THREAD, ''ABT_ERR_THREAD''),
     (error_code ABT_ERR_TASK, ''ABT_ERR_TASK''),
     (error_code ABT_ERR_KEY, ''ABT_ERR_KEY''),
     (error_code ABT_ERR_MUTEX, ''ABT_ERR_MUTEX''),
     (error_code ABT_ERR_MUTEX_LOCKED, ''ABT_ERR_MUTEX_LOCKED''),
     (error_code ABT_ERR_COND, ''ABT_ERR_COND''),
     (error_code ABT_ERR_COND_TIMEDOUT, ''ABT_ERR_COND_TIMEDOUT''),
     (error_code ABT_ERR_RWLOCK, ''ABT_ERR_RWLOCK''),
     (error_code ABT_ERR_EVENTUAL, ''ABT_ERR_EVENTUAL''),
     (error_code ABT_ERR_FUTURE, ''ABT_ERR_FUTURE''),
     (error_code ABT_ERR_BARRIER, ''ABT_ERR_BARRIER''),
     (error_code ABT_ERR_TIMER, ''ABT_ERR_TIMER''),
     (error_code ABT_ERR_MIGRATION_TARGET, ''ABT_ERR_MIGRATION_TARGET''),
     (error_code ABT_ERR_MIGRATION_NA, ''ABT_ERR_MIGRATION_NA''),
     (error_code ABT_ERR_MISSING_JOIN, ''ABT_ERR_MISSING_JOIN''),
     (error_code ABT_ERR_FEATURE_NA, ''ABT_ERR_FEATURE_NA''),
     (error_code ABT_ERR_INV_TOOL_CONTEXT, ''ABT_ERR_INV_TOOL_CONTEXT''),
     (error_code ABT_ERR_INV_ARG, ''ABT_ERR_INV_ARG''),
     (error_code ABT_ERR_SYS, ''ABT_ERR_SYS''),
     (error_code ABT_ERR_CPUID, ''ABT_ERR_CPUID''),
     (error_code ABT_ERR_INV_POOL_CONFIG, ''ABT_ERR_INV_POOL_CONFIG''),
     (error_code ABT_ERR_INV_POOL_USER_DEF, ''ABT_ERR_INV_POOL_USER_DEF'')]"

definition abti_error_name :: "int \<Rightarrow> string option" where
  "abti_error_name err = map_of error_name_table err"

text \<open>\<^verbatim>\<open>ABT_error_get_str\<close>: the returned code, and what is written through \<^verbatim>\<open>str\<close> and
  \<^verbatim>\<open>len\<close> when these are not null (\<open>None\<close>: left alone).\<close>

definition ABT_error_get_str ::
  "int \<Rightarrow> bool \<Rightarrow> bool \<Rightarrow> ABT_error \<times> string option \<times> nat option" where
  "ABT_error_get_str err str_given len_given =
     (case abti_error_name err of
        None \<Rightarrow> (ABT_ERR_OTHER, None, None)
      | Some name \<Rightarrow>
          (ABT_SUCCESS, if str_given then Some name else None,
           if len_given then Some (length name) else None))"

subsection \<open>States, kinds and modes\<close>

datatype ABT_xstream_state = ABT_XSTREAM_STATE_RUNNING | ABT_XSTREAM_STATE_TERMINATED

datatype ABT_thread_state =
    ABT_THREAD_STATE_READY | ABT_THREAD_STATE_RUNNING
  | ABT_THREAD_STATE_BLOCKED | ABT_THREAD_STATE_TERMINATED

datatype ABT_task_state =
    ABT_TASK_STATE_READY | ABT_TASK_STATE_RUNNING | ABT_TASK_STATE_TERMINATED

datatype ABT_sched_predef =
    ABT_SCHED_DEFAULT | ABT_SCHED_BASIC | ABT_SCHED_PRIO | ABT_SCHED_RANDWS
  | ABT_SCHED_BASIC_WAIT

datatype ABT_pool_kind = ABT_POOL_FIFO | ABT_POOL_FIFO_WAIT | ABT_POOL_RANDWS

datatype ABT_pool_access =
    ABT_POOL_ACCESS_PRIV | ABT_POOL_ACCESS_SPSC | ABT_POOL_ACCESS_MPSC
  | ABT_POOL_ACCESS_SPMC | ABT_POOL_ACCESS_MPMC

datatype ABT_unit_type =
    ABT_UNIT_TYPE_THREAD | ABT_UNIT_TYPE_TASK | ABT_UNIT_TYPE_XSTREAM | ABT_UNIT_TYPE_EXT

text \<open>Enumerators as the integers C passes: what a caller hands over may be no enumerator.\<close>

definition ABT_sched_predef_of :: "int \<Rightarrow> ABT_sched_predef option" where
  "ABT_sched_predef_of c =
     map_of [(0, ABT_SCHED_DEFAULT), (1, ABT_SCHED_BASIC), (2, ABT_SCHED_PRIO),
             (3, ABT_SCHED_RANDWS), (4, ABT_SCHED_BASIC_WAIT)] c"

definition ABT_pool_kind_of :: "int \<Rightarrow> ABT_pool_kind option" where
  "ABT_pool_kind_of c =
     map_of [(0, ABT_POOL_FIFO), (1, ABT_POOL_FIFO_WAIT), (2, ABT_POOL_RANDWS)] c"

primrec access_code :: "ABT_pool_access \<Rightarrow> int" where
  "access_code ABT_POOL_ACCESS_PRIV = 0"
| "access_code ABT_POOL_ACCESS_SPSC = 1"
| "access_code ABT_POOL_ACCESS_MPSC = 2"
| "access_code ABT_POOL_ACCESS_SPMC = 3"
| "access_code ABT_POOL_ACCESS_MPMC = 4"

definition ABT_pool_access_of :: "int \<Rightarrow> ABT_pool_access option" where
  "ABT_pool_access_of c =
     map_of (map (\<lambda>a. (access_code a, a))
       [ABT_POOL_ACCESS_PRIV, ABT_POOL_ACCESS_SPSC, ABT_POOL_ACCESS_MPSC,
        ABT_POOL_ACCESS_SPMC, ABT_POOL_ACCESS_MPMC]) c"

instantiation ABT_pool_access :: linorder
begin

definition less_eq_ABT_pool_access :: "ABT_pool_access \<Rightarrow> ABT_pool_access \<Rightarrow> bool" where
  "less_eq_ABT_pool_access a b \<longleftrightarrow> access_code a \<le> access_code b"

definition less_ABT_pool_access :: "ABT_pool_access \<Rightarrow> ABT_pool_access \<Rightarrow> bool" where
  "less_ABT_pool_access a b \<longleftrightarrow> access_code a < access_code b"

instance
proof
  fix a b :: ABT_pool_access
  show "a \<le> b \<Longrightarrow> b \<le> a \<Longrightarrow> a = b"
    by (cases a; cases b) (simp_all add: less_eq_ABT_pool_access_def)
qed (auto simp: less_eq_ABT_pool_access_def less_ABT_pool_access_def)

end

lemma access_le_MPSC [simp]:
  "a \<le> ABT_POOL_ACCESS_MPSC \<longleftrightarrow>
   a = ABT_POOL_ACCESS_PRIV \<or> a = ABT_POOL_ACCESS_SPSC \<or> a = ABT_POOL_ACCESS_MPSC"
  by (cases a) (simp_all add: less_eq_ABT_pool_access_def)


subsection \<open>Decoding\<close>

lemma ABT_sched_predef_of_None:
  "ABT_sched_predef_of c = None \<longleftrightarrow> c < 0 \<or> c > 4"
  by (auto simp: ABT_sched_predef_of_def)

lemma ABT_pool_kind_of_None:
  "ABT_pool_kind_of c = None \<longleftrightarrow> c < 0 \<or> c > 2"
  by (auto simp: ABT_pool_kind_of_def)

lemma ABT_pool_access_of_None:
  "ABT_pool_access_of c = None \<longleftrightarrow> c < 0 \<or> c > 4"
  by (auto simp: ABT_pool_access_of_def)

lemma ABT_pool_access_of_code [simp]: "ABT_pool_access_of (access_code a) = Some a"
  by (cases a) (simp_all add: ABT_pool_access_of_def)


subsection \<open>The error table\<close>

lemma error_codes_table:
  "map fst error_name_table = [0..51] @ [52..57]"
  by (simp add: error_name_table_def upto.simps)

end
