(* ===== verification/Sleepers.thy ===== *)
theory Sleepers
  imports Abt_Prelude "HOL-Library.Word"
begin

section \<open>The sleeper mask of a pool\<close>

text \<open>
  \<^verbatim>\<open>ABTI_pool::add_sleeper\<close>, \<^verbatim>\<open>remove_sleeper\<close> and the notification loop of
  \<^verbatim>\<open>wake_after_push\<close> (\<^verbatim>\<open>src/src/pool.cpp\<close>).  A pool keeps the ranks of the PEs parked for it in
  \<^verbatim>\<open>std::atomic<uint64_t> smask[4]\<close>, one bit per rank; a push notifies the PE of every set bit.
  An index past the fourth word is undefined behaviour in the source and \<open>None\<close> here.
\<close>

unbundle bit_operations_syntax

type_synonym smask = "64 word list"

definition smask_init :: smask where
  "smask_init = [0, 0, 0, 0]"

definition smask_or :: "nat \<Rightarrow> smask \<Rightarrow> smask option" where
  "smask_or rank ms =
     (let w = rank div 64
      in if w < length ms then Some (ms[w := ms ! w OR push_bit (rank mod 64) 1]) else None)"

definition smask_and_not :: "nat \<Rightarrow> smask \<Rightarrow> smask option" where
  "smask_and_not rank ms =
     (let w = rank div 64
      in if w < length ms then Some (ms[w := ms ! w AND NOT (push_bit (rank mod 64) 1)]) else None)"

text \<open>\<^verbatim>\<open>__builtin_ctzll\<close>: the number of zero bits below the lowest set bit.\<close>

definition ctz :: "64 word \<Rightarrow> nat" where
  "ctz m = length (takeWhile (\<lambda>i. \<not> bit m i) [0..<64])"

text \<open>\<^verbatim>\<open>m &= m - 1\<close>.\<close>

definition clear_lowest :: "64 word \<Rightarrow> 64 word" where
  "clear_lowest m = m AND (m - 1)"

lemma unat_clear_lowest: "m \<noteq> 0 \<Longrightarrow> unat (clear_lowest m) < unat m"
proof -
  assume m: "m \<noteq> 0"
  have "clear_lowest m \<le> m - 1" unfolding clear_lowest_def by (rule word_and_le1)
  then have "unat (clear_lowest m) \<le> unat (m - 1)" by (simp add: word_le_nat_alt)
  also have "\<dots> < unat m" using m by (simp add: unat_minus_one unat_gt_0)
  finally show ?thesis .
qed

text \<open>\<^verbatim>\<open>while (m) { CsdIdleNotify(w * 64 + ctz(m)); m &= m - 1; }\<close>: the ranks notified, in order.\<close>

function notify_word :: "nat \<Rightarrow> 64 word \<Rightarrow> nat list" where
  "notify_word w m = (if m = 0 then [] else (w * 64 + ctz m) # notify_word w (clear_lowest m))"
  by auto
termination by (relation "measure (\<lambda>(w, m). unat m)") (auto simp: unat_clear_lowest)

declare notify_word.simps [simp del]

definition notify_ranks :: "smask \<Rightarrow> nat list" where
  "notify_ranks ms = concat (map (\<lambda>w. notify_word w (ms ! w)) [0..<4])"

text \<open>The ranks a mask stands for.\<close>

definition sleepers :: "smask \<Rightarrow> nat set" where
  "sleepers ms = {r. r < 256 \<and> bit (ms ! (r div 64)) (r mod 64)}"


subsection \<open>The lowest set bit\<close>

lemma ctz_bit:
  assumes "m \<noteq> 0"
  shows "ctz m < 64" "bit m (ctz m)" "\<And>i. i < ctz m \<Longrightarrow> \<not> bit m i"
proof -
  let ?P = "\<lambda>i. \<not> bit m i"
  have "\<exists>i<64. bit m i"
  proof (rule ccontr)
    assume "\<not> (\<exists>i<64. bit m i)"
    then have "m = 0" by (intro bit_word_eqI) auto
    with assms show False by simp
  qed
  then obtain i where i: "i < 64" "bit m i" by blast
  show c: "ctz m < 64"
  proof (rule ccontr)
    assume "\<not> ctz m < 64"
    then have "length (takeWhile ?P [0..<64]) = length [0..<64]"
      using length_takeWhile_le [of ?P "[0..<64]"] unfolding ctz_def by simp
    then have "takeWhile ?P [0..<64] = [0..<64]" using takeWhile_eq_take [of ?P "[0..<64]"] by simp
    then have "\<forall>i\<in>set [0..<64]. ?P i" by (metis set_takeWhileD)
    with i show False by auto
  qed
  from nth_length_takeWhile [of ?P "[0..<64]"] c show "bit m (ctz m)"
    unfolding ctz_def by simp
  show "\<not> bit m i" if "i < ctz m" for i
  proof -
    have "takeWhile ?P [0..<64] ! i \<in> set (takeWhile ?P [0..<64])" using that unfolding ctz_def by (rule nth_mem)
    moreover have "takeWhile ?P [0..<64] ! i = i" using that c unfolding ctz_def by (simp add: takeWhile_nth)
    ultimately show ?thesis by (metis set_takeWhileD)
  qed
qed

lemma bit_clear_lowest:
  assumes "m \<noteq> 0"
  shows "bit (clear_lowest m) i \<longleftrightarrow> bit m i \<and> i \<noteq> ctz m"
proof -
  let ?k = "ctz m"
  define hi where "hi = m AND NOT (mask (Suc ?k))"
  note k = ctz_bit [OF assms]
  have hi: "bit hi j \<longleftrightarrow> j < 64 \<and> bit m j \<and> ?k < j" for j
    unfolding hi_def by (auto simp: bit_simps)
  have "m = hi OR push_bit ?k 1"
  proof (rule bit_word_eqI)
    fix j assume "j < LENGTH(64)"
    then show "bit m j \<longleftrightarrow> bit (hi OR push_bit ?k 1) j"
      using k by (auto simp: bit_or_iff hi bit_simps not_less) (metis linorder_neqE_nat)
  qed
  also have "\<dots> = hi + push_bit ?k 1"
    by (rule disjunctive_add [symmetric]) (auto simp: hi bit_simps)
  finally have "m - 1 = hi + (push_bit ?k 1 - 1)" by simp
  also have "push_bit ?k 1 - 1 = (mask ?k :: 64 word)" by (simp add: mask_eq_exp_minus_1 push_bit_eq_mult)
  also have "hi + mask ?k = hi OR mask ?k" by (rule disjunctive_add) (auto simp: hi bit_simps)
  finally have "bit (m - 1) i \<longleftrightarrow> bit hi i \<or> (i < 64 \<and> i < ?k)" by (auto simp: bit_simps)
  moreover have "bit m i \<Longrightarrow> i < 64" using bit_imp_le_length [of m i] by simp
  moreover have "bit m i \<Longrightarrow> i = ?k \<or> ?k < i" using k(3) by (metis linorder_neqE_nat)
  ultimately show ?thesis using hi [of i] unfolding clear_lowest_def by (auto simp: bit_and_iff)
qed



subsection \<open>The notification loop\<close>

lemma notify_word_set: "set (notify_word w m) = (\<lambda>i. w * 64 + i) ` {i. bit m i}"
proof (induction w m rule: notify_word.induct)
  case (1 w m)
  show ?case
  proof (cases "m = 0")
    case False
    have "{i. bit m i} = insert (ctz m) {i. bit (clear_lowest m) i}"
      using bit_clear_lowest [OF False] ctz_bit(2) [OF False] by auto
    then show ?thesis using 1 False by (subst notify_word.simps) simp
  qed (simp add: notify_word.simps)
qed

lemma notify_word_distinct: "distinct (notify_word w m)"
proof (induction w m rule: notify_word.induct)
  case (1 w m)
  show ?case
  proof (cases "m = 0")
    case False
    have "w * 64 + ctz m \<notin> set (notify_word w (clear_lowest m))"
      using bit_clear_lowest [OF False, of "ctz m"] by (auto simp: notify_word_set)
    with 1 [OF False] False show ?thesis by (subst notify_word.simps) simp
  qed (simp add: notify_word.simps)
qed

lemma notify_word_range: "r \<in> set (notify_word w m) \<Longrightarrow> r div 64 = w"
  using bit_imp_le_length [of m] by (auto simp: notify_word_set)

lemma notify_ranks_set: "set (notify_ranks ms) = sleepers ms"
proof -
  have "r \<in> set (notify_ranks ms) \<longleftrightarrow> r < 256 \<and> bit (ms ! (r div 64)) (r mod 64)" for r
  proof -
    have "r \<in> set (notify_ranks ms) \<longleftrightarrow> (\<exists>w<4. \<exists>i. r = w * 64 + i \<and> bit (ms ! w) i)"
      by (auto simp: notify_ranks_def notify_word_set)
    also have "\<dots> \<longleftrightarrow> r < 256 \<and> bit (ms ! (r div 64)) (r mod 64)"
    proof
      assume "\<exists>w<4. \<exists>i. r = w * 64 + i \<and> bit (ms ! w) i"
      then obtain w i where w: "w < 4" "r = w * 64 + i" "bit (ms ! w) i" by blast
      then have "i < 64" using bit_imp_le_length [of "ms ! w" i] by simp
      with w show "r < 256 \<and> bit (ms ! (r div 64)) (r mod 64)" by simp
    next
      assume r: "r < 256 \<and> bit (ms ! (r div 64)) (r mod 64)"
      then have "r div 64 < 4" by (intro less_mult_imp_div_less) simp
      moreover have "r = (r div 64) * 64 + r mod 64" by simp
      ultimately show "\<exists>w<4. \<exists>i. r = w * 64 + i \<and> bit (ms ! w) i" using r by blast
    qed
    finally show ?thesis .
  qed
  then show ?thesis by (auto simp: sleepers_def)
qed

lemma notify_ranks_distinct: "distinct (notify_ranks ms)"
proof -
  have "distinct ws \<Longrightarrow> distinct (concat (map (\<lambda>w. notify_word w (ms ! w)) ws))" for ws
    by (induction ws) (auto simp: notify_word_distinct dest: notify_word_range)
  then show ?thesis by (simp add: notify_ranks_def)
qed

lemma smask_or_sleepers:
  assumes "length ms = 4" "r < 256"
  shows "\<exists>ms'. smask_or r ms = Some ms' \<and> length ms' = 4 \<and> sleepers ms' = insert r (sleepers ms)"
proof -
  have w: "r div 64 < 4" using assms(2) by simp
  have "bit (ms[r div 64 := ms ! (r div 64) OR push_bit (r mod 64) 1] ! (q div 64)) (q mod 64) \<longleftrightarrow>
      q = r \<or> bit (ms ! (q div 64)) (q mod 64)" if "q < 256" for q
  proof (cases "q div 64 = r div 64")
    case True
    then have "q mod 64 = r mod 64 \<longleftrightarrow> q = r" by (metis div_mult_mod_eq)
    then show ?thesis using True assms(1) w
      by (auto simp: bit_or_iff bit_simps)
  qed (use assms(1) w in \<open>auto simp: nth_list_update\<close>)
  then have "sleepers (ms[r div 64 := ms ! (r div 64) OR push_bit (r mod 64) 1]) = insert r (sleepers ms)"
    unfolding sleepers_def using assms(2) by blast
  then show ?thesis using assms(1) w unfolding smask_or_def Let_def by simp
qed

lemma smask_and_not_sleepers:
  assumes "length ms = 4" "r < 256"
  shows "\<exists>ms'. smask_and_not r ms = Some ms' \<and> length ms' = 4 \<and> sleepers ms' = sleepers ms - {r}"
proof -
  have w: "r div 64 < 4" using assms(2) by simp
  have "bit (ms[r div 64 := ms ! (r div 64) AND NOT (push_bit (r mod 64) 1)] ! (q div 64)) (q mod 64) \<longleftrightarrow>
      q \<noteq> r \<and> bit (ms ! (q div 64)) (q mod 64)" if "q < 256" for q
  proof (cases "q div 64 = r div 64")
    case True
    then have "q mod 64 = r mod 64 \<longleftrightarrow> q = r" by (metis div_mult_mod_eq)
    then show ?thesis using True assms(1) w
      by (auto simp: bit_and_iff bit_not_iff bit_simps)
  qed (use assms(1) w in \<open>auto simp: nth_list_update\<close>)
  then have "sleepers (ms[r div 64 := ms ! (r div 64) AND NOT (push_bit (r mod 64) 1)]) = sleepers ms - {r}"
    unfolding sleepers_def using assms(2) by blast
  then show ?thesis using assms(1) w unfolding smask_and_not_def Let_def by simp
qed

end
