(* ===== verification/Runtime.thy ===== *)
theory Runtime
  imports Abt_Types Pool_Mpsc Sleepers
begin

section \<open>What the library runs on\<close>

text \<open>
  The Reconverse runtime (\<^verbatim>\<open>Cth*\<close>, \<^verbatim>\<open>Cmi*\<close>, \<^verbatim>\<open>Csd*\<close>) and the code of the application are not part
  of the sources.  What the library asks them enters the model in two ways.

  \<^item> A query (who am I, which PE owns a thread, the wall clock) and a call that hands control to
    foreign code (a callback of a user-defined pool or scheduler, the body of a tasklet, resuming a
    thread) is a field of the record \<open>env\<close>, an argument of the definitions that need it.  Callbacks
    are C function pointers, so a callback field takes the pointer it is called through.
  \<^item> A command to the runtime that returns at once (notify an idle PE, install a poll table, send a
    message to a PE) is appended to the trace \<open>rt_calls\<close> of the state.

  A call that may switch to other threads returns the state found when control comes back.
\<close>

text \<open>A \<^verbatim>\<open>double\<close> of seconds is a whole number of nanoseconds.\<close>

type_synonym time = int

datatype cth_state = CTH_STATE_READY | CTH_STATE_RUNNING | CTH_STATE_BLOCKED | CTH_STATE_TERMINATED

datatype rt_call =
    CvNotifyOne ptr                    \<comment> \<open>\<^verbatim>\<open>cv.notify_one()\<close> of a pool\<close>
  | CsdIdleNotify nat
  | CsdReleaseIdle
  | CsdSetSleepOnIdle bool
  | CsdSchedTableInstall int "ptr option"  \<comment> \<open>a leased PE; \<open>Some s\<close>: one entry polling scheduler \<open>s\<close>\<close>
  | CsdSchedTableDefault int           \<comment> \<open>\<^verbatim>\<open>CsdSchedTableInstall\<close> of \<^verbatim>\<open>CsdSchedTableCreate(nullptr, 0)\<close>\<close>
  | CmiPushPE int ptr                 \<comment> \<open>a thread's token to the queue of a PE\<close>
  | LeaseMsg int ptr                   \<comment> \<open>\<^verbatim>\<open>send_pe_msg\<close> with the lease handler\<close>
  | ReleaseMsg int ptr                 \<comment> \<open>\<^verbatim>\<open>send_pe_msg\<close> with the release handler\<close>
  | AffinityMsg int ptr int            \<comment> \<open>\<^verbatim>\<open>send_pe_msg\<close> with the affinity handler\<close>
  | RunMsg int                          \<comment> \<open>\<^verbatim>\<open>ABTI_run_on_pe\<close>: the message to the PE that runs the function\<close>
  | CmiSetCPUAffinity int
  | CthAwaken ptr
  | CthFree ptr
  | CthCreate ptr int                   \<comment> \<open>the new thread and its stack size\<close>
  | CthSetChooseFn ptr
  | CthSetKeepOnExit ptr
  | CthSetExitFn ptr ptr
  | CsdSchedulePoll
  | Nanosleep
  | CcdIdleHook                         \<comment> \<open>\<^verbatim>\<open>CcdCallOnConditionKeep\<close> of \<^verbatim>\<open>ABTI_xstream_idle_hook\<close>\<close>
  | ConverseInit int                    \<comment> \<open>with the number of PEs\<close>
  | ConverseFinalize
  | Atexit                              \<comment> \<open>registration of \<^verbatim>\<open>shutdown_runtime\<close>\<close>

record 's env =
  CmiMyRank :: int
  CmiIsPeThread :: bool
  CthSelf :: ptr
  CthGetHomeRank :: "ptr \<Rightarrow> int"
  CthIsPeMainThread :: "ptr \<Rightarrow> bool"
  CthGetSchedulingThread :: ptr
  CmiWallTimer :: time
  pthread_self :: nat
  CthGetState :: "ptr \<Rightarrow> 's \<Rightarrow> cth_state"
  CthClaimReady :: "ptr \<Rightarrow> 's \<Rightarrow> bool \<times> 's"
  CthAwakenIfBlocked :: "ptr \<Rightarrow> 's \<Rightarrow> (bool \<times> 's) option"  \<comment> \<open>runs the thread's awaken function\<close>
  CthSuspendBlocked :: "'s \<Rightarrow> 's"                     \<comment> \<open>returns when the caller has been woken and resumed\<close>
  CthYield :: "'s \<Rightarrow> 's"
  sched_yield :: "'s \<Rightarrow> 's"
  CsdIdleWait :: "'s \<Rightarrow> 's"
  resume_thread :: "ptr \<Rightarrow> 's \<Rightarrow> 's"                  \<comment> \<open>\<^verbatim>\<open>CmiHandleMessage(CthGetToken(cth))\<close>\<close>
  others_during_wait :: "'s \<Rightarrow> 's"                    \<comment> \<open>what happens while the caller waits on a condition variable or a lock\<close>
  random_value :: "'s \<Rightarrow> nat"                         \<comment> \<open>\<^verbatim>\<open>random()\<close>\<close>
  call_u_create :: "ptr \<Rightarrow> ptr \<Rightarrow> 's \<Rightarrow> ptr \<times> 's"      \<comment> \<open>\<^verbatim>\<open>u_create_from_thread(thread)\<close>\<close>
  call_u_free :: "ptr \<Rightarrow> ptr \<Rightarrow> 's \<Rightarrow> 's"               \<comment> \<open>\<^verbatim>\<open>u_free(&unit)\<close>\<close>
  call_p_init :: "ptr \<Rightarrow> ptr \<Rightarrow> ptr \<Rightarrow> 's \<Rightarrow> ABT_error \<times> 's" \<comment> \<open>\<^verbatim>\<open>p_init(pool, config)\<close>\<close>
  call_p_get_size :: "ptr \<Rightarrow> ptr \<Rightarrow> 's \<Rightarrow> nat"         \<comment> \<open>\<^verbatim>\<open>p_get_size(pool)\<close>\<close>
  call_p_push :: "ptr \<Rightarrow> ptr \<Rightarrow> ptr \<Rightarrow> 's \<Rightarrow> 's"        \<comment> \<open>\<^verbatim>\<open>p_push(pool, unit)\<close>\<close>
  call_p_pop :: "ptr \<Rightarrow> ptr \<Rightarrow> 's \<Rightarrow> ptr \<times> 's"         \<comment> \<open>\<^verbatim>\<open>p_pop(pool)\<close>\<close>
  call_p_pop_timedwait :: "ptr \<Rightarrow> ptr \<Rightarrow> time \<Rightarrow> 's \<Rightarrow> ptr \<times> 's"
  call_p_remove :: "ptr \<Rightarrow> ptr \<Rightarrow> ptr \<Rightarrow> 's \<Rightarrow> 's"
  call_p_free :: "ptr \<Rightarrow> ptr \<Rightarrow> 's \<Rightarrow> 's"
  call_p_print_all :: "ptr \<Rightarrow> ptr \<Rightarrow> ptr \<Rightarrow> ptr \<Rightarrow> 's \<Rightarrow> 's"
  call_print_fn :: "ptr \<Rightarrow> ptr \<Rightarrow> ptr \<Rightarrow> 's \<Rightarrow> 's"      \<comment> \<open>\<^verbatim>\<open>print_fn(arg, unit)\<close>\<close>
  call_fn :: "ptr \<Rightarrow> ptr \<Rightarrow> 's \<Rightarrow> 's"                   \<comment> \<open>\<^verbatim>\<open>fn(arg)\<close>: a tasklet body, a key destructor\<close>
  call_s_init :: "ptr \<Rightarrow> ptr \<Rightarrow> ptr \<Rightarrow> 's \<Rightarrow> ABT_error \<times> 's" \<comment> \<open>\<^verbatim>\<open>init(sched, config)\<close>\<close>
  call_s_run :: "ptr \<Rightarrow> ptr \<Rightarrow> 's \<Rightarrow> 's"                \<comment> \<open>\<^verbatim>\<open>run(sched)\<close>\<close>
  call_s_free :: "ptr \<Rightarrow> ptr \<Rightarrow> 's \<Rightarrow> 's"               \<comment> \<open>\<^verbatim>\<open>free(sched)\<close>\<close>

text \<open>An API function either returns an error code, or success together with its outputs.\<close>

type_synonym ('a, 's) api = "(ABT_error + 'a) \<times> 's"

end
