(* ===== verification/Pool.thy ===== *)
theory Pool
  imports Runtime "HOL-Library.Monad_Syntax" "HOL-Library.Multiset"
begin

section \<open>Pools\<close>

text \<open>
  \<^verbatim>\<open>src/src/pool.cpp\<close>: the methods of \<^verbatim>\<open>ABTI_pool\<close> over the two built-in queues and over the
  callbacks of a user-defined pool, and the association of units with pools (the public API is in \<open>Pool_Api\<close>).
  \<open>pool_heap\<close> adds to the queue fields the rest of \<^verbatim>\<open>ABTI_pool\<close>, the fields of \<^verbatim>\<open>ABTI_thread\<close> pools
  use, the globals of \<^verbatim>\<open>ABTI_global\<close> they consult, and the trace of commands to the runtime.  A
  definition whose type ends in an option is \<open>None\<close> where the process aborts (\<^verbatim>\<open>CmiAbort\<close>).
\<close>

datatype ABTI_thread_type =
  ABTI_THREAD_PRIMARY | ABTI_THREAD_NAMED | ABTI_THREAD_DETACHED | ABTI_THREAD_SCHED

text \<open>\<^verbatim>\<open>struct ABT_pool_def\<close>: the callbacks the library calls, as function pointers (null: absent).\<close>

record ABT_pool_def =
  def_access :: ABT_pool_access
  u_create_from_thread :: ptr
  u_free :: ptr
  p_init :: ptr
  p_get_size :: ptr
  p_push :: ptr
  p_pop :: ptr
  p_pop_timedwait :: ptr
  p_remove :: ptr
  p_free :: ptr
  p_print_all :: ptr

record pool_heap = queue_heap +
  p_access :: "ptr \<Rightarrow> ABT_pool_access"
  p_kind :: "ptr \<Rightarrow> ABT_pool_kind"
  p_automatic :: "ptr \<Rightarrow> bool"
  p_id :: "ptr \<Rightarrow> nat"
  p_user :: "ptr \<Rightarrow> bool"
  p_def :: "ptr \<Rightarrow> ABT_pool_def"
  p_data :: "ptr \<Rightarrow> ptr"
  p_single_consumer :: "ptr \<Rightarrow> bool"
  p_waiters :: "ptr \<Rightarrow> int"
  p_num_blocked :: "ptr \<Rightarrow> int"
  p_num_scheds :: "ptr \<Rightarrow> int"
  p_nsleepers :: "ptr \<Rightarrow> int"
  p_smask :: "ptr \<Rightarrow> smask"
  t_cth :: "ptr \<Rightarrow> ptr"
  t_pool :: "ptr \<Rightarrow> ptr"
  t_unit :: "ptr \<Rightarrow> ptr"
  t_type :: "ptr \<Rightarrow> ABTI_thread_type"
  t_fn :: "ptr \<Rightarrow> ptr"
  t_arg :: "ptr \<Rightarrow> ptr"
  t_is_task :: "ptr \<Rightarrow> bool"
  t_last_xstream :: "ptr \<Rightarrow> ptr"
  t_parent :: "ptr \<Rightarrow> ptr"
  t_tstate :: "ptr \<Rightarrow> cth_state"
  g_initialized :: bool
  g_next_id :: nat
  g_num_user_pools :: int
  g_units :: "ptr \<rightharpoonup> ptr"
  live :: "ptr set"
  tls_xstream :: ptr
  tls_task :: ptr
  cth_userdata :: "ptr \<Rightarrow> ptr"
  rt_calls :: "rt_call list"

definition rt :: "rt_call \<Rightarrow> 'a pool_heap_scheme \<Rightarrow> 'a pool_heap_scheme" where
  "rt c h = h\<lparr>rt_calls := rt_calls h @ [c]\<rparr>"

text \<open>\<^verbatim>\<open>ABTI_self_thread\<close> and \<^verbatim>\<open>ABTI_can_block\<close> (\<^verbatim>\<open>abti.h\<close>).\<close>

definition ABTI_self_thread :: "'a pool_heap_scheme env \<Rightarrow> 'a pool_heap_scheme \<Rightarrow> ptr" where
  "ABTI_self_thread E h =
     (if \<not> CmiIsPeThread E then nullptr
      else if tls_task h \<noteq> nullptr then tls_task h
      else cth_userdata h (CthSelf E))"

definition ABTI_can_block :: "'a pool_heap_scheme \<Rightarrow> ptr \<Rightarrow> bool" where
  "ABTI_can_block h t \<longleftrightarrow> t \<noteq> nullptr \<and> t_cth h t \<noteq> nullptr \<and> \<not> t_is_task h t"


subsection \<open>Push, pop, size, remove\<close>

definition unit_to_thread :: "ptr \<Rightarrow> 'a pool_heap_scheme \<Rightarrow> ptr" where
  "unit_to_thread u h =
     (if ABTI_is_null_handle u then nullptr
      else if g_num_user_pools h = 0 then nullptr
      else (case g_units h u of None \<Rightarrow> nullptr | Some t \<Rightarrow> t))"

definition pinned_elsewhere :: "'a pool_heap_scheme env \<Rightarrow> 'a pool_heap_scheme \<Rightarrow> ptr \<Rightarrow> bool" where
  "pinned_elsewhere E h t \<longleftrightarrow>
     t_type h t = ABTI_THREAD_PRIMARY \<and> CthGetHomeRank E (t_cth h t) \<noteq> CmiMyRank E"

definition add_sleeper :: "ptr \<Rightarrow> nat \<Rightarrow> 'a pool_heap_scheme \<Rightarrow> 'a pool_heap_scheme option" where
  "add_sleeper p rank h =
     do { ms \<leftarrow> smask_or rank (p_smask h p);
          Some (h\<lparr>p_smask := (p_smask h)(p := ms),
                 p_nsleepers := (p_nsleepers h)(p := p_nsleepers h p + 1)\<rparr>) }"

definition remove_sleeper :: "ptr \<Rightarrow> nat \<Rightarrow> 'a pool_heap_scheme \<Rightarrow> 'a pool_heap_scheme option" where
  "remove_sleeper p rank h =
     do { ms \<leftarrow> smask_and_not rank (p_smask h p);
          Some (h\<lparr>p_smask := (p_smask h)(p := ms),
                 p_nsleepers := (p_nsleepers h)(p := p_nsleepers h p - 1)\<rparr>) }"

definition wake_after_push :: "ptr \<Rightarrow> 'a pool_heap_scheme \<Rightarrow> 'a pool_heap_scheme" where
  "wake_after_push p h =
     (let h1 = (if p_waiters h p > 0 then rt (CvNotifyOne p) h else h)
      in if p_nsleepers h1 p > 0
         then fold (\<lambda>r. rt (CsdIdleNotify r)) (notify_ranks (p_smask h1 p)) h1
         else h1)"

definition pool_push :: "'a pool_heap_scheme env \<Rightarrow> ptr \<Rightarrow> ptr \<Rightarrow> 'a pool_heap_scheme \<Rightarrow>
    'a pool_heap_scheme option" where
  "pool_push E p t h =
     (if p_user h p
      then let h1 = call_p_push E (p_push (p_def h p)) (ABTI_pool_handle p) (t_unit h t) h
           in Some (wake_after_push p h1)
      else if t_in_pool h t then None
      else let h1 = (if p_single_consumer h p then push_mpsc p t h else push_list p t h)
           in Some (wake_after_push p h1))"

definition pool_pop :: "'a pool_heap_scheme env \<Rightarrow> ptr \<Rightarrow> 'a pool_heap_scheme \<Rightarrow>
    (ptr \<times> 'a pool_heap_scheme) option" where
  "pool_pop E p h =
     (if p_user h p
      then let (u, h1) = call_p_pop E (p_pop (p_def h p)) (ABTI_pool_handle p) h;
               t = unit_to_thread u h1
           in if t \<noteq> nullptr \<and> pinned_elsewhere E h1 t
              then let h2 = call_p_push E (p_push (p_def h1 p)) (ABTI_pool_handle p) (t_unit h1 t) h1;
                       (v, h3) = call_p_pop E (p_pop (p_def h2 p)) (ABTI_pool_handle p) h2;
                       n = unit_to_thread v h3
                   in if n \<noteq> nullptr \<and> pinned_elsewhere E h3 n
                      then Some (nullptr, call_p_push E (p_push (p_def h3 p)) (ABTI_pool_handle p)
                                            (t_unit h3 n) h3)
                      else Some (n, h3)
              else Some (t, h1)
      else if p_single_consumer h p then pop_mpsc (pool_push E p) (pinned_elsewhere E h) p h
      else Some (pop_list (pinned_elsewhere E h) p h))"

text \<open>
  \<^verbatim>\<open>pop_timedwait\<close>: the wait on the condition variable ends when a push notifies or the deadline
  passes; either way what happened meanwhile is \<open>others_during_wait\<close>.
\<close>

definition pool_pop_timedwait :: "'a pool_heap_scheme env \<Rightarrow> ptr \<Rightarrow> time \<Rightarrow> 'a pool_heap_scheme \<Rightarrow>
    (ptr \<times> 'a pool_heap_scheme) option" where
  "pool_pop_timedwait E p abs_deadline h =
     (if p_user h p \<and> p_pop_timedwait (p_def h p) \<noteq> nullptr
      then let (u, h1) = call_p_pop_timedwait E (p_pop_timedwait (p_def h p)) (ABTI_pool_handle p)
                           abs_deadline h
           in Some (unit_to_thread u h1, h1)
      else do {
        (t, h1) \<leftarrow> pool_pop E p h;
        if t \<noteq> nullptr then Some (t, h1)
        else if abs_deadline \<le> CmiWallTimer E then Some (nullptr, h1)
        else let h2 = h1\<lparr>p_waiters := (p_waiters h1)(p := p_waiters h1 p + 1)\<rparr>;
                 h3 = (if p_user h2 p \<or> p_count h2 p = 0 then others_during_wait E h2 else h2);
                 h4 = h3\<lparr>p_waiters := (p_waiters h3)(p := p_waiters h3 p - 1)\<rparr>
             in pool_pop E p h4 })"

definition pool_size :: "'a pool_heap_scheme env \<Rightarrow> ptr \<Rightarrow> 'a pool_heap_scheme \<Rightarrow> nat" where
  "pool_size E p h =
     (if p_user h p then call_p_get_size E (p_get_size (p_def h p)) (ABTI_pool_handle p) h
      else builtin_size p h)"

definition remove_unit :: "ptr \<Rightarrow> ptr \<Rightarrow> 'a pool_heap_scheme \<Rightarrow> bool \<times> 'a pool_heap_scheme" where
  "remove_unit p t h =
     (if t_in_pool h t \<and> t_pool h t = p
      then if p_single_consumer h p then remove_mpsc p t h else (True, remove_list p t h)
      else (False, h))"

text \<open>
  \<^verbatim>\<open>for_each_unit\<close>: the units it visits, in order.  The walk over the MPSC chain starts at
  \<^verbatim>\<open>head->next\<close>; the walk over the list at \<^verbatim>\<open>lhead\<close>.
\<close>

partial_function (option) walk_mpsc :: "'a queue_heap_scheme \<Rightarrow> ABTI_qnode option \<Rightarrow> ptr list option" where
  "walk_mpsc h n = (case n of None \<Rightarrow> Some []
     | Some m \<Rightarrow> do { r \<leftarrow> walk_mpsc h (qn_next h m);
                     Some (if qn_owner m \<noteq> nullptr \<and> \<not> t_removed h (qn_owner m)
                           then qn_owner m # r else r) })"

partial_function (option) walk_list :: "'a queue_heap_scheme \<Rightarrow> ptr \<Rightarrow> ptr list option" where
  "walk_list h t = (if t = nullptr then Some []
     else do { r \<leftarrow> walk_list h (t_lnext h t); Some (t # r) })"

definition for_each_unit :: "ptr \<Rightarrow> 'a pool_heap_scheme \<Rightarrow> ptr list option" where
  "for_each_unit p h =
     (if p_single_consumer h p then walk_mpsc h (qn_next h (p_head h p)) else walk_list h (p_lhead h p))"


subsection \<open>Creation, destruction, association\<close>

text \<open>\<open>p\<close> is the address \<^verbatim>\<open>new\<close> returned; the initialisers are those of the declaration.\<close>

definition pool_new :: "ptr \<Rightarrow> 'a pool_heap_scheme \<Rightarrow> 'a pool_heap_scheme" where
  "pool_new p h =
     (pool_queue_init p h)
       \<lparr>live := insert p (live h), p_single_consumer := (p_single_consumer h)(p := False),
        p_waiters := (p_waiters h)(p := 0), p_num_blocked := (p_num_blocked h)(p := 0),
        p_num_scheds := (p_num_scheds h)(p := 0), p_nsleepers := (p_nsleepers h)(p := 0),
        p_smask := (p_smask h)(p := smask_init)\<rparr>"

definition fresh_id :: "'a pool_heap_scheme \<Rightarrow> nat \<times> 'a pool_heap_scheme" where
  "fresh_id h = (g_next_id h, h\<lparr>g_next_id := g_next_id h + 1\<rparr>)"

definition ABTI_pool_create_builtin :: "ptr \<Rightarrow> ABT_pool_kind \<Rightarrow> ABT_pool_access \<Rightarrow> bool \<Rightarrow>
    'a pool_heap_scheme \<Rightarrow> 'a pool_heap_scheme" where
  "ABTI_pool_create_builtin p kind access automatic h =
     (let (i, h1) = fresh_id (pool_new p h)
      in h1\<lparr>p_kind := (p_kind h1)(p := kind), p_access := (p_access h1)(p := access),
            p_automatic := (p_automatic h1)(p := automatic), p_id := (p_id h1)(p := i),
            p_user := (p_user h1)(p := False), p_data := (p_data h1)(p := nullptr),
            p_single_consumer := (p_single_consumer h1)(p := (access \<le> ABT_POOL_ACCESS_MPSC))\<rparr>)"

definition ABTI_pool_destroy :: "'a pool_heap_scheme env \<Rightarrow> ptr \<Rightarrow> 'a pool_heap_scheme \<Rightarrow>
    'a pool_heap_scheme" where
  "ABTI_pool_destroy E p h =
     (let h1 = (if p_user h p \<and> p_free (p_def h p) \<noteq> nullptr
                then call_p_free E (p_free (p_def h p)) (ABTI_pool_handle p) h else h)
      in h1\<lparr>live := live h1 - {p}\<rparr>)"

definition ABTI_pool_disassociate :: "'a pool_heap_scheme env \<Rightarrow> ptr \<Rightarrow> 'a pool_heap_scheme \<Rightarrow>
    'a pool_heap_scheme" where
  "ABTI_pool_disassociate E t h =
     (let h1 = (if t_pool h t \<noteq> nullptr \<and> p_user h (t_pool h t) \<and> \<not> ABTI_is_null_handle (t_unit h t)
                then call_u_free E (u_free (p_def h (t_pool h t))) (t_unit h t)
                       (h\<lparr>g_units := (g_units h)(t_unit h t := None)\<rparr>)
                else h)
      in h1\<lparr>t_unit := (t_unit h1)(t := ABT_UNIT_NULL), t_pool := (t_pool h1)(t := nullptr)\<rparr>)"

definition ABTI_pool_associate :: "'a pool_heap_scheme env \<Rightarrow> ptr \<Rightarrow> ptr \<Rightarrow> 'a pool_heap_scheme \<Rightarrow>
    'a pool_heap_scheme option" where
  "ABTI_pool_associate E t p h =
     (if t_pool h t = p then Some h
      else let h1 = ABTI_pool_disassociate E t h;
               h2 = h1\<lparr>t_pool := (t_pool h1)(t := p)\<rparr>
           in if p_user h2 p
              then let (u, h3) = call_u_create E (u_create_from_thread (p_def h2 p)) (ABTI_thread_handle t) h2
                   in if ABTI_is_null_handle u then None
                      else Some (h3\<lparr>t_unit := (t_unit h3)(t := u), g_units := (g_units h3)(u := Some t)\<rparr>)
              else Some h2)"



subsection \<open>Built-in pools as sequences\<close>

text \<open>
  The units linked into a built-in pool, and the invariant of all built-in pools \<open>P\<close> together:
  pool \<open>p\<close> links exactly the units \<open>V p\<close>, no unit is in two pools, and the counter of a pool is the
  number of its units that are not removed.
\<close>

definition pool_linked :: "'a pool_heap_scheme \<Rightarrow> ptr \<Rightarrow> ptr list \<Rightarrow> bool" where
  "pool_linked h p xs \<longleftrightarrow> (if p_single_consumer h p then mpsc h p xs else dll h p xs)"

definition pools_rep :: "'a pool_heap_scheme \<Rightarrow> ptr set \<Rightarrow> (ptr \<Rightarrow> ptr list) \<Rightarrow> bool" where
  "pools_rep h P V \<longleftrightarrow>
     (\<forall>p\<in>P. \<not> p_user h p \<and> pool_linked h p (V p) \<and>
        p_count h p = int (length (filter (\<lambda>t. \<not> t_removed h t) (V p)))) \<and>
     (\<forall>p\<in>P. \<forall>q\<in>P. p \<noteq> q \<longrightarrow> set (V p) \<inter> set (V q) = {})"

text \<open>What a client sees: for every pool the sequence of its units that are not removed.\<close>

definition pools_view :: "'a pool_heap_scheme \<Rightarrow> ptr set \<Rightarrow> (ptr \<Rightarrow> ptr list) \<Rightarrow> bool" where
  "pools_view h P L \<longleftrightarrow>
     (\<exists>V. pools_rep h P V \<and> (\<forall>p\<in>P. L p = filter (\<lambda>t. \<not> t_removed h t) (V p)))"

lemma pool_linked_facts:
  assumes "pool_linked h p xs"
  shows "distinct xs" "nullptr \<notin> set xs" "t \<in> set xs \<Longrightarrow> t_in_pool h t"
proof -
  have "distinct xs \<and> nullptr \<notin> set xs \<and> (t \<in> set xs \<longrightarrow> t_in_pool h t)"
  proof (cases "p_single_consumer h p")
    case True
    with assms have m: "mpsc h p xs" by (simp add: pool_linked_def)
    show ?thesis using mpsc_distinct [OF m] mpsc_members [OF m] by blast
  next
    case False
    with assms have d: "dll h p xs" by (simp add: pool_linked_def)
    have "t \<in> set xs \<longrightarrow> t_in_pool h t" using d by (simp add: dll_def)
    with dll_facts(1,2) [OF d] show ?thesis by blast
  qed
  then show "distinct xs" "nullptr \<notin> set xs" "t \<in> set xs \<Longrightarrow> t_in_pool h t" by blast+
qed

text \<open>An operation on a list pool writes nothing an MPSC pool depends on, and conversely.\<close>

lemma mpsc_cong:
  assumes "mpsc h q ys" "qn_next h' = qn_next h" "p_head h' q = p_head h q" "p_tail h' q = p_tail h q"
    "\<And>t. t \<in> set ys \<Longrightarrow> t_in_pool h' t"
  shows "mpsc h' q ys"
proof -
  from assms(1) obtain Q where Q: "mpsc_chain h q Q" "ys = unit_nodes q Q" unfolding mpsc_def by blast
  have "mpsc_chain h' q Q"
  proof (rule mpsc_chain_cong [OF Q(1)])
    show "t_in_pool h' t" if "QN t \<in> set Q" for t
      using that assms(5) mpsc_chain_units [OF Q(1)] Q(2) by blast
  qed (simp_all add: assms)
  with Q(2) show ?thesis unfolding mpsc_def by blast
qed

lemma push_list_mpsc_fields:
  "qn_next (push_list p t h) = qn_next h" "p_head (push_list p t h) = p_head h"
  "p_tail (push_list p t h) = p_tail h"
  "t_in_pool (push_list p t h) = (t_in_pool h)(t := True)" "t_removed (push_list p t h) = t_removed h"
  by (simp_all add: push_list_def list_push_def Let_def)

lemma list_unlink_mpsc_fields [simp]:
  "qn_next (list_unlink p t h) = qn_next h" "p_head (list_unlink p t h) = p_head h"
  "p_tail (list_unlink p t h) = p_tail h"
  by (simp_all add: list_unlink_def Let_def)

lemma push_mpsc_list_fields:
  "t_lnext (push_mpsc p t h) = t_lnext h" "t_lprev (push_mpsc p t h) = t_lprev h"
  "p_lhead (push_mpsc p t h) = p_lhead h" "p_ltail (push_mpsc p t h) = p_ltail h"
  by (simp_all add: push_mpsc_def Let_def)

lemma mpsc_popped_list_fields [simp]:
  "t_lnext (mpsc_popped p nx a b T h) = t_lnext h" "t_lprev (mpsc_popped p nx a b T h) = t_lprev h"
  "p_lhead (mpsc_popped p nx a b T h) = p_lhead h" "p_ltail (mpsc_popped p nx a b T h) = p_ltail h"
  by (simp_all add: mpsc_popped_def)

text \<open>The fields a queue operation leaves alone.\<close>

lemma push_keeps [simp]:
  "p_user (push_mpsc p t h) = p_user h" "p_single_consumer (push_mpsc p t h) = p_single_consumer h"
  "p_user (push_list p t h) = p_user h" "p_single_consumer (push_list p t h) = p_single_consumer h"
  "t_pool (push_mpsc p t h) = t_pool h" "t_pool (push_list p t h) = t_pool h"
  by (simp_all add: push_mpsc_def push_list_def list_push_def count_add_def Let_def)

lemma pop_keeps [simp]:
  "p_user (mpsc_popped p nx a b T h) = p_user h"
  "p_single_consumer (mpsc_popped p nx a b T h) = p_single_consumer h"
  "p_user (count_add p d h) = p_user h" "p_single_consumer (count_add p d h) = p_single_consumer h"
  "p_user (list_unlink p t h) = p_user h" "p_single_consumer (list_unlink p t h) = p_single_consumer h"
  by (simp_all add: mpsc_popped_def count_add_def list_unlink_def Let_def)

lemma notify_fold:
  "fold (\<lambda>r. rt (CsdIdleNotify r)) rs h = h\<lparr>rt_calls := rt_calls h @ map CsdIdleNotify rs\<rparr>"
  by (induction rs arbitrary: h) (simp_all add: rt_def)

lemma wake_after_push_trace:
  "wake_after_push p h = h\<lparr>rt_calls := rt_calls h @
     (if p_waiters h p > 0 then [CvNotifyOne p] else []) @
     (if p_nsleepers h p > 0 then map CsdIdleNotify (notify_ranks (p_smask h p)) else [])\<rparr>"
  by (simp add: wake_after_push_def notify_fold rt_def Let_def)

text \<open>Fields outside the queues do not matter to what the pools hold.\<close>

lemma rep_other [simp]:
  "pools_rep (h\<lparr>rt_calls := x0\<rparr>) P V = pools_rep h P V"
  "pools_rep (h\<lparr>t_pool := x1\<rparr>) P V = pools_rep h P V"
  "pools_rep (h\<lparr>t_unit := x2\<rparr>) P V = pools_rep h P V"
  "pools_rep (h\<lparr>t_type := x3\<rparr>) P V = pools_rep h P V"
  "pools_rep (h\<lparr>t_cth := x4\<rparr>) P V = pools_rep h P V"
  "pools_rep (h\<lparr>t_fn := x5\<rparr>) P V = pools_rep h P V"
  "pools_rep (h\<lparr>t_arg := x6\<rparr>) P V = pools_rep h P V"
  "pools_rep (h\<lparr>t_is_task := x7\<rparr>) P V = pools_rep h P V"
  "pools_rep (h\<lparr>t_last_xstream := x8\<rparr>) P V = pools_rep h P V"
  "pools_rep (h\<lparr>t_parent := x9\<rparr>) P V = pools_rep h P V"
  "pools_rep (h\<lparr>t_tstate := x10\<rparr>) P V = pools_rep h P V"
  "pools_rep (h\<lparr>p_waiters := x11\<rparr>) P V = pools_rep h P V"
  "pools_rep (h\<lparr>p_num_blocked := x12\<rparr>) P V = pools_rep h P V"
  "pools_rep (h\<lparr>p_num_scheds := x13\<rparr>) P V = pools_rep h P V"
  "pools_rep (h\<lparr>p_nsleepers := x14\<rparr>) P V = pools_rep h P V"
  "pools_rep (h\<lparr>p_smask := x15\<rparr>) P V = pools_rep h P V"
  "pools_rep (h\<lparr>p_data := x16\<rparr>) P V = pools_rep h P V"
  "pools_rep (h\<lparr>g_units := x17\<rparr>) P V = pools_rep h P V"
  "pools_rep (h\<lparr>g_next_id := x18\<rparr>) P V = pools_rep h P V"
  "pools_rep (h\<lparr>g_num_user_pools := x19\<rparr>) P V = pools_rep h P V"
  "pools_rep (h\<lparr>live := x20\<rparr>) P V = pools_rep h P V"
  "pools_rep (h\<lparr>tls_task := x21\<rparr>) P V = pools_rep h P V"
  "pools_rep (h\<lparr>tls_xstream := x22\<rparr>) P V = pools_rep h P V"
  by (simp_all add: pools_rep_def pool_linked_def mpsc_def mpsc_chain_def dll_def)

lemma view_other [simp]:
  "pools_view (h\<lparr>rt_calls := x0\<rparr>) P V = pools_view h P V"
  "pools_view (h\<lparr>t_pool := x1\<rparr>) P V = pools_view h P V"
  "pools_view (h\<lparr>t_unit := x2\<rparr>) P V = pools_view h P V"
  "pools_view (h\<lparr>t_type := x3\<rparr>) P V = pools_view h P V"
  "pools_view (h\<lparr>t_cth := x4\<rparr>) P V = pools_view h P V"
  "pools_view (h\<lparr>t_fn := x5\<rparr>) P V = pools_view h P V"
  "pools_view (h\<lparr>t_arg := x6\<rparr>) P V = pools_view h P V"
  "pools_view (h\<lparr>t_is_task := x7\<rparr>) P V = pools_view h P V"
  "pools_view (h\<lparr>t_last_xstream := x8\<rparr>) P V = pools_view h P V"
  "pools_view (h\<lparr>t_parent := x9\<rparr>) P V = pools_view h P V"
  "pools_view (h\<lparr>t_tstate := x10\<rparr>) P V = pools_view h P V"
  "pools_view (h\<lparr>p_waiters := x11\<rparr>) P V = pools_view h P V"
  "pools_view (h\<lparr>p_num_blocked := x12\<rparr>) P V = pools_view h P V"
  "pools_view (h\<lparr>p_num_scheds := x13\<rparr>) P V = pools_view h P V"
  "pools_view (h\<lparr>p_nsleepers := x14\<rparr>) P V = pools_view h P V"
  "pools_view (h\<lparr>p_smask := x15\<rparr>) P V = pools_view h P V"
  "pools_view (h\<lparr>p_data := x16\<rparr>) P V = pools_view h P V"
  "pools_view (h\<lparr>g_units := x17\<rparr>) P V = pools_view h P V"
  "pools_view (h\<lparr>g_next_id := x18\<rparr>) P V = pools_view h P V"
  "pools_view (h\<lparr>g_num_user_pools := x19\<rparr>) P V = pools_view h P V"
  "pools_view (h\<lparr>live := x20\<rparr>) P V = pools_view h P V"
  "pools_view (h\<lparr>tls_task := x21\<rparr>) P V = pools_view h P V"
  "pools_view (h\<lparr>tls_xstream := x22\<rparr>) P V = pools_view h P V"
  by (simp_all add: pools_view_def)

definition builtin_push :: "ptr \<Rightarrow> ptr \<Rightarrow> 'a pool_heap_scheme \<Rightarrow> 'a pool_heap_scheme" where
  "builtin_push p t h = (if p_single_consumer h p then push_mpsc p t h else push_list p t h)"

lemma builtin_push_fields:
  "t_in_pool (builtin_push p t h) = (t_in_pool h)(t := True)"
  "t_removed (builtin_push p t h) = t_removed h"
  "p_count (builtin_push p t h) = (p_count h)(p := p_count h p + 1)"
  "p_user (builtin_push p t h) = p_user h"
  "p_single_consumer (builtin_push p t h) = p_single_consumer h"
  "t_pool (builtin_push p t h) = t_pool h"
  by (simp_all add: builtin_push_def push_mpsc_sel push_list_mpsc_fields)
     (simp add: push_list_def)

lemma builtin_push_linked:
  assumes "pool_linked h p xs" "\<not> t_in_pool h t" "\<not> t_removed h t" "t \<noteq> nullptr"
  shows "pool_linked (builtin_push p t h) p (xs @ [t])"
  using assms push_mpsc_mpsc [of h p xs t] push_list_dll [of h p xs t]
  unfolding pool_linked_def builtin_push_fields by (simp add: builtin_push_def)

lemma builtin_push_frame:
  assumes p: "pool_linked h p xs" and q: "pool_linked h q ys" and ne: "p \<noteq> q"
    and dj: "set xs \<inter> set ys = {}" and t: "\<not> t_in_pool h t"
  shows "pool_linked (builtin_push p t h) q ys"
proof (cases "p_single_consumer h p")
  case sp: True
  show ?thesis
  proof (cases "p_single_consumer h q")
    case True
    with sp p q ne dj t show ?thesis
      using push_mpsc_mpsc_frame [of h p xs q ys t] by (simp add: pool_linked_def builtin_push_def)
  next
    case False
    with q have d: "dll h q ys" by (simp add: pool_linked_def)
    then have "t \<notin> set ys" using t by (auto simp: dll_def)
    then have "dll (push_mpsc p t h) q ys"
      by (intro dll_frame [OF d]) (auto simp: push_mpsc_list_fields push_mpsc_sel)
    with sp False show ?thesis by (simp add: pool_linked_def builtin_push_def)
  qed
next
  case sp: False
  show ?thesis
  proof (cases "p_single_consumer h q")
    case False
    with sp p q ne dj t show ?thesis
      using push_list_frame [of h p xs q ys t] by (simp add: pool_linked_def builtin_push_def)
  next
    case True
    with q have m: "mpsc h q ys" by (simp add: pool_linked_def)
    then have "mpsc (push_list p t h) q ys"
      by (rule mpsc_cong) (use mpsc_members [OF m] in \<open>auto simp: push_list_mpsc_fields\<close>)
    with sp True show ?thesis by (simp add: pool_linked_def builtin_push_def)
  qed
qed

lemma pools_rep_push:
  assumes r: "pools_rep h P V" and p: "p \<in> P"
    and t: "\<not> t_in_pool h t" "\<not> t_removed h t" "t \<noteq> nullptr"
  shows "pools_rep (builtin_push p t h) P (V(p := V p @ [t]))"
proof -
  have l: "pool_linked h q (V q)" "\<not> p_user h q"
    "p_count h q = int (length (filter (\<lambda>t. \<not> t_removed h t) (V q)))" if "q \<in> P" for q
    using r that by (auto simp: pools_rep_def)
  have dj: "set (V a) \<inter> set (V b) = {}" if "a \<in> P" "b \<in> P" "a \<noteq> b" for a b
    using r that unfolding pools_rep_def by blast
  have tn: "t \<notin> set (V q)" if "q \<in> P" for q using pool_linked_facts(3) [OF l(1) [OF that]] t(1) by blast
  have "pool_linked (builtin_push p t h) q ((V(p := V p @ [t])) q)" if "q \<in> P" for q
    using builtin_push_linked [OF l(1) [OF p] t] builtin_push_frame [OF l(1) [OF p] l(1) [OF that] _ dj t(1)]
      p that by (cases "q = p") auto
  moreover have "set ((V(p := V p @ [t])) a) \<inter> set ((V(p := V p @ [t])) b) = {}"
    if "a \<in> P" "b \<in> P" "a \<noteq> b" for a b
    using dj [OF that] tn [OF that(1)] tn [OF that(2)] that(3) by (cases "a = p"; cases "b = p") auto
  ultimately show ?thesis using l t(2) by (auto simp: pools_rep_def builtin_push_fields)
qed

definition builtin_pop :: "'a pool_heap_scheme env \<Rightarrow> ptr \<Rightarrow> 'a pool_heap_scheme \<Rightarrow>
    (ptr \<times> 'a pool_heap_scheme) option" where
  "builtin_pop E p h =
     (if p_single_consumer h p then pop_mpsc (pool_push E p) (pinned_elsewhere E h) p h
      else Some (pop_list (pinned_elsewhere E h) p h))"

text \<open>
  What one pop does to a pool that links \<open>xs\<close>: \<open>zs\<close> is \<open>xs\<close> without the removed units in front.
\<close>

definition pop_outcome :: "ptr \<Rightarrow> ptr list \<Rightarrow> ptr list \<Rightarrow> 'a pool_heap_scheme \<Rightarrow> 'a pool_heap_scheme \<Rightarrow> bool" where
  "pop_outcome p xs zs h h' \<longleftrightarrow>
     pool_linked h' p (tl zs) \<and>
     (\<forall>q ys. q \<noteq> p \<longrightarrow> pool_linked h q ys \<longrightarrow> set xs \<inter> set ys = {} \<longrightarrow> pool_linked h' q ys) \<and>
     (\<forall>u. t_in_pool h' u \<longleftrightarrow>
        t_in_pool h u \<and> u \<notin> set (takeWhile (t_removed h) xs) \<and> (zs = [] \<or> u \<noteq> hd zs)) \<and>
     (\<forall>u. t_removed h' u \<longleftrightarrow> t_removed h u \<and> u \<notin> set (takeWhile (t_removed h) xs)) \<and>
     p_count h' = (p_count h)(p := p_count h p - (if zs = [] then 0 else 1)) \<and>
     p_user h' = p_user h \<and> p_single_consumer h' = p_single_consumer h \<and> t_pool h' = t_pool h \<and>
     t_type h' = t_type h \<and> t_cth h' = t_cth h"

lemma pop_mpsc_outcome:
  assumes sc: "p_single_consumer h p" and l: "pool_linked h p xs"
    and zs: "zs = dropWhile (t_removed h) xs" and pin: "zs \<noteq> [] \<Longrightarrow> \<not> pinned (hd zs)"
  shows "\<exists>h'. pop_mpsc repush pinned p h = Some (if zs = [] then nullptr else hd zs, h') \<and>
    pop_outcome p xs zs h h'"
proof -
  have m: "mpsc h p xs" using sc l by (simp add: pool_linked_def)
  then obtain Q where Q: "mpsc_chain h p Q" "xs = unit_nodes p Q" unfolding mpsc_def by blast
  define T where "T = set (takeWhile (t_removed h) xs) \<union> (if zs = [] then {} else {hd zs})"
  obtain nx a b Q' where r:
    "pop_mpsc repush pinned p h =
       Some (if zs = [] then (nullptr, mpsc_popped p nx a b T h)
             else (hd zs, count_add p (-1) (mpsc_popped p nx a b T h)))"
    by (rule pop_mpsc_chain [OF Q zs _ T_def, of pinned repush]) (rule pin)
  define h' where "h' = (if zs = [] then mpsc_popped p nx a b T h
    else count_add p (-1) (mpsc_popped p nx a b T h))"
  have pop: "pop_mpsc repush pinned p h = Some (if zs = [] then nullptr else hd zs, h')"
    using r by (simp add: h'_def)
  from pop_mpsc_mpsc [OF m zs, of pinned repush] pin pop have s:
    "mpsc h' p (tl zs)"
    "\<forall>u. t_in_pool h' u \<longleftrightarrow>
       t_in_pool h u \<and> u \<notin> set (takeWhile (t_removed h) xs) \<and> (zs = [] \<or> u \<noteq> hd zs)"
    "\<forall>u. t_removed h' u \<longleftrightarrow> t_removed h u \<and> u \<notin> set (takeWhile (t_removed h) xs)"
    "\<forall>q ys. q \<noteq> p \<longrightarrow> mpsc h q ys \<longrightarrow> set xs \<inter> set ys = {} \<longrightarrow> mpsc h' q ys" by auto
  have k: "p_count h' = (p_count h)(p := p_count h p - (if zs = [] then 0 else 1))"
    "p_user h' = p_user h" "p_single_consumer h' = p_single_consumer h"
    "t_pool h' = t_pool h" "t_type h' = t_type h" "t_cth h' = t_cth h"
    "t_lnext h' = t_lnext h" "t_lprev h' = t_lprev h" "p_lhead h' = p_lhead h" "p_ltail h' = p_ltail h"
    by (simp_all add: h'_def mpsc_popped_def count_add_def)
  have "pool_linked h' q ys" if q: "q \<noteq> p" "pool_linked h q ys" "set xs \<inter> set ys = {}" for q ys
  proof (cases "p_single_consumer h q")
    case True
    with q s(4) show ?thesis by (simp add: pool_linked_def k)
  next
    case False
    with q have d: "dll h q ys" by (simp add: pool_linked_def)
    have "hd zs \<in> set xs" if "zs \<noteq> []" using that zs by (metis hd_in_set set_dropWhileD)
    then have out: "u \<notin> set (takeWhile (t_removed h) xs)" "zs = [] \<or> u \<noteq> hd zs" if "u \<in> set ys" for u
      using that q(3) by (auto dest: set_takeWhileD)
    have "dll h' q ys" by (rule dll_frame [OF d]) (use s(2,3) out in \<open>auto simp: k\<close>)
    with False show ?thesis by (simp add: pool_linked_def k)
  qed
  then have "pop_outcome p xs zs h h'" unfolding pop_outcome_def
    using s(1-3) sc by (simp add: pool_linked_def k)
  with pop show ?thesis by blast
qed

lemma pop_list_outcome:
  assumes sc: "\<not> p_single_consumer h p" and l: "pool_linked h p xs"
    and zs: "zs = dropWhile (t_removed h) xs" and pin: "zs \<noteq> [] \<Longrightarrow> \<not> pinned (hd zs)"
  shows "\<exists>h'. pop_list pinned p h = (if zs = [] then nullptr else hd zs, h') \<and>
    pop_outcome p xs zs h h'"
proof -
  have d: "dll h p xs" using sc l by (simp add: pool_linked_def)
  have z: "zs = xs" "takeWhile (t_removed h) xs = []" using dll_not_removed [OF d] zs by auto
  have one: "at_most_one (\<lambda>_. False) xs" by (simp add: at_most_one_def)
  define t where "t = (if xs = [] then nullptr else hd xs)"
  have tk: "take_unit (\<lambda>_. False) xs = (t, tl xs)" by (simp add: take_unit_hd t_def)
  define h' where "h' = pop_list_at p t h"
  have pop: "pop_list pinned p h = (t, h')"
    using pop_list_unpinned_head [OF d, of pinned] pop_list_head [OF d one] pin z(1) tk
    by (simp add: h'_def)
  have pop0: "pop_list (\<lambda>_. False) p h = (t, h')" using pop_list_head [OF d one] tk by (simp add: h'_def)
  note s = pop_list_dll [OF d one pop0]
  have tn: "t = nullptr \<longleftrightarrow> xs = []" using hd_nonnull [of xs] dll_facts(2) [OF d] by (auto simp: t_def)
  have k: "p_count h' = (p_count h)(p := p_count h p - (if xs = [] then 0 else 1))"
    "p_user h' = p_user h" "p_single_consumer h' = p_single_consumer h"
    "t_pool h' = t_pool h" "t_type h' = t_type h" "t_cth h' = t_cth h"
    "qn_next h' = qn_next h" "p_head h' = p_head h" "p_tail h' = p_tail h"
    using tn by (simp_all add: h'_def pop_list_at_def count_add_def list_unlink_def Let_def)
  have "pool_linked h' q ys" if q: "q \<noteq> p" "pool_linked h q ys" "set xs \<inter> set ys = {}" for q ys
  proof (cases "p_single_consumer h q")
    case True
    with q have m: "mpsc h q ys" by (simp add: pool_linked_def)
    have "xs \<noteq> [] \<Longrightarrow> hd xs \<notin> set ys" using q(3) hd_in_set by blast
    then have "mpsc h' q ys"
      by (intro mpsc_cong [OF m]) (use mpsc_members [OF m] tn s(4) in \<open>auto simp: k t_def\<close>)
    with True show ?thesis by (simp add: pool_linked_def k)
  next
    case False
    with q s(3) show ?thesis by (simp add: pool_linked_def k)
  qed
  moreover have "\<forall>u. t_in_pool h' u \<longleftrightarrow> t_in_pool h u \<and> (xs = [] \<or> u \<noteq> hd xs)"
    using s(4) tn by (auto simp: t_def)
  ultimately have "pop_outcome p xs zs h h'" unfolding pop_outcome_def z
    using s(2,5) tk sc by (simp add: pool_linked_def k)
  with pop z show ?thesis by (auto simp: t_def)
qed

lemma pools_repD:
  assumes "pools_rep h P V" "p \<in> P"
  shows "pool_linked h p (V p)" "\<not> p_user h p"
    "p_count h p = int (length (filter (\<lambda>t. \<not> t_removed h t) (V p)))"
    "q \<in> P \<Longrightarrow> p \<noteq> q \<Longrightarrow> set (V p) \<inter> set (V q) = {}"
  using assms unfolding pools_rep_def by blast+

lemma pool_pop_outcome:
  assumes "pool_linked h p xs" "\<not> p_user h p" "zs = dropWhile (t_removed h) xs"
    "zs \<noteq> [] \<Longrightarrow> \<not> pinned_elsewhere E h (hd zs)"
  shows "\<exists>h'. pool_pop E p h = Some (if zs = [] then nullptr else hd zs, h') \<and> pop_outcome p xs zs h h'"
proof (cases "p_single_consumer h p")
  case True
  then show ?thesis using pop_mpsc_outcome [of h p xs zs "pinned_elsewhere E h" "pool_push E p"] assms
    by (simp add: pool_pop_def)
next
  case False
  then show ?thesis using pop_list_outcome [of h p xs zs "pinned_elsewhere E h"] assms
    by (simp add: pool_pop_def)
qed

lemma pools_rep_pop:
  assumes r: "pools_rep h P V" and p: "p \<in> P" and zs: "zs = dropWhile (t_removed h) (V p)"
    and out: "pop_outcome p (V p) zs h h'"
  shows "pools_rep h' P (V(p := tl zs))"
proof -
  note l = pools_repD [OF r]
  have o: "pool_linked h' p (tl zs)" "\<And>q. q \<in> P \<Longrightarrow> q \<noteq> p \<Longrightarrow> pool_linked h' q (V q)"
    "\<And>u. t_removed h' u \<longleftrightarrow> t_removed h u \<and> u \<notin> set (takeWhile (t_removed h) (V p))"
    "p_count h' = (p_count h)(p := p_count h p - (if zs = [] then 0 else 1))" "p_user h' = p_user h"
    using out l(1) l(4) [OF p] unfolding pop_outcome_def by metis+
  have sub: "set (tl zs) \<subseteq> set (V p)" using zs by (metis list.set_sel(2) set_dropWhileD subsetI tl_Nil)
  have split: "V p = takeWhile (t_removed h) (V p) @ zs" using zs by simp
  have same: "filter (\<lambda>t. \<not> t_removed h' t) ys = filter (\<lambda>t. \<not> t_removed h t) ys"
    if "set ys \<inter> set (takeWhile (t_removed h) (V p)) = {}" for ys
    using that by (auto simp: o(3) intro!: filter_cong)
  have "filter (\<lambda>t. \<not> t_removed h t) (V p) = filter (\<lambda>t. \<not> t_removed h t) zs"
    by (subst split) (auto simp: filter_empty_conv dest: set_takeWhileD)
  moreover have "zs \<noteq> [] \<Longrightarrow> \<not> t_removed h (hd zs)" using zs hd_dropWhile by metis
  ultimately have cnt: "length (filter (\<lambda>t. \<not> t_removed h t) (V p)) =
      length (filter (\<lambda>t. \<not> t_removed h t) (tl zs)) + (if zs = [] then 0 else 1)" by (cases zs) auto
  have "distinct (takeWhile (t_removed h) (V p) @ zs)" using split pool_linked_facts(1) [OF l(1) [OF p]] by simp
  then have d1: "set (tl zs) \<inter> set (takeWhile (t_removed h) (V p)) = {}" by (cases zs) auto
  have d2: "set (V q) \<inter> set (takeWhile (t_removed h) (V p)) = {}" if "q \<in> P" "q \<noteq> p" for q
    using l(4) [OF that(1) p that(2)] by (auto dest: set_takeWhileD)
  show ?thesis unfolding pools_rep_def
  proof (intro conjI ballI impI)
    fix q assume q: "q \<in> P"
    show "\<not> p_user h' q" "pool_linked h' q ((V(p := tl zs)) q)" using o l(2) q by auto
    show "p_count h' q = int (length (filter (\<lambda>t. \<not> t_removed h' t) ((V(p := tl zs)) q)))"
      using l(3) [OF q] cnt same [OF d1] same [OF d2 [OF q]] by (cases "q = p") (auto simp: o(4))
  next
    fix a b assume "a \<in> P" "b \<in> P" "a \<noteq> b"
    then show "set ((V(p := tl zs)) a) \<inter> set ((V(p := tl zs)) b) = {}"
      using l(4) [of a b] sub by (cases "a = p"; cases "b = p") auto
  qed
qed

lemma filter_dropWhile_neg: "filter (\<lambda>t. \<not> P t) (dropWhile P xs) = filter (\<lambda>t. \<not> P t) xs"
  by (induction xs) auto

lemma pop_outcome_filter:
  assumes r: "pools_rep h P V" and p: "p \<in> P" and zs: "zs = dropWhile (t_removed h) (V p)"
    and out: "pop_outcome p (V p) zs h h'" and q: "q \<in> P"
  shows "filter (\<lambda>t. \<not> t_removed h' t) ((V(p := tl zs)) q) = filter (\<lambda>t. \<not> t_removed h t) ((V(p := tl zs)) q)"
proof -
  let ?D = "set (takeWhile (t_removed h) (V p))"
  have "t_removed h' u \<longleftrightarrow> t_removed h u \<and> u \<notin> ?D" for u using out unfolding pop_outcome_def by blast
  moreover have "set ((V(p := tl zs)) q) \<inter> ?D = {}"
  proof (cases "q = p")
    case True
    have "distinct (takeWhile (t_removed h) (V p) @ zs)"
      using zs pool_linked_facts(1) [OF pools_repD(1) [OF r p]] by simp
    with True show ?thesis by (cases zs) auto
  next
    case False
    with pools_repD(4) [OF r q p] show ?thesis by (auto dest: set_takeWhileD)
  qed
  ultimately show ?thesis by (auto intro!: filter_cong)
qed

lemma filter_mark:
  "distinct xs \<Longrightarrow> filter (\<lambda>u. \<not> (f(t := True)) u) xs = remove1 t (filter (\<lambda>u. \<not> f u) xs)"
  by (induction xs) (auto simp: remove1_idem)

lemma remove_mpsc_linked:
  assumes "pool_linked h q ys" "p_single_consumer h q \<or> t \<notin> set ys"
  shows "pool_linked (count_add p d (h\<lparr>t_removed := (t_removed h)(t := True)\<rparr>)) q ys"
  using assms by (auto simp: pool_linked_def mpsc_def mpsc_chain_def dll_def count_add_def)

lemma remove_list_linked:
  assumes d: "dll h p xs" and t: "t \<in> set xs" and q: "pool_linked h q ys" "q \<noteq> p" "set xs \<inter> set ys = {}"
  shows "pool_linked (remove_list p t h) q ys"
proof -
  from t obtain as bs where ab: "xs = as @ t # bs" using split_list by metis
  have tn: "t \<notin> set ys" using t q(3) by auto
  have sc: "p_single_consumer (remove_list p t h) = p_single_consumer h"
    by (simp add: remove_list_def list_unlink_def count_add_def Let_def)
  show ?thesis
  proof (cases "p_single_consumer h q")
    case True
    with q have m: "mpsc h q ys" by (simp add: pool_linked_def)
    have "mpsc (remove_list p t h) q ys"
      by (rule mpsc_cong [OF m]) (use mpsc_members [OF m] tn in \<open>auto simp: remove_list_def Let_def\<close>)
    with True show ?thesis by (simp add: pool_linked_def sc)
  next
    case False
    with q have "dll h q ys" by (simp add: pool_linked_def)
    then have "dll (list_unlink p t h) q ys" using list_unlink_frame [of h p as t bs q ys] d ab q by simp
    then have "dll (remove_list p t h) q ys"
      unfolding remove_list_def Let_def dll_count_add using tn by (rule dll_in_pool_False)
    with False show ?thesis by (simp add: pool_linked_def sc)
  qed
qed

text \<open>After a removal the pool holds the same units without the removed one.\<close>

lemma pools_rep_remove_mpsc:
  assumes r: "pools_rep h P V" and p: "p \<in> P" and sc: "p_single_consumer h p"
    and t: "t \<in> set (V p)" "\<not> t_removed h t"
  defines "h' \<equiv> count_add p (-1) (h\<lparr>t_removed := (t_removed h)(t := True)\<rparr>)"
  shows "pools_rep h' P V" "q \<in> P \<Longrightarrow>
    filter (\<lambda>u. \<not> t_removed h' u) (V q) = remove1 t (filter (\<lambda>u. \<not> t_removed h u) (V q))"
proof -
  note l = pools_repD [OF r]
  have mark: "filter (\<lambda>u. \<not> t_removed h' u) (V q) = remove1 t (filter (\<lambda>u. \<not> t_removed h u) (V q))"
    if "q \<in> P" for q
    using filter_mark [OF pool_linked_facts(1) [OF l(1) [OF that]]] by (simp add: h'_def count_add_def)
  then show "q \<in> P \<Longrightarrow>
    filter (\<lambda>u. \<not> t_removed h' u) (V q) = remove1 t (filter (\<lambda>u. \<not> t_removed h u) (V q))" .
  have other: "t \<notin> set (V q)" if "q \<in> P" "q \<noteq> p" for q using l(4) [OF p that(1)] that(2) t(1) by blast
  have len: "int (length (remove1 t (filter (\<lambda>u. \<not> t_removed h u) (V p)))) =
      int (length (filter (\<lambda>u. \<not> t_removed h u) (V p))) - 1"
    using t by (intro length_remove1_int) simp
  show "pools_rep h' P V" unfolding pools_rep_def
  proof (intro conjI ballI impI)
    fix q assume q: "q \<in> P"
    show "\<not> p_user h' q" using l(2) [OF q] by (simp add: h'_def count_add_def)
    show "pool_linked h' q (V q)" unfolding h'_def
      using remove_mpsc_linked [OF l(1) [OF q]] sc other [OF q] by metis
    show "p_count h' q = int (length (filter (\<lambda>t. \<not> t_removed h' t) (V q)))" unfolding mark [OF q]
      using l(3) [OF q] len other [OF q] by (cases "q = p") (auto simp: h'_def count_add_def remove1_idem)
  next
    fix a b assume "a \<in> P" "b \<in> P" "a \<noteq> b"
    then show "set (V a) \<inter> set (V b) = {}" by (rule l(4))
  qed
qed

lemma pools_rep_remove_list:
  assumes r: "pools_rep h P V" and p: "p \<in> P" and sc: "\<not> p_single_consumer h p"
    and t: "t \<in> set (V p)"
  defines "h' \<equiv> remove_list p t h"
  shows "pools_rep h' P (V(p := remove1 t (V p)))"
proof -
  note l = pools_repD [OF r]
  have d: "dll h p (V p)" using l(1) [OF p] sc by (simp add: pool_linked_def)
  have k: "t_removed h' = t_removed h" "p_user h' = p_user h" "p_single_consumer h' = p_single_consumer h"
    "p_count h' = (p_count h)(p := p_count h p - 1)"
    by (simp_all add: h'_def remove_list_def list_unlink_def count_add_def Let_def)
  have "\<not> t_removed h t" using d t by (simp add: dll_def)
  then have "int (length (filter (\<lambda>u. \<not> t_removed h u) (remove1 t (V p)))) =
      int (length (filter (\<lambda>u. \<not> t_removed h u) (V p))) - 1"
    using t length_remove1_int [of t "filter (\<lambda>u. \<not> t_removed h u) (V p)"] by (simp add: filter_remove1)
  moreover have "pool_linked h' q ((V(p := remove1 t (V p))) q)" if q: "q \<in> P" for q
    using remove_list_dll [OF d t] remove_list_linked [OF d t l(1) [OF q]] l(4) [OF p q] sc
    by (cases "q = p") (auto simp: pool_linked_def k h'_def [symmetric])
  moreover have "set ((V(p := remove1 t (V p))) a) \<inter> set ((V(p := remove1 t (V p))) b) = {}"
    if "a \<in> P" "b \<in> P" "a \<noteq> b" for a b
    using l(4) [of a b] that set_remove1_subset [of t "V p"] by (cases "a = p"; cases "b = p") auto
  ultimately show ?thesis using l(2,3) p unfolding pools_rep_def by (auto simp: k)
qed

text \<open>A new pool is empty, and creating it touches no other pool.\<close>

lemma create_frame:
  assumes "pool_linked h q ys" "q \<noteq> p"
  shows "pool_linked (ABTI_pool_create_builtin p k a b h) q ys"
proof (cases "p_single_consumer h q")
  case True
  with assms(1) obtain Q where Q: "mpsc_chain h q Q" "ys = unit_nodes q Q" by (auto simp: pool_linked_def mpsc_def)
  have "mpsc_chain (ABTI_pool_create_builtin p k a b h) q Q"
  proof (rule mpsc_chain_cong [OF Q(1)])
    fix n assume "n \<in> set Q"
    then have "n \<noteq> Stub p" using mpsc_chain_other [OF Q(1), of p] assms(2) by auto
    then show "qn_next (ABTI_pool_create_builtin p k a b h) n = qn_next h n"
      by (simp add: ABTI_pool_create_builtin_def fresh_id_def pool_new_def pool_queue_init_def)
  qed (use assms(2) in \<open>simp_all add: ABTI_pool_create_builtin_def fresh_id_def pool_new_def pool_queue_init_def\<close>)
  with Q(2) True assms(2) show ?thesis
    by (auto simp: pool_linked_def mpsc_def ABTI_pool_create_builtin_def fresh_id_def pool_new_def pool_queue_init_def)
next
  case False
  with assms show ?thesis
    by (simp add: pool_linked_def dll_def ABTI_pool_create_builtin_def fresh_id_def pool_new_def pool_queue_init_def)
qed

lemma create_linked: "pool_linked (ABTI_pool_create_builtin p k a b h) p []"
  unfolding pool_linked_def mpsc_def dll_def
  by (auto intro!: exI [of _ "[Stub p]"]
      simp: mpsc_chain_def ABTI_pool_create_builtin_def fresh_id_def pool_new_def pool_queue_init_def)

lemma pools_rep_create:
  assumes r: "pools_rep h P V" and p: "p \<notin> P"
  shows "pools_rep (ABTI_pool_create_builtin p k a b h) (insert p P) (V(p := []))"
proof -
  let ?h = "ABTI_pool_create_builtin p k a b h"
  note l = pools_repD [OF r]
  have f: "p_user ?h = (p_user h)(p := False)" "p_count ?h = (p_count h)(p := 0)" "t_removed ?h = t_removed h"
    by (simp_all add: ABTI_pool_create_builtin_def fresh_id_def pool_new_def pool_queue_init_def)
  have "pool_linked ?h q ((V(p := [])) q)" if "q \<in> insert p P" for q
    using that create_linked create_frame [OF l(1)] p by (cases "q = p") auto
  moreover have "set ((V(p := [])) a) \<inter> set ((V(p := [])) b) = {}"
    if "a \<in> insert p P" "b \<in> insert p P" "a \<noteq> b" for a b
    using l(4) that by (cases "a = p"; cases "b = p") auto
  ultimately show ?thesis using l(2,3) unfolding pools_rep_def by (auto simp: f)
qed

lemma pools_view_create:
  "pools_view h P L \<Longrightarrow> p \<notin> P \<Longrightarrow>
   pools_view (ABTI_pool_create_builtin p k a b h) (insert p P) (L(p := []))"
proof -
  assume v: "pools_view h P L" and p: "p \<notin> P"
  then obtain V where V: "pools_rep h P V" "\<forall>p\<in>P. L p = filter (\<lambda>t. \<not> t_removed h t) (V p)"
    unfolding pools_view_def by blast
  have "t_removed (ABTI_pool_create_builtin p k a b h) = t_removed h"
    by (simp add: ABTI_pool_create_builtin_def fresh_id_def pool_new_def pool_queue_init_def)
  with pools_rep_create [OF V(1) p] V(2) p show ?thesis unfolding pools_view_def
    by (intro exI [of _ "V(p := [])"]) auto
qed

lemma pools_view_cong: "pools_view h P L \<Longrightarrow> \<forall>p\<in>P. L' p = L p \<Longrightarrow> pools_view h P L'"
  by (auto simp: pools_view_def)

lemma pools_view_empty: "pools_view h {} L"
  by (auto simp: pools_view_def pools_rep_def)

lemma pools_view_wake: "pools_view (wake_after_push p h) P L = pools_view h P L"
  by (simp add: wake_after_push_trace)

lemma wake_in_pool: "t_in_pool (wake_after_push p h) = t_in_pool h"
  by (simp add: wake_after_push_trace)

lemma pools_view_nonnull: "pools_view h P L \<Longrightarrow> p \<in> P \<Longrightarrow> nullptr \<notin> set (L p)"
  using pool_linked_facts(2) by (fastforce simp: pools_view_def pools_rep_def)

lemma pools_view_size: "pools_view h P L \<Longrightarrow> p \<in> P \<Longrightarrow> pool_size E p h = length (L p)"
  by (auto simp: pools_view_def pools_rep_def pool_size_def builtin_size_def)

lemma pool_push_builtin:
  "\<not> p_user h p \<Longrightarrow> pool_push E p t h =
     (if t_in_pool h t then None else Some (wake_after_push p (builtin_push p t h)))"
  by (simp add: pool_push_def builtin_push_def)


subsection \<open>A concrete process\<close>

text \<open>A process before any object exists, on PE 0, for evaluating the definitions.\<close>

definition no_def :: ABT_pool_def where
  "no_def = \<lparr>def_access = ABT_POOL_ACCESS_MPMC, u_create_from_thread = nullptr, u_free = nullptr,
     p_init = nullptr, p_get_size = nullptr, p_push = nullptr, p_pop = nullptr,
     p_pop_timedwait = nullptr, p_remove = nullptr, p_free = nullptr, p_print_all = nullptr\<rparr>"

definition heap0 :: pool_heap where
  "heap0 = \<lparr>qn_next = (\<lambda>_. None), t_lprev = (\<lambda>_. nullptr), t_lnext = (\<lambda>_. nullptr),
     t_in_pool = (\<lambda>_. False), t_removed = (\<lambda>_. False), p_tail = Stub, p_head = Stub,
     p_lhead = (\<lambda>_. nullptr), p_ltail = (\<lambda>_. nullptr), p_count = (\<lambda>_. 0),
     p_access = (\<lambda>_. ABT_POOL_ACCESS_MPMC), p_kind = (\<lambda>_. ABT_POOL_FIFO), p_automatic = (\<lambda>_. False),
     p_id = (\<lambda>_. 0), p_user = (\<lambda>_. False), p_def = (\<lambda>_. no_def), p_data = (\<lambda>_. nullptr),
     p_single_consumer = (\<lambda>_. False), p_waiters = (\<lambda>_. 0), p_num_blocked = (\<lambda>_. 0),
     p_num_scheds = (\<lambda>_. 0), p_nsleepers = (\<lambda>_. 0), p_smask = (\<lambda>_. smask_init),
     t_cth = (\<lambda>_. nullptr), t_pool = (\<lambda>_. nullptr), t_unit = (\<lambda>_. ABT_UNIT_NULL),
     t_type = (\<lambda>_. ABTI_THREAD_NAMED), t_fn = (\<lambda>_. nullptr), t_arg = (\<lambda>_. nullptr),
     t_is_task = (\<lambda>_. False), t_last_xstream = (\<lambda>_. nullptr), t_parent = (\<lambda>_. nullptr),
     t_tstate = (\<lambda>_. CTH_STATE_READY), g_initialized = True, g_next_id = 1, g_num_user_pools = 0,
     g_units = Map.empty, live = {}, tls_xstream = nullptr, tls_task = nullptr,
     cth_userdata = (\<lambda>_. nullptr), rt_calls = []\<rparr>"

definition env0 :: "'s env" where
  "env0 = \<lparr>CmiMyRank = 0, CmiIsPeThread = True, CthSelf = nullptr, CthGetHomeRank = (\<lambda>_. 0),
     CthIsPeMainThread = (\<lambda>_. False), CthGetSchedulingThread = nullptr, CmiWallTimer = 0, pthread_self = 0,
     CthGetState = (\<lambda>_ _. CTH_STATE_READY), CthClaimReady = (\<lambda>_ h. (True, h)),
     CthAwakenIfBlocked = (\<lambda>_ h. Some (False, h)), CthSuspendBlocked = (\<lambda>h. h), CthYield = (\<lambda>h. h),
     sched_yield = (\<lambda>h. h), CsdIdleWait = (\<lambda>h. h), resume_thread = (\<lambda>_ h. h),
     others_during_wait = (\<lambda>h. h), random_value = (\<lambda>_. 0),
     call_u_create = (\<lambda>_ t h. (t, h)), call_u_free = (\<lambda>_ _ h. h), call_p_init = (\<lambda>_ _ _ h. (ABT_SUCCESS, h)),
     call_p_get_size = (\<lambda>_ _ _. 0), call_p_push = (\<lambda>_ _ _ h. h), call_p_pop = (\<lambda>_ _ h. (nullptr, h)),
     call_p_pop_timedwait = (\<lambda>_ _ _ h. (nullptr, h)), call_p_remove = (\<lambda>_ _ _ h. h),
     call_p_free = (\<lambda>_ _ h. h), call_p_print_all = (\<lambda>_ _ _ _ h. h), call_print_fn = (\<lambda>_ _ _ h. h),
     call_fn = (\<lambda>_ _ h. h), call_s_init = (\<lambda>_ _ _ h. (ABT_SUCCESS, h)), call_s_run = (\<lambda>_ _ h. h),
     call_s_free = (\<lambda>_ _ h. h)\<rparr>"

text \<open>Two pools, of an MPSC and of an MPMC access mode.\<close>

definition heap2 :: pool_heap where
  "heap2 = ABTI_pool_create_builtin 512 ABT_POOL_FIFO ABT_POOL_ACCESS_MPMC False
             (ABTI_pool_create_builtin 256 ABT_POOL_FIFO ABT_POOL_ACCESS_MPSC False heap0)"

lemma heap2_view: "pools_view heap2 {512, 256} (\<lambda>_. [])"
proof -
  have "pools_view heap2 (insert 512 (insert 256 {})) ((\<lambda>_. [])(256 := [], 512 := []))"
    unfolding heap2_def by (intro pools_view_create pools_view_empty) simp_all
  then show ?thesis by (rule pools_view_cong) simp
qed

lemma heap2_flags: "t_in_pool heap2 = (\<lambda>_. False)" "t_removed heap2 = (\<lambda>_. False)"
    "t_type heap2 = (\<lambda>_. ABTI_THREAD_NAMED)" "t_pool heap2 = (\<lambda>_. nullptr)"
  by (simp_all add: heap2_def heap0_def ABTI_pool_create_builtin_def fresh_id_def pool_new_def pool_queue_init_def)

text \<open>The same with units queued: two in the MPSC pool, one in the MPMC pool.\<close>

definition heap3 :: pool_heap where
  "heap3 = builtin_push 512 1536 (builtin_push 256 1280 (builtin_push 256 1024
     (heap2\<lparr>t_pool := (\<lambda>_. nullptr)(1024 := 256, 1280 := 256, 1536 := 512)\<rparr>)))"

definition view3 :: "ptr \<Rightarrow> ptr list" where
  "view3 = (\<lambda>_. [])(256 := [1024, 1280], 512 := [1536])"

lemma heap3_flags: "t_removed heap3 = (\<lambda>_. False)" "t_type heap3 = (\<lambda>_. ABTI_THREAD_NAMED)"
  "t_pool heap3 = (\<lambda>_. nullptr)(1024 := 256, 1280 := 256, 1536 := 512)"
  "t_in_pool heap3 = (\<lambda>_. False)(1024 := True, 1280 := True, 1536 := True)"
  "p_single_consumer heap3 256" "\<not> p_single_consumer heap3 512" "\<not> p_user heap3 p"
  by (simp_all add: heap3_def builtin_push_fields heap2_flags)
     (simp_all add: builtin_push_def push_mpsc_def push_list_def list_push_def count_add_def Let_def heap2_def heap0_def
        ABTI_pool_create_builtin_def fresh_id_def pool_new_def pool_queue_init_def)

lemma heap3_view: "pools_view heap3 {512, 256} view3"
proof -
  let ?h = "heap2\<lparr>t_pool := (\<lambda>_. nullptr)(1024 := 256, 1280 := 256, 1536 := 512)\<rparr>"
  have "pools_rep heap2 {512, 256} (\<lambda>_. [])"
    using heap2_view by (auto simp: pools_view_def pools_rep_def heap2_flags)
  then have "pools_rep ?h {512, 256} (\<lambda>_. [])" by simp
  then have "pools_rep (builtin_push 256 1024 ?h) {512, 256} ((\<lambda>_. [])(256 := [1024]))"
    using pools_rep_push [of ?h "{512, 256}" "\<lambda>_. []" 256 1024] by (simp add: heap2_flags)
  then have "pools_rep (builtin_push 256 1280 (builtin_push 256 1024 ?h)) {512, 256} ((\<lambda>_. [])(256 := [1024, 1280]))"
    using pools_rep_push [of "builtin_push 256 1024 ?h" "{512, 256}" "(\<lambda>_. [])(256 := [1024])" 256 1280]
    by (simp add: heap2_flags builtin_push_fields)
  then have "pools_rep heap3 {512, 256} view3" unfolding heap3_def view3_def
    using pools_rep_push [of "builtin_push 256 1280 (builtin_push 256 1024 ?h)" "{512, 256}" "(\<lambda>_. [])(256 := [1024, 1280])" 512 1536]
    by (simp add: heap2_flags builtin_push_fields)
  then show ?thesis unfolding pools_view_def by (intro exI conjI, assumption) (simp add: heap3_flags)
qed


subsection \<open>What pools guarantee\<close>

text \<open>
  C5. \<^verbatim>\<open>push\<close> on a built-in pool implements appending to a sequence: whatever the access mode, a unit
  that is in no pool goes to the end of the pool's sequence, every other pool stays as it was, and
  pushing a unit that is still queued aborts the process instead of corrupting the links.
\<close>

theorem pool_push_refines:
  assumes "pools_view h P L" "p \<in> P" "t \<noteq> nullptr" "\<not> t_removed h t"
  shows "(t_in_pool h t \<longrightarrow> pool_push E p t h = None) \<and>
    (\<not> t_in_pool h t \<longrightarrow>
       (\<exists>h'. pool_push E p t h = Some h' \<and> pools_view h' P (L(p := L p @ [t])) \<and> t_in_pool h' t))"
proof -
  obtain V where V: "pools_rep h P V" "\<forall>p\<in>P. L p = filter (\<lambda>t. \<not> t_removed h t) (V p)"
    using assms(1) unfolding pools_view_def by blast
  note push = pool_push_builtin [OF pools_repD(2) [OF V(1) assms(2)], of E t]
  have "pools_view (builtin_push p t h) P (L(p := L p @ [t]))" if "\<not> t_in_pool h t"
    using pools_rep_push [OF V(1) assms(2) that assms(4,3)] V(2) assms(2,4) unfolding pools_view_def
    by (intro exI [of _ "V(p := V p @ [t])"]) (auto simp: builtin_push_fields)
  then show ?thesis unfolding push using pools_view_wake [of p "builtin_push p t h"] wake_in_pool [of p "builtin_push p t h"]
    by (auto simp: builtin_push_fields)
qed

theorem pool_push_refines_witness:
  "\<exists>h'. pool_push env0 256 1024 heap2 = Some h' \<and> pools_view h' {512, 256} ((\<lambda>_. [])(256 := [1024])) \<and>
     pool_push env0 512 1024 h' = None"
proof -
  from pool_push_refines [OF heap2_view, of 256 1024 env0] obtain h' where
    h': "pool_push env0 256 1024 heap2 = Some h'" "pools_view h' {512, 256} ((\<lambda>_. [])(256 := [1024]))" "t_in_pool h' 1024"
    by (auto simp: heap2_flags)
  moreover have "\<not> t_removed h' 1024"
    using h'(1) by (auto simp: pool_push_def heap2_def heap0_def ABTI_pool_create_builtin_def fresh_id_def
        pool_new_def pool_queue_init_def push_mpsc_def count_add_def wake_after_push_trace Let_def)
  ultimately have "pool_push env0 512 1024 h' = None"
    using pool_push_refines [OF h'(2), of 512 1024 env0] by simp
  with h' show ?thesis by blast
qed

lemma pool_pop_view:
  assumes "pools_view h P L" "p \<in> P" "L p \<noteq> [] \<Longrightarrow> \<not> pinned_elsewhere E h (hd (L p))"
  shows "\<exists>h'. pool_pop E p h = Some (if L p = [] then nullptr else hd (L p), h') \<and>
    pools_view h' P (L(p := tl (L p))) \<and> (L p \<noteq> [] \<longrightarrow> \<not> t_in_pool h' (hd (L p)))"
proof -
  obtain V where V: "pools_rep h P V" "\<forall>p\<in>P. L p = filter (\<lambda>t. \<not> t_removed h t) (V p)"
    using assms(1) unfolding pools_view_def by blast
  define zs where "zs = dropWhile (t_removed h) (V p)"
  have L: "L p = filter (\<lambda>t. \<not> t_removed h t) zs" using V(2) assms(2) filter_dropWhile_neg
    unfolding zs_def by metis
  have hz: "zs \<noteq> [] \<Longrightarrow> \<not> t_removed h (hd zs)" using hd_dropWhile unfolding zs_def by metis
  then have e: "L p = [] \<longleftrightarrow> zs = []" "zs \<noteq> [] \<Longrightarrow> hd (L p) = hd zs" "tl (L p) = filter (\<lambda>t. \<not> t_removed h t) (tl zs)"
    unfolding L by (cases zs; simp)+
  from pool_pop_outcome [OF pools_repD(1,2) [OF V(1) assms(2)] zs_def, of E] assms(3) e obtain h' where
    h': "pool_pop E p h = Some (if zs = [] then nullptr else hd zs, h')" "pop_outcome p (V p) zs h h'" by auto
  note rep = pools_rep_pop [OF V(1) assms(2) zs_def h'(2)]
  have "(L(p := tl (L p))) q = filter (\<lambda>t. \<not> t_removed h' t) ((V(p := tl zs)) q)" if "q \<in> P" for q
    using pop_outcome_filter [OF V(1) assms(2) zs_def h'(2) that] V(2) that e(3) by (cases "q = p") auto
  with rep have "pools_view h' P (L(p := tl (L p)))" unfolding pools_view_def by metis
  moreover have "zs \<noteq> [] \<longrightarrow> \<not> t_in_pool h' (hd zs)" using h'(2) unfolding pop_outcome_def by blast
  ultimately show ?thesis using h'(1) e by auto
qed

text \<open>
  C4. \<^verbatim>\<open>pop\<close> on a built-in pool implements taking the first element: it returns the oldest unit that
  was not removed, or null exactly when there is none, leaves the rest in order, marks the unit as
  out of the pool, and touches no other pool.  (For units any PE may run; the primary ULT is the
  exception the next property covers.)
\<close>

theorem pool_pop_refines:
  assumes "pools_view h P L" "p \<in> P" "L p \<noteq> [] \<Longrightarrow> \<not> pinned_elsewhere E h (hd (L p))"
  shows "\<exists>h'. pool_pop E p h = Some (if L p = [] then nullptr else hd (L p), h') \<and>
    pools_view h' P (L(p := tl (L p))) \<and> (L p \<noteq> [] \<longrightarrow> \<not> t_in_pool h' (hd (L p)))"
  using assms by (rule pool_pop_view)

theorem pool_pop_refines_witness:
  "\<exists>h'. pool_pop env0 256 heap3 = Some (1024, h') \<and> pools_view h' {512, 256} (view3(256 := [1280]))"
proof -
  have "\<not> pinned_elsewhere env0 heap3 1024" by (simp add: pinned_elsewhere_def heap3_flags)
  with pool_pop_refines [OF heap3_view, of 256 env0] show ?thesis by (auto simp: view3_def)
qed

text \<open>
  C26. \<^verbatim>\<open>ABT_pool_remove\<close> (\<^verbatim>\<open>remove_unit\<close>) on a built-in pool implements removal from the sequence in
  both queues: from anywhere in the list by unlinking, from the MPSC queue by marking the node; either
  way the unit is gone from what the pool holds, the size drops by one and nothing else changes.
\<close>

theorem pool_remove_refines:
  assumes "pools_view h P L" "p \<in> P" "t \<in> set (L p)" "t_pool h t = p"
  shows "\<exists>h'. remove_unit p t h = (True, h') \<and> pools_view h' P (L(p := remove1 t (L p))) \<and>
    pool_size E p h' = pool_size E p h - 1"
proof -
  obtain V where V: "pools_rep h P V" "\<forall>p\<in>P. L p = filter (\<lambda>t. \<not> t_removed h t) (V p)"
    using assms(1) unfolding pools_view_def by blast
  note l = pools_repD [OF V(1)]
  have t: "t \<in> set (V p)" "\<not> t_removed h t" using assms(2,3) V(2) by auto
  have mem: "t_in_pool h t" by (rule pool_linked_facts(3) [OF l(1) [OF assms(2)] t(1)])
  have other: "remove1 t (L q) = L q" if "q \<in> P" "q \<noteq> p" for q
    using l(4) [OF assms(2) that(1)] that t(1) V(2) by (auto intro!: remove1_idem)
  define h' where "h' = snd (remove_unit p t h)"
  have hit: "remove_unit p t h = (True, h')"
    using mem t(2) assms(4) by (simp add: h'_def remove_unit_def remove_mpsc_def)
  have view: "pools_view h' P (\<lambda>q. remove1 t (L q))"
  proof (cases "p_single_consumer h p")
    case True
    have h': "h' = count_add p (-1) (h\<lparr>t_removed := (t_removed h)(t := True)\<rparr>)"
      using True mem t(2) assms(4) by (simp add: h'_def remove_unit_def remove_mpsc_def)
    show ?thesis using pools_rep_remove_mpsc [OF V(1) assms(2) True t] V(2)
      unfolding h' [symmetric] pools_view_def by metis
  next
    case False
    have h': "h' = remove_list p t h" using False mem assms(4) by (simp add: h'_def remove_unit_def)
    have "t_removed h' = t_removed h"
      by (simp add: h' remove_list_def list_unlink_def count_add_def Let_def)
    then have "remove1 t (L q) = filter (\<lambda>u. \<not> t_removed h' u) ((V(p := remove1 t (V p))) q)" if "q \<in> P" for q
      using V(2) that other [OF that] by (cases "q = p") (auto simp: filter_remove1)
    then show ?thesis using pools_rep_remove_list [OF V(1) assms(2) False t(1)]
      unfolding h' [symmetric] pools_view_def by metis
  qed
  then have "pools_view h' P (L(p := remove1 t (L p)))" by (rule pools_view_cong) (use other in auto)
  moreover have "pool_size E p h' = length (remove1 t (L p))" by (rule pools_view_size [OF view assms(2)])
  moreover have "pool_size E p h = length (L p)" by (rule pools_view_size [OF assms(1,2)])
  ultimately show ?thesis using hit assms(3) by (simp add: length_remove1)
qed

theorem pool_remove_refines_witness:
  "\<exists>h'. remove_unit 256 1280 heap3 = (True, h') \<and> pools_view h' {512, 256} (view3(256 := [1024])) \<and>
     pool_size env0 256 h' = 1"
proof -
  have s: "pool_size env0 256 heap3 = 2" by (simp add: pools_view_size [OF heap3_view] view3_def)
  from pool_remove_refines [OF heap3_view, of 256 1280 env0] obtain h' where
    "remove_unit 256 1280 heap3 = (True, h')" "pools_view h' {512, 256} (view3(256 := remove1 1280 (view3 256)))"
    "pool_size env0 256 h' = pool_size env0 256 heap3 - 1" by (auto simp: heap3_flags view3_def)
  with s show ?thesis by (auto simp: view3_def)
qed

text \<open>The primary ULT in front: the list passes over it, the MPSC queue re-queues it.\<close>

lemma pop_list_pinned:
  assumes r: "pools_rep h P V" and p: "p \<in> P" and sc: "\<not> p_single_consumer h p"
    and one: "at_most_one (pinned_elsewhere E h) (V p)"
  defines "t \<equiv> fst (take_unit (pinned_elsewhere E h) (V p))"
  shows "pool_pop E p h = Some (t, if t = nullptr then h else remove_list p t h)"
    "t \<noteq> nullptr \<Longrightarrow> t \<in> set (V p) \<and> \<not> pinned_elsewhere E h t"
proof -
  have d: "dll h p (V p)" using pools_repD(1) [OF r p] sc by (simp add: pool_linked_def)
  have "pop_list (pinned_elsewhere E h) p h = (t, pop_list_at p t h)"
    using pop_list_head [OF d one] by (simp add: t_def)
  moreover have "pop_list_at p t h = (if t = nullptr then h else remove_list p t h)"
    by (simp add: pop_list_at_def remove_list_def Let_def)
  ultimately show "pool_pop E p h = Some (t, if t = nullptr then h else remove_list p t h)"
    using pools_repD(2) [OF r p] sc by (simp add: pool_pop_def)
  show "t \<noteq> nullptr \<Longrightarrow> t \<in> set (V p) \<and> \<not> pinned_elsewhere E h t"
    using take_unit_found [of "pinned_elsewhere E h" "V p" t "snd (take_unit (pinned_elsewhere E h) (V p))"]
    unfolding t_def by (metis in_set_conv_decomp prod.collapse)
qed

lemma pop_mpsc_repush:
  assumes "pop_mpsc repush (\<lambda>_. False) p h = Some (t, h')" "t \<noteq> nullptr" "pinned t"
  shows "pop_mpsc repush pinned p h = do { h'' \<leftarrow> repush t h'; Some (nullptr, h'') }"
  using assms by (cases "pop_mpsc_loop p h") (auto simp: pop_mpsc_def Let_def split: if_splits)

lemma pop_mpsc_pinned:
  assumes r: "pools_rep h P V" and p: "p \<in> P" and sc: "p_single_consumer h p"
    and zs: "zs = dropWhile (t_removed h) (V p)" "zs \<noteq> []" and pin: "pinned_elsewhere E h (hd zs)"
  shows "\<exists>h'. pool_pop E p h = Some (nullptr, h') \<and> pools_rep h' P (V(p := tl zs @ [hd zs])) \<and>
    (\<forall>u. t_removed h' u \<longleftrightarrow> t_removed h u \<and> u \<notin> set (takeWhile (t_removed h) (V p)))"
proof -
  note l = pools_repD [OF r p]
  have ne: "hd zs \<noteq> nullptr"
    using zs pool_linked_facts(2) [OF l(1)] by (metis hd_in_set set_dropWhileD)
  obtain h2 where h2: "pop_mpsc (pool_push E p) (\<lambda>_. False) p h = Some (hd zs, h2)" "pop_outcome p (V p) zs h h2"
    using pop_mpsc_outcome [OF sc l(1) zs(1), of "\<lambda>_. False" "pool_push E p"] zs(2) by auto
  have t: "\<not> t_in_pool h2 (hd zs)" "\<not> t_removed h2 (hd zs)"
    using h2(2) zs hd_dropWhile [of "t_removed h" "V p"] unfolding pop_outcome_def by auto
  have rep: "pools_rep h2 P (V(p := tl zs))" by (rule pools_rep_pop [OF r p zs(1) h2(2)])
  let ?h = "wake_after_push p (builtin_push p (hd zs) h2)"
  have "pool_pop E p h = Some (nullptr, ?h)"
    using pop_mpsc_repush [of "pool_push E p" p h "hd zs" h2 "pinned_elsewhere E h"] h2(1) ne pin
      pool_push_builtin [OF pools_repD(2) [OF rep p], of E "hd zs"] t(1) l(2) sc
    by (simp add: pool_pop_def)
  moreover have "pools_rep ?h P (V(p := tl zs @ [hd zs]))"
    using pools_rep_push [OF rep p t ne] by (simp add: wake_after_push_trace)
  moreover have "t_removed ?h = t_removed h2" by (simp add: wake_after_push_trace builtin_push_fields)
  then have "\<forall>u. t_removed ?h u \<longleftrightarrow> t_removed h u \<and> u \<notin> set (takeWhile (t_removed h) (V p))"
    using h2(2) unfolding pop_outcome_def by metis
  ultimately show ?thesis by blast
qed

lemma pop_view_list_pinned:
  assumes v: "pools_view h P L" and p: "p \<in> P" and sc: "\<not> p_single_consumer h p"
    and one: "at_most_one (pinned_elsewhere E h) (L p)"
  shows "\<exists>t h'. pool_pop E p h = Some (t, h') \<and> (t \<noteq> nullptr \<longrightarrow> t \<in> set (L p) \<and> \<not> pinned_elsewhere E h t) \<and>
    pools_view h' P (L(p := remove1 t (L p)))"
proof -
  obtain V where V: "pools_rep h P V" "\<forall>p\<in>P. L p = filter (\<lambda>t. \<not> t_removed h t) (V p)"
    using v unfolding pools_view_def by blast
  have d: "dll h p (V p)" using pools_repD(1) [OF V(1) p] sc by (simp add: pool_linked_def)
  then have L: "L p = V p" using V(2) p by (auto simp: dll_def filter_id_conv)
  define t where "t = fst (take_unit (pinned_elsewhere E h) (V p))"
  note pop = pop_list_pinned [OF V(1) p sc one [unfolded L], folded t_def]
  show ?thesis
  proof (cases "t = nullptr")
    case True
    have "t \<notin> set (L p)" using True L dll_facts(2) [OF d] by simp
    then have "pools_view h P (L(p := remove1 t (L p)))" using v by (simp add: remove1_idem)
    with True pop(1) show ?thesis by auto
  next
    case False
    have k: "t_removed (remove_list p t h) = t_removed h"
      by (simp add: remove_list_def list_unlink_def count_add_def Let_def)
    have t: "t \<in> set (V p)" using pop(2) False by blast
    have "(L(p := remove1 t (L p))) q = filter (\<lambda>u. \<not> t_removed (remove_list p t h) u) ((V(p := remove1 t (V p))) q)"
      if "q \<in> P" for q using V(2) that L unfolding k by (cases "q = p") (auto simp: filter_remove1)
    then have "pools_view (remove_list p t h) P (L(p := remove1 t (L p)))"
      using pools_rep_remove_list [OF V(1) p sc t] unfolding pools_view_def by metis
    with False pop L show ?thesis by auto
  qed
qed

lemma pop_view_mpsc_pinned:
  assumes v: "pools_view h P L" and p: "p \<in> P" and sc: "p_single_consumer h p"
    and pin: "L p \<noteq> []" "pinned_elsewhere E h (hd (L p))"
  shows "\<exists>h'. pool_pop E p h = Some (nullptr, h') \<and> pools_view h' P (L(p := tl (L p) @ [hd (L p)]))"
proof -
  obtain V where V: "pools_rep h P V" "\<forall>p\<in>P. L p = filter (\<lambda>t. \<not> t_removed h t) (V p)"
    using v unfolding pools_view_def by blast
  define zs where "zs = dropWhile (t_removed h) (V p)"
  have L: "L p = filter (\<lambda>t. \<not> t_removed h t) zs" using V(2) p filter_dropWhile_neg unfolding zs_def by metis
  have ne: "zs \<noteq> []" using pin(1) L by auto
  then have hz: "\<not> t_removed h (hd zs)" using hd_dropWhile unfolding zs_def by metis
  then have e: "hd (L p) = hd zs" "tl (L p) = filter (\<lambda>t. \<not> t_removed h t) (tl zs)"
    unfolding L using ne by (cases zs; simp)+
  from pop_mpsc_pinned [OF V(1) p sc zs_def ne pin(2) [unfolded e(1)]] obtain h' where h':
    "pool_pop E p h = Some (nullptr, h')" "pools_rep h' P (V(p := tl zs @ [hd zs]))"
    "\<forall>u. t_removed h' u \<longleftrightarrow> t_removed h u \<and> u \<notin> set (takeWhile (t_removed h) (V p))" by blast
  have "distinct (takeWhile (t_removed h) (V p) @ zs)"
    using pool_linked_facts(1) [OF pools_repD(1) [OF V(1) p]] by (simp add: zs_def)
  then have "set zs \<inter> set (takeWhile (t_removed h) (V p)) = {}" by auto
  moreover have "set (V q) \<inter> set (takeWhile (t_removed h) (V p)) = {}" if "q \<in> P" "q \<noteq> p" for q
    using pools_repD(4) [OF V(1) that(1) p that(2)] by (auto dest: set_takeWhileD)
  ultimately have "filter (\<lambda>u. \<not> t_removed h' u) ((V(p := tl zs @ [hd zs])) q) = (L(p := tl (L p) @ [hd (L p)])) q"
    if "q \<in> P" for q
    using that V(2) e hz ne h'(3) by (cases "q = p") (auto intro!: filter_cong dest: list.set_sel(2))
  with h'(2) have "pools_view h' P (L(p := tl (L p) @ [hd (L p)]))" unfolding pools_view_def by metis
  with h'(1) show ?thesis by blast
qed

text \<open>
  C32. A PE that is not the primary ULT's home never pops it, and its poll loses nothing: with at most
  one primary, \<^verbatim>\<open>pop\<close> on a built-in pool returns null or a unit this PE may run, and the pool then
  holds exactly the other units (in the list at their places, in the MPSC queue with the primary
  moved to the back).
\<close>

theorem pool_pop_pinned:
  assumes "pools_view h P L" "p \<in> P" "at_most_one (pinned_elsewhere E h) (L p)"
  shows "\<exists>t h' ys. pool_pop E p h = Some (t, h') \<and> pools_view h' P (L(p := ys)) \<and>
    (t = nullptr \<longrightarrow> mset ys = mset (L p)) \<and>
    (t \<noteq> nullptr \<longrightarrow> \<not> pinned_elsewhere E h t \<and> mset (L p) = add_mset t (mset ys))"
proof (cases "p_single_consumer h p")
  case False
  from pop_view_list_pinned [OF assms(1,2) False assms(3)] obtain t h' where
    h': "pool_pop E p h = Some (t, h')" "t \<noteq> nullptr \<longrightarrow> t \<in> set (L p) \<and> \<not> pinned_elsewhere E h t"
      "pools_view h' P (L(p := remove1 t (L p)))" by blast
  have "nullptr \<notin> set (L p)" using pools_view_nonnull [OF assms(1,2)] .
  then have "t = nullptr \<longrightarrow> mset (remove1 t (L p)) = mset (L p)" by (auto simp: remove1_idem)
  with h' show ?thesis by (intro exI [of _ t] exI [of _ h'] exI [of _ "remove1 t (L p)"]) auto
next
  case True
  show ?thesis
  proof (cases "L p \<noteq> [] \<and> pinned_elsewhere E h (hd (L p))")
    case True
    with pop_view_mpsc_pinned [OF assms(1,2) \<open>p_single_consumer h p\<close>] obtain h' where
      "pool_pop E p h = Some (nullptr, h')" "pools_view h' P (L(p := tl (L p) @ [hd (L p)]))" by blast
    moreover have "mset (tl (L p) @ [hd (L p)]) = mset (L p)" using True by (cases "L p") auto
    ultimately show ?thesis by blast
  next
    case False
    from pool_pop_view [OF assms(1,2), of E] False obtain h' where
      h': "pool_pop E p h = Some (if L p = [] then nullptr else hd (L p), h')" "pools_view h' P (L(p := tl (L p)))" by blast
    have "nullptr \<notin> set (L p)" using pools_view_nonnull [OF assms(1,2)] .
    with h' False show ?thesis
      by (intro exI [of _ "if L p = [] then nullptr else hd (L p)"] exI [of _ h'] exI [of _ "tl (L p)"]) (cases "L p"; auto)
  qed
qed

theorem pool_pop_pinned_witness:
  "let h = heap3\<lparr>t_type := (\<lambda>_. ABTI_THREAD_NAMED)(1024 := ABTI_THREAD_PRIMARY)\<rparr>;
       E = env0\<lparr>CthGetHomeRank := \<lambda>_. 1\<rparr>
   in pinned_elsewhere E h 1024 \<and>
      (\<exists>t h' ys. pool_pop E 256 h = Some (t, h') \<and> pools_view h' {512, 256} (view3(256 := ys)) \<and>
        (t = nullptr \<longrightarrow> mset ys = {#1024, 1280#}) \<and>
        (t \<noteq> nullptr \<longrightarrow> \<not> pinned_elsewhere E h t \<and> {#1024, 1280#} = add_mset t (mset ys)))"
proof -
  let ?h = "heap3\<lparr>t_type := (\<lambda>_. ABTI_THREAD_NAMED)(1024 := ABTI_THREAD_PRIMARY)\<rparr>"
  let ?E = "env0\<lparr>CthGetHomeRank := \<lambda>_. 1\<rparr> :: pool_heap env"
  have v: "pools_view ?h {512, 256} view3" using heap3_view by simp
  have one: "at_most_one (pinned_elsewhere ?E ?h) (view3 256)"
    by (simp add: at_most_one_def view3_def pinned_elsewhere_def env0_def)
  have e: "mset (view3 256) = {#1024, 1280#}" by (simp add: view3_def)
  have "pinned_elsewhere ?E ?h 1024" by (simp add: pinned_elsewhere_def env0_def)
  with pool_pop_pinned [OF v _ one] show ?thesis unfolding e Let_def by blast
qed

text \<open>
  C29. No parked PE is missed: once a PE has put itself on a pool's sleeper mask, every push to that
  pool notifies it; a push notifies each parked PE exactly once and no PE that is not parked.
\<close>

theorem push_notifies_sleepers:
  assumes "length (p_smask h p) = 4" "r < 256" "0 \<le> p_nsleepers h p" "\<not> p_user h p"
    and "add_sleeper p r h = Some h1" "pool_push E p t h1 = Some h2"
  shows "\<exists>rs. rt_calls h2 = rt_calls h1 @ (if p_waiters h p > 0 then [CvNotifyOne p] else []) @ map CsdIdleNotify rs \<and>
    distinct rs \<and> set rs = insert r (sleepers (p_smask h p))"
proof -
  obtain ms where ms: "smask_or r (p_smask h p) = Some ms" "sleepers ms = insert r (sleepers (p_smask h p))"
    using smask_or_sleepers [OF assms(1,2)] by blast
  have h1: "h1 = h\<lparr>p_smask := (p_smask h)(p := ms), p_nsleepers := (p_nsleepers h)(p := p_nsleepers h p + 1)\<rparr>"
    using assms(5) ms(1) by (simp add: add_sleeper_def)
  have u: "\<not> p_user h1 p" using assms(4) by (simp add: h1)
  have h2: "h2 = wake_after_push p (builtin_push p t h1)"
    using assms(6) unfolding pool_push_builtin [OF u] by (simp split: if_splits)
  have f: "p_waiters (builtin_push p t h1) = p_waiters h1" "p_nsleepers (builtin_push p t h1) = p_nsleepers h1"
    "p_smask (builtin_push p t h1) = p_smask h1" "rt_calls (builtin_push p t h1) = rt_calls h1"
    by (simp_all add: builtin_push_def push_mpsc_def push_list_def list_push_def count_add_def Let_def)
  have "rt_calls h2 = rt_calls h1 @ (if p_waiters h p > 0 then [CvNotifyOne p] else []) @
      map CsdIdleNotify (notify_ranks ms)"
    unfolding h2 wake_after_push_trace f using assms(3) by (simp add: h1)
  then show ?thesis using notify_ranks_set [of ms] notify_ranks_distinct [of ms] ms(2) by metis
qed

theorem push_notifies_sleepers_witness:
  "\<exists>h1 h2 rs. add_sleeper 512 200 heap3 = Some h1 \<and> pool_push env0 512 2048 h1 = Some h2 \<and>
     rt_calls h2 = map CsdIdleNotify rs \<and> set rs = {200}"
proof -
  have f: "p_smask heap3 512 = smask_init" "p_nsleepers heap3 512 = 0" "p_waiters heap3 512 = 0" "rt_calls heap3 = []"
    by (simp_all add: heap3_def builtin_push_def push_mpsc_def push_list_def list_push_def count_add_def Let_def heap2_def
        heap0_def ABTI_pool_create_builtin_def fresh_id_def pool_new_def pool_queue_init_def)
  have s0: "sleepers smask_init = {}"
  proof -
    have "smask_init ! (r div 64) = 0" if "r < 256" for r
    proof -
      have "r div 64 < 4" using that by (intro less_mult_imp_div_less) simp
      then have "r div 64 \<in> {0, 1, 2, 3}" by auto
      then show ?thesis by (auto simp: smask_init_def)
    qed
    then show ?thesis by (auto simp: sleepers_def)
  qed
  obtain h1 where h1: "add_sleeper 512 200 heap3 = Some h1" and c: "rt_calls h1 = []" and u: "\<not> p_user h1 512" "\<not> t_in_pool h1 2048"
    by (simp add: add_sleeper_def smask_or_def smask_init_def f heap3_flags)
  then obtain h2 where h2: "pool_push env0 512 2048 h1 = Some h2" by (simp add: pool_push_builtin)
  have "length (p_smask heap3 512) = 4" by (simp add: f smask_init_def)
  from push_notifies_sleepers [OF this _ _ _ h1 h2] h1 h2 c show ?thesis by (auto simp: f s0 heap3_flags)
qed

text \<open>Walking the pool.\<close>

lemma walk_mpsc_links:
  "links (qn_next h) (\<lambda>_. None) (n # Q) \<Longrightarrow>
   walk_mpsc h (qn_next h n) = Some (filter (\<lambda>t. t \<noteq> nullptr \<and> \<not> t_removed h t) (map qn_owner Q))"
proof (induction Q arbitrary: n)
  case Nil
  then show ?case by (subst walk_mpsc.simps) simp
next
  case (Cons m Q)
  then have "qn_next h n = Some m" "links (qn_next h) (\<lambda>_. None) (m # Q)" by simp_all
  with Cons.IH [of m] show ?case by (subst walk_mpsc.simps) simp
qed

lemma walk_list_dseg:
  "dseg (t_lnext h) pv a x xs b nullptr \<Longrightarrow> walk_list h x = Some xs"
proof (induction xs arbitrary: a x)
  case Nil
  then show ?case by (subst walk_list.simps) simp
next
  case (Cons t xs)
  then show ?case by (subst walk_list.simps) auto
qed

lemma unit_nodes_filter:
  assumes "\<forall>n\<in>set Q. n = Stub p \<or> (\<exists>t. n = QN t \<and> t \<noteq> nullptr)"
  shows "filter (\<lambda>t. t \<noteq> nullptr \<and> P t) (map qn_owner Q) = filter P (unit_nodes p Q)"
  using assms by (induction Q) auto

lemma for_each_unit_mpsc:
  assumes c: "mpsc_chain h p Q"
  shows "walk_mpsc h (qn_next h (p_head h p)) =
    Some (filter (\<lambda>t. \<not> t_removed h t) (if p_head h p = Stub p then unit_nodes p Q else tl (unit_nodes p Q)))"
proof -
  obtain n R where Q: "Q = n # R" "p_head h p = n" using c by (cases Q) (auto simp: mpsc_chain_def)
  have "\<forall>n\<in>set R. n = Stub p \<or> (\<exists>t. n = QN t \<and> t \<noteq> nullptr)" using c Q(1) by (auto simp: mpsc_chain_def)
  then have "filter (\<lambda>t. t \<noteq> nullptr \<and> \<not> t_removed h t) (map qn_owner R) = filter (\<lambda>t. \<not> t_removed h t) (unit_nodes p R)"
    by (rule unit_nodes_filter)
  with walk_mpsc_links [of h n R] c Q show ?thesis by (auto simp: mpsc_chain_def)
qed

text \<open>
  C40. What the diagnostic walk \<^verbatim>\<open>for_each_unit\<close> (\<^verbatim>\<open>ABT_pool_print_all\<close>) visits: in a list pool every
  unit in order; in an MPSC pool every unit that is not removed, except that once a pop has moved the
  head onto a unit, the walk, which starts at \<^verbatim>\<open>head->next\<close>, passes over that unit, the oldest one.
\<close>

theorem for_each_unit_visits:
  assumes "pools_rep h P V" "p \<in> P"
  shows "for_each_unit p h = Some (filter (\<lambda>t. \<not> t_removed h t)
    (if p_single_consumer h p \<and> p_head h p \<noteq> Stub p then tl (V p) else V p))"
proof (cases "p_single_consumer h p")
  case True
  then obtain Q where "mpsc_chain h p Q" "V p = unit_nodes p Q"
    using pools_repD(1) [OF assms] by (auto simp: pool_linked_def mpsc_def)
  with for_each_unit_mpsc [of h p Q] True show ?thesis by (simp add: for_each_unit_def)
next
  case False
  then have d: "dll h p (V p)" using pools_repD(1) [OF assms] by (simp add: pool_linked_def)
  then have "filter (\<lambda>t. \<not> t_removed h t) (V p) = V p" by (simp add: dll_def filter_id_conv)
  with d False walk_list_dseg show ?thesis by (auto simp: for_each_unit_def dll_def)
qed

lemma heap3_rep: "pools_rep heap3 {512, 256} view3"
proof -
  obtain V where V: "pools_rep heap3 {512, 256} V" "\<forall>p\<in>{512, 256}. view3 p = V p"
    using heap3_view by (auto simp: pools_view_def heap3_flags)
  then show ?thesis by (auto simp: pools_rep_def)
qed

theorem for_each_unit_visits_witness:
  "for_each_unit 512 heap3 = Some [1536] \<and> for_each_unit 256 heap3 = Some [1024, 1280]"
proof -
  have "p_head heap3 256 = Stub 256"
    by (simp add: heap3_def builtin_push_def push_mpsc_def push_list_def list_push_def count_add_def Let_def heap2_def
        heap0_def ABTI_pool_create_builtin_def fresh_id_def pool_new_def pool_queue_init_def)
  with for_each_unit_visits [OF heap3_rep, of 512] for_each_unit_visits [OF heap3_rep, of 256]
  show ?thesis by (simp add: heap3_flags view3_def)
qed

text \<open>After one pop the MPSC pool still holds a unit, and the walk visits none.\<close>

theorem for_each_unit_misses_oldest:
  "\<exists>h. pool_pop env0 256 heap3 = Some (1024, h) \<and> pool_size env0 256 h = 1 \<and> for_each_unit 256 h = Some []"
  by (simp add: pool_pop_def pop_mpsc_def pop_mpsc_loop.simps pop_mpsc_iter_def mpsc_detach_def mpsc_take_def
      heap3_def builtin_push_def push_mpsc_def push_list_def list_push_def count_add_def Let_def heap2_def
      heap0_def ABTI_pool_create_builtin_def fresh_id_def pool_new_def pool_queue_init_def pinned_elsewhere_def
      pool_size_def builtin_size_def for_each_unit_def walk_mpsc.simps)

end
