(* ===== verification/Pool_Frame.thy ===== *)
theory Pool_Frame
  imports Pool
begin

section \<open>What pool operations leave alone\<close>

text \<open>
  \<open>qframe h h'\<close>: the states differ in the queue fields of pools and units and in the trace of
  commands to the runtime only.  Every operation on a built-in pool stays within this frame, so a
  component that pops and pushes keeps what it knows of its own fields; the second part states push
  and pop on the sequences the pools hold together with the frame.
\<close>

definition qframe :: "'a pool_heap_scheme \<Rightarrow> 'a pool_heap_scheme \<Rightarrow> bool" where
  "qframe h h' \<longleftrightarrow> (\<exists>c. queue_heap.more h' = queue_heap.more (h\<lparr>rt_calls := c\<rparr>))"

lemma qframeI: "queue_heap.more h' = queue_heap.more (h :: 'a pool_heap_scheme) \<Longrightarrow> qframe h h'"
  unfolding qframe_def by (rule exI [of _ "rt_calls h"]) (cases h, simp)

lemma qframe_refl [simp, intro]: "qframe h h"
  by (simp add: qframeI)

lemma qframe_obtain:
  assumes "qframe h h'"
  obtains a b c d e f g i j k l where
    "h' = h\<lparr>qn_next := a, t_lprev := b, t_lnext := c, t_in_pool := d, t_removed := e, p_tail := f,
      p_head := g, p_lhead := i, p_ltail := j, p_count := k, rt_calls := l\<rparr>"
proof -
  from assms obtain l where l: "queue_heap.more h' = queue_heap.more (h\<lparr>rt_calls := l\<rparr>)"
    unfolding qframe_def by blast
  show ?thesis
    by (rule that [of l "p_count h'" "p_ltail h'" "p_lhead h'" "p_head h'" "p_tail h'" "t_removed h'" "t_in_pool h'"
          "t_lnext h'" "t_lprev h'" "qn_next h'"]) (use l in \<open>cases h; cases h'; simp\<close>)
qed

lemma qframe_trans: "qframe h h1 \<Longrightarrow> qframe h1 h2 \<Longrightarrow> qframe h h2"
proof (erule qframe_obtain, erule qframe_obtain)
  fix a b c d e f g i j k l and a' b' c' d' e' f' g' i' j' k' l'
  assume "h1 = h\<lparr>qn_next := a, t_lprev := b, t_lnext := c, t_in_pool := d, t_removed := e, p_tail := f,
      p_head := g, p_lhead := i, p_ltail := j, p_count := k, rt_calls := l\<rparr>"
    "h2 = h1\<lparr>qn_next := a', t_lprev := b', t_lnext := c', t_in_pool := d', t_removed := e', p_tail := f',
      p_head := g', p_lhead := i', p_ltail := j', p_count := k', rt_calls := l'\<rparr>"
  then show "qframe h h2" unfolding qframe_def by (intro exI [of _ l']) (cases h; simp)
qed

lemma qframe_sel:
  assumes "qframe h h'"
  shows "p_access h' = p_access h" "p_kind h' = p_kind h" "p_automatic h' = p_automatic h"
    "p_id h' = p_id h" "p_user h' = p_user h" "p_def h' = p_def h" "p_data h' = p_data h"
    "p_single_consumer h' = p_single_consumer h" "p_waiters h' = p_waiters h"
    "p_num_blocked h' = p_num_blocked h" "p_num_scheds h' = p_num_scheds h"
    "p_nsleepers h' = p_nsleepers h" "p_smask h' = p_smask h" "t_cth h' = t_cth h"
    "t_pool h' = t_pool h" "t_unit h' = t_unit h" "t_type h' = t_type h" "t_fn h' = t_fn h"
    "t_arg h' = t_arg h" "t_is_task h' = t_is_task h" "t_last_xstream h' = t_last_xstream h"
    "t_parent h' = t_parent h" "t_tstate h' = t_tstate h" "g_initialized h' = g_initialized h"
    "g_next_id h' = g_next_id h" "g_num_user_pools h' = g_num_user_pools h" "g_units h' = g_units h"
    "live h' = live h" "tls_xstream h' = tls_xstream h" "tls_task h' = tls_task h"
    "cth_userdata h' = cth_userdata h" "pool_heap.more h' = pool_heap.more h"
  by (rule qframe_obtain [OF assms]; simp)+

lemma qframe_rt [intro]: "qframe h (rt c h)"
  by (auto simp: qframe_def rt_def)

lemma wake_qframe: "qframe h (wake_after_push p h)"
  unfolding qframe_def by (rule exI [of _ "rt_calls (wake_after_push p h)"]) (simp add: wake_after_push_trace)

lemma list_push_more [simp]: "queue_heap.more (list_push p t h) = queue_heap.more h"
  by (simp add: list_push_def Let_def)

lemma list_unlink_more [simp]: "queue_heap.more (list_unlink p t h) = queue_heap.more h"
  by (simp add: list_unlink_def Let_def)

lemma builtin_push_qframe: "qframe h (builtin_push p t h)"
  by (auto simp: builtin_push_def push_mpsc_def push_list_def count_add_def Let_def intro!: qframeI)

lemma pop_list_qframe: "pop_list pinned p h = (t, h') \<Longrightarrow> qframe h h'"
  by (auto simp: pop_list_def Let_def count_add_def intro!: qframeI split: if_splits)

lemma mpsc_take_more:
  "(mpsc_take p n m h = Inl h' \<longrightarrow> queue_heap.more h' = queue_heap.more h) \<and>
   (mpsc_take p n m h = Inr (t, h') \<longrightarrow> queue_heap.more h' = queue_heap.more h)"
  by (auto simp: mpsc_take_def Let_def split: if_splits)

lemma mpsc_detach_more:
  "(mpsc_detach p n m h = Inl h' \<longrightarrow> queue_heap.more h' = queue_heap.more h) \<and>
   (mpsc_detach p n m h = Inr (t, h') \<longrightarrow> queue_heap.more h' = queue_heap.more h)"
  using mpsc_take_more by (auto simp: mpsc_detach_def Let_def split: option.splits if_splits) fastforce+

lemma pop_mpsc_iter_more:
  "(pop_mpsc_iter p h = Inl h' \<longrightarrow> queue_heap.more h' = queue_heap.more h) \<and>
   (pop_mpsc_iter p h = Inr (t, h') \<longrightarrow> queue_heap.more h' = queue_heap.more h)"
  using mpsc_detach_more by (auto simp: pop_mpsc_iter_def Let_def split: option.splits if_splits) fastforce+

lemma pop_mpsc_loop_more: "pop_mpsc_loop p h = Some r \<Longrightarrow> queue_heap.more (snd r) = queue_heap.more h"
proof (induction rule: pop_mpsc_loop.raw_induct [rotated 1, consumes 1])
  case (1 loop p h r)
  show ?case
  proof (cases "pop_mpsc_iter p h")
    case (Inl h1)
    with 1 pop_mpsc_iter_more [of p h h1] show ?thesis by simp
  next
    case (Inr x)
    with 1(2) pop_mpsc_iter_more [of p h "snd r" "fst r"] show ?thesis by auto
  qed
qed

lemma pool_push_qframe: "\<not> p_user h p \<Longrightarrow> pool_push E p t h = Some h' \<Longrightarrow> qframe h h'"
  using builtin_push_qframe [of h p t] wake_qframe [of "builtin_push p t h" p]
  by (auto simp: pool_push_builtin split: if_splits intro: qframe_trans)

lemma pool_pop_qframe:
  assumes "\<not> p_user h p" "pool_pop E p h = Some (t, h')"
  shows "qframe h h'"
proof (cases "p_single_consumer h p")
  case False
  with assms pop_list_qframe show ?thesis by (simp add: pool_pop_def)
next
  case True
  with assms obtain u h1 where l: "pop_mpsc_loop p h = Some (u, h1)"
    by (auto simp: pool_pop_def pop_mpsc_def split: bind_splits)
  have f: "qframe h h1" "qframe h (count_add p (-1) h1)"
    using pop_mpsc_loop_more [OF l] by (auto intro!: qframeI simp: count_add_def)
  have "\<not> p_user (count_add p (-1) h1) p" using qframe_sel(5) [OF f(2)] assms(1) by simp
  then have "pool_push E p u (count_add p (-1) h1) = Some h2 \<Longrightarrow> qframe (count_add p (-1) h1) h2" for h2
    by (rule pool_push_qframe)
  with True assms l f show ?thesis
    by (auto simp: pool_pop_def pop_mpsc_def Let_def split: bind_splits if_splits intro: qframe_trans)
qed

lemma remove_unit_qframe: "remove_unit p t h = (b, h') \<Longrightarrow> qframe h h'"
  by (auto simp: remove_unit_def remove_mpsc_def remove_list_def count_add_def Let_def
      intro!: qframeI split: if_splits)

text \<open>A built-in pool keeps its callers' picture of other units: only the popped unit leaves.\<close>

lemma pinned_qframe: "qframe h h' \<Longrightarrow> pinned_elsewhere E h' = pinned_elsewhere E h"
  by (simp add: pinned_elsewhere_def qframe_sel fun_eq_iff)


subsection \<open>Push and pop on sequences\<close>

lemma pools_view_builtin: "pools_view h P L \<Longrightarrow> p \<in> P \<Longrightarrow> \<not> p_user h p"
  by (auto simp: pools_view_def pools_rep_def)

lemma pool_push_view:
  assumes "pools_view h P L" "p \<in> P" "t \<noteq> nullptr" "\<not> t_removed h t" "\<not> t_in_pool h t"
  shows "\<exists>h'. pool_push E p t h = Some h' \<and> pools_view h' P (L(p := L p @ [t])) \<and> qframe h h' \<and>
    t_in_pool h' = (t_in_pool h)(t := True) \<and> t_removed h' = t_removed h"
proof -
  obtain V where V: "pools_rep h P V" "\<forall>p\<in>P. L p = filter (\<lambda>t. \<not> t_removed h t) (V p)"
    using assms(1) unfolding pools_view_def by blast
  let ?h = "wake_after_push p (builtin_push p t h)"
  have "pools_view (builtin_push p t h) P (L(p := L p @ [t]))"
    using pools_rep_push [OF V(1) assms(2,5,4,3)] V(2) assms(2,4) unfolding pools_view_def
    by (intro exI [of _ "V(p := V p @ [t])"]) (auto simp: builtin_push_fields)
  then have "pools_view ?h P (L(p := L p @ [t]))" by (simp add: pools_view_wake)
  moreover have "pool_push E p t h = Some ?h"
    using pool_push_builtin [OF pools_repD(2) [OF V(1) assms(2)], of E t] assms(5) by simp
  moreover have "qframe h ?h" by (blast intro: qframe_trans builtin_push_qframe wake_qframe)
  moreover have "t_in_pool ?h = (t_in_pool h)(t := True)" "t_removed ?h = t_removed h"
    by (simp_all add: wake_after_push_trace builtin_push_fields)
  ultimately show ?thesis by blast
qed

lemma pool_pop_view_frame:
  assumes "pools_view h P L" "p \<in> P" "L p \<noteq> [] \<Longrightarrow> \<not> pinned_elsewhere E h (hd (L p))"
  shows "\<exists>h'. pool_pop E p h = Some (if L p = [] then nullptr else hd (L p), h') \<and>
    pools_view h' P (L(p := tl (L p))) \<and> (L p \<noteq> [] \<longrightarrow> \<not> t_in_pool h' (hd (L p))) \<and> qframe h h'"
proof -
  obtain h' where h': "pool_pop E p h = Some (if L p = [] then nullptr else hd (L p), h')"
    "pools_view h' P (L(p := tl (L p)))" "L p \<noteq> [] \<longrightarrow> \<not> t_in_pool h' (hd (L p))"
    using pool_pop_view [OF assms] by blast
  with pool_pop_qframe [OF pools_view_builtin [OF assms(1,2)] h'(1)] show ?thesis by blast
qed

lemma pools_view_distinct:
  assumes "pools_view h P L" "p \<in> P"
  shows "distinct (L p)" "t \<in> set (L p) \<Longrightarrow> t_in_pool h t" "t \<in> set (L p) \<Longrightarrow> \<not> t_removed h t"
    "q \<in> P \<Longrightarrow> p \<noteq> q \<Longrightarrow> set (L p) \<inter> set (L q) = {}"
proof -
  obtain V where V: "pools_rep h P V" "\<forall>p\<in>P. L p = filter (\<lambda>t. \<not> t_removed h t) (V p)"
    using assms(1) unfolding pools_view_def by blast
  note l = pools_repD [OF V(1)] and f = pool_linked_facts [OF pools_repD(1) [OF V(1) assms(2)]]
  show "distinct (L p)" using V(2) assms(2) f(1) by simp
  show "t \<in> set (L p) \<Longrightarrow> t_in_pool h t" using V(2) assms(2) f(3) by simp
  show "t \<in> set (L p) \<Longrightarrow> \<not> t_removed h t" using V(2) assms(2) by simp
  show "q \<in> P \<Longrightarrow> p \<noteq> q \<Longrightarrow> set (L p) \<inter> set (L q) = {}"
    using l(4) [OF assms(2)] V(2) assms(2) by auto
qed

end
