(* ===== verification/Abt_Heap.thy ===== *)
theory Abt_Heap
  imports Pool_Frame
begin

section \<open>The state of the library\<close>

text \<open>
  The rest of the structs of \<^verbatim>\<open>src/src/abti.h\<close>: \<open>abt_heap\<close> adds to the pools the remaining fields of
  \<^verbatim>\<open>ABTI_thread\<close>, the structs \<^verbatim>\<open>ABTI_sched\<close>, \<^verbatim>\<open>ABTI_xstream\<close>, \<^verbatim>\<open>ABTI_thread_attr\<close> and
  \<^verbatim>\<open>ABTI_key\<close>, the globals of \<^verbatim>\<open>ABTI_global\<close> and of \<^verbatim>\<open>init.cpp\<close>, the thread-local variables of the
  calling PE, and the awaken function the library installed for each Converse thread.  A field of a
  struct is a function from the address of the object.
\<close>

record ABTI_thread_attr =
  attr_stacksize :: nat
  attr_stackaddr :: ptr
  attr_migratable :: bool

text \<open>The callbacks of an \<^verbatim>\<open>ABT_sched_def\<close> the library calls (null: absent).\<close>

record ABT_sched_def =
  sd_init :: ptr
  sd_run :: ptr
  sd_free :: ptr

text \<open>The two functions that are installed with \<^verbatim>\<open>CthSetAwakenFn\<close>, and their argument.\<close>

datatype awaken_fn = Thread_awaken ptr | Runner_awaken ptr

record abt_heap = pool_heap +
  t_attr :: "ptr \<Rightarrow> ABTI_thread_attr"
  t_id :: "ptr \<Rightarrow> nat"
  t_migrate_to :: "ptr \<Rightarrow> ptr"
  t_terminated :: "ptr \<Rightarrow> bool"
  t_joiners :: "ptr \<Rightarrow> ptr list"
  t_keys :: "ptr \<Rightarrow> ptr list"
  t_freed_by_exit :: "ptr \<Rightarrow> bool"
  t_blocked_pool :: "ptr \<Rightarrow> ptr"
  t_blocked_counted :: "ptr \<Rightarrow> bool"
  a_attr :: "ptr \<Rightarrow> ABTI_thread_attr"
  k_destructor :: "ptr \<Rightarrow> ptr"
  k_id :: "ptr \<Rightarrow> nat"
  s_predef :: "ptr \<Rightarrow> ABT_sched_predef"
  s_user_def :: "ptr \<Rightarrow> bool"
  s_pools :: "ptr \<Rightarrow> ptr list"
  s_automatic :: "ptr \<Rightarrow> bool"
  s_event_freq :: "ptr \<Rightarrow> int"
  s_used_by :: "ptr \<Rightarrow> ptr"
  s_data :: "ptr \<Rightarrow> ptr"
  s_req_finish :: "ptr \<Rightarrow> bool"
  s_req_exit :: "ptr \<Rightarrow> bool"
  s_def :: "ptr \<Rightarrow> ABT_sched_def"
  s_config :: "ptr \<Rightarrow> ptr"
  s_runner :: "ptr \<Rightarrow> ptr"
  s_in_pool :: "ptr \<Rightarrow> bool"
  x_rank :: "ptr \<Rightarrow> int"
  x_state :: "ptr \<Rightarrow> ABT_xstream_state"
  x_main_sched :: "ptr \<Rightarrow> ptr"
  x_primary :: "ptr \<Rightarrow> bool"
  x_cpubind :: "ptr \<Rightarrow> int"
  x_affinity :: "ptr \<Rightarrow> int list"
  x_thread :: "ptr \<Rightarrow> nat"
  x_thread_known :: "ptr \<Rightarrow> bool"
  x_finishing :: "ptr \<Rightarrow> bool"
  x_finished :: "ptr \<Rightarrow> bool"
  x_joiners :: "ptr \<Rightarrow> ptr list"
  g_exists :: bool
  g_num_pes :: int
  g_default_stacksize :: nat
  g_direct_burst :: nat
  g_xstreams :: "ptr list"
  g_pe_threads :: "nat list"
  g_pe_thread_known :: "bool list"
  g_primary_xstream :: ptr
  g_primary_thread :: ptr
  g_next_key :: nat
  g_key_dtors :: "ptr list"
  g_handlers :: "int list"
  init_refs :: int
  runtime_started :: bool
  runtime_pid :: int
  first_unimplemented :: "string option"
  unimplemented_calls :: nat
  tls_thread_cache :: "ptr list"
  tls_runner :: ptr
  tls_held :: ptr
  tls_direct_count :: nat
  tls_last_chain :: nat
  tls_yielding :: bool
  stat_direct :: nat
  stat_parked :: nat
  stat_to_sched :: nat
  stat_empty :: nat
  cth_awaken :: "ptr \<Rightarrow> awaken_fn option"

type_synonym 'a abt = "'a abt_heap_scheme"
type_synonym 'a abt_env = "'a abt_heap_scheme env"

text \<open>
  \<^verbatim>\<open>request\<close> is a bit set with the two bits \<^verbatim>\<open>ABTI_SCHED_REQ_FINISH\<close> and \<^verbatim>\<open>ABTI_SCHED_REQ_EXIT\<close>, here
  two flags.  The state of an unimplemented call is \<^verbatim>\<open>ABTI_note_unimplemented\<close> of \<^verbatim>\<open>init.cpp\<close>: count
  the call, remember the first name, answer \<^verbatim>\<open>ABT_ERR_FEATURE_NA\<close>.
\<close>

definition ABTI_note_unimplemented :: "string \<Rightarrow> 'a abt \<Rightarrow> (unit, 'a abt) api" where
  "ABTI_note_unimplemented name h =
     (Inl ABT_ERR_FEATURE_NA,
      h\<lparr>unimplemented_calls := unimplemented_calls h + 1,
        first_unimplemented := (case first_unimplemented h of None \<Rightarrow> Some name | Some n \<Rightarrow> Some n)\<rparr>)"

definition ABTI_first_unimplemented :: "'a abt \<Rightarrow> string option" where
  "ABTI_first_unimplemented h = first_unimplemented h"

definition ABTI_unimplemented_count :: "'a abt \<Rightarrow> nat" where
  "ABTI_unimplemented_count h = unimplemented_calls h"

text \<open>The API entry points that are only \<^verbatim>\<open>ABTI_UNIMPLEMENTED(name)\<close>, by file.\<close>

definition unimplemented_pool :: "string list" where
  "unimplemented_pool =
     [''ABT_unit_set_associated_pool'', ''ABT_pool_user_def_create'', ''ABT_pool_user_def_free'',
      ''ABT_pool_user_def_set_init'', ''ABT_pool_user_def_set_free'',
      ''ABT_pool_user_def_set_get_size'', ''ABT_pool_user_def_set_pop_wait'',
      ''ABT_pool_user_def_set_pop_many'', ''ABT_pool_user_def_set_push_many'',
      ''ABT_pool_user_def_set_print_all'']"

definition unimplemented_thread :: "string list" where
  "unimplemented_thread =
     [''ABT_thread_get_stack'', ''ABT_thread_create_many'', ''ABT_thread_revive'',
      ''ABT_thread_revive_to'', ''ABT_thread_cancel'', ''ABT_self_resume_yield_to'',
      ''ABT_self_suspend_to'', ''ABT_self_resume_suspend_to'', ''ABT_self_exit_to'',
      ''ABT_self_resume_exit_to'', ''ABT_task_revive'', ''ABT_task_cancel'']"

definition unimplemented_xstream :: "string list" where
  "unimplemented_xstream =
     [''ABT_xstream_set_rank'', ''ABT_xstream_revive'', ''ABT_xstream_exit'', ''ABT_xstream_cancel'',
      ''ABT_xstream_barrier_create'', ''ABT_xstream_barrier_free'', ''ABT_xstream_barrier_wait'']"

definition unimplemented_misc :: "string list" where
  "unimplemented_misc =
     [''ABT_info_print_task'', ''ABT_tool_register_thread_callback'', ''ABT_tool_query_thread'']"

text \<open>A run of unimplemented calls: every one is counted, the first name is kept.\<close>

lemma note_unimplemented_fold:
  "let h' = fold (\<lambda>n s. snd (ABTI_note_unimplemented n s)) ns h
   in unimplemented_calls h' = unimplemented_calls h + length ns \<and>
      first_unimplemented h' =
        (if first_unimplemented h = None \<and> ns \<noteq> [] then Some (hd ns) else first_unimplemented h)"
  by (induction ns arbitrary: h) (auto simp: ABTI_note_unimplemented_def Let_def split: option.splits)


subsection \<open>Frames\<close>

text \<open>Pool operations change none of the fields of \<open>abt_heap\<close>, and these do not matter to what pools hold.\<close>

lemma qframe_abt:
  assumes "qframe h (h' :: 'a abt)"
  shows "t_attr h' = t_attr h"
    "t_id h' = t_id h"
    "t_migrate_to h' = t_migrate_to h"
    "t_terminated h' = t_terminated h"
    "t_joiners h' = t_joiners h"
    "t_keys h' = t_keys h"
    "t_freed_by_exit h' = t_freed_by_exit h"
    "t_blocked_pool h' = t_blocked_pool h"
    "t_blocked_counted h' = t_blocked_counted h"
    "a_attr h' = a_attr h"
    "k_destructor h' = k_destructor h"
    "k_id h' = k_id h"
    "s_predef h' = s_predef h"
    "s_user_def h' = s_user_def h"
    "s_pools h' = s_pools h"
    "s_automatic h' = s_automatic h"
    "s_event_freq h' = s_event_freq h"
    "s_used_by h' = s_used_by h"
    "s_data h' = s_data h"
    "s_req_finish h' = s_req_finish h"
    "s_req_exit h' = s_req_exit h"
    "s_def h' = s_def h"
    "s_config h' = s_config h"
    "s_runner h' = s_runner h"
    "s_in_pool h' = s_in_pool h"
    "x_rank h' = x_rank h"
    "x_state h' = x_state h"
    "x_main_sched h' = x_main_sched h"
    "x_primary h' = x_primary h"
    "x_cpubind h' = x_cpubind h"
    "x_affinity h' = x_affinity h"
    "x_thread h' = x_thread h"
    "x_thread_known h' = x_thread_known h"
    "x_finishing h' = x_finishing h"
    "x_finished h' = x_finished h"
    "x_joiners h' = x_joiners h"
    "g_exists h' = g_exists h"
    "g_num_pes h' = g_num_pes h"
    "g_default_stacksize h' = g_default_stacksize h"
    "g_direct_burst h' = g_direct_burst h"
    "g_xstreams h' = g_xstreams h"
    "g_pe_threads h' = g_pe_threads h"
    "g_pe_thread_known h' = g_pe_thread_known h"
    "g_primary_xstream h' = g_primary_xstream h"
    "g_primary_thread h' = g_primary_thread h"
    "g_next_key h' = g_next_key h"
    "g_key_dtors h' = g_key_dtors h"
    "g_handlers h' = g_handlers h"
    "init_refs h' = init_refs h"
    "runtime_started h' = runtime_started h"
    "runtime_pid h' = runtime_pid h"
    "first_unimplemented h' = first_unimplemented h"
    "unimplemented_calls h' = unimplemented_calls h"
    "tls_thread_cache h' = tls_thread_cache h"
    "tls_runner h' = tls_runner h"
    "tls_held h' = tls_held h"
    "tls_direct_count h' = tls_direct_count h"
    "tls_last_chain h' = tls_last_chain h"
    "tls_yielding h' = tls_yielding h"
    "stat_direct h' = stat_direct h"
    "stat_parked h' = stat_parked h"
    "stat_to_sched h' = stat_to_sched h"
    "stat_empty h' = stat_empty h"
    "cth_awaken h' = cth_awaken h"
    "abt_heap.more h' = abt_heap.more h"
  by (rule qframe_obtain [OF assms]; simp)+

lemma view_abt [simp]:
  fixes h :: "'a abt"
  shows "pools_view (h\<lparr>cth_userdata := v0\<rparr>) P L = pools_view h P L"
    "pools_view (h\<lparr>t_attr := v1\<rparr>) P L = pools_view h P L"
    "pools_view (h\<lparr>t_id := v2\<rparr>) P L = pools_view h P L"
    "pools_view (h\<lparr>t_migrate_to := v3\<rparr>) P L = pools_view h P L"
    "pools_view (h\<lparr>t_terminated := v4\<rparr>) P L = pools_view h P L"
    "pools_view (h\<lparr>t_joiners := v5\<rparr>) P L = pools_view h P L"
    "pools_view (h\<lparr>t_keys := v6\<rparr>) P L = pools_view h P L"
    "pools_view (h\<lparr>t_freed_by_exit := v7\<rparr>) P L = pools_view h P L"
    "pools_view (h\<lparr>t_blocked_pool := v8\<rparr>) P L = pools_view h P L"
    "pools_view (h\<lparr>t_blocked_counted := v9\<rparr>) P L = pools_view h P L"
    "pools_view (h\<lparr>a_attr := v10\<rparr>) P L = pools_view h P L"
    "pools_view (h\<lparr>k_destructor := v11\<rparr>) P L = pools_view h P L"
    "pools_view (h\<lparr>k_id := v12\<rparr>) P L = pools_view h P L"
    "pools_view (h\<lparr>s_predef := v13\<rparr>) P L = pools_view h P L"
    "pools_view (h\<lparr>s_user_def := v14\<rparr>) P L = pools_view h P L"
    "pools_view (h\<lparr>s_pools := v15\<rparr>) P L = pools_view h P L"
    "pools_view (h\<lparr>s_automatic := v16\<rparr>) P L = pools_view h P L"
    "pools_view (h\<lparr>s_event_freq := v17\<rparr>) P L = pools_view h P L"
    "pools_view (h\<lparr>s_used_by := v18\<rparr>) P L = pools_view h P L"
    "pools_view (h\<lparr>s_data := v19\<rparr>) P L = pools_view h P L"
    "pools_view (h\<lparr>s_req_finish := v20\<rparr>) P L = pools_view h P L"
    "pools_view (h\<lparr>s_req_exit := v21\<rparr>) P L = pools_view h P L"
    "pools_view (h\<lparr>s_def := v22\<rparr>) P L = pools_view h P L"
    "pools_view (h\<lparr>s_config := v23\<rparr>) P L = pools_view h P L"
    "pools_view (h\<lparr>s_runner := v24\<rparr>) P L = pools_view h P L"
    "pools_view (h\<lparr>s_in_pool := v25\<rparr>) P L = pools_view h P L"
    "pools_view (h\<lparr>x_rank := v26\<rparr>) P L = pools_view h P L"
    "pools_view (h\<lparr>x_state := v27\<rparr>) P L = pools_view h P L"
    "pools_view (h\<lparr>x_main_sched := v28\<rparr>) P L = pools_view h P L"
    "pools_view (h\<lparr>x_primary := v29\<rparr>) P L = pools_view h P L"
    "pools_view (h\<lparr>x_cpubind := v30\<rparr>) P L = pools_view h P L"
    "pools_view (h\<lparr>x_affinity := v31\<rparr>) P L = pools_view h P L"
    "pools_view (h\<lparr>x_thread := v32\<rparr>) P L = pools_view h P L"
    "pools_view (h\<lparr>x_thread_known := v33\<rparr>) P L = pools_view h P L"
    "pools_view (h\<lparr>x_finishing := v34\<rparr>) P L = pools_view h P L"
    "pools_view (h\<lparr>x_finished := v35\<rparr>) P L = pools_view h P L"
    "pools_view (h\<lparr>x_joiners := v36\<rparr>) P L = pools_view h P L"
    "pools_view (h\<lparr>g_exists := v37\<rparr>) P L = pools_view h P L"
    "pools_view (h\<lparr>g_num_pes := v38\<rparr>) P L = pools_view h P L"
    "pools_view (h\<lparr>g_default_stacksize := v39\<rparr>) P L = pools_view h P L"
    "pools_view (h\<lparr>g_direct_burst := v40\<rparr>) P L = pools_view h P L"
    "pools_view (h\<lparr>g_xstreams := v41\<rparr>) P L = pools_view h P L"
    "pools_view (h\<lparr>g_pe_threads := v42\<rparr>) P L = pools_view h P L"
    "pools_view (h\<lparr>g_pe_thread_known := v43\<rparr>) P L = pools_view h P L"
    "pools_view (h\<lparr>g_primary_xstream := v44\<rparr>) P L = pools_view h P L"
    "pools_view (h\<lparr>g_primary_thread := v45\<rparr>) P L = pools_view h P L"
    "pools_view (h\<lparr>g_next_key := v46\<rparr>) P L = pools_view h P L"
    "pools_view (h\<lparr>g_key_dtors := v47\<rparr>) P L = pools_view h P L"
    "pools_view (h\<lparr>g_handlers := v48\<rparr>) P L = pools_view h P L"
    "pools_view (h\<lparr>init_refs := v49\<rparr>) P L = pools_view h P L"
    "pools_view (h\<lparr>runtime_started := v50\<rparr>) P L = pools_view h P L"
    "pools_view (h\<lparr>runtime_pid := v51\<rparr>) P L = pools_view h P L"
    "pools_view (h\<lparr>first_unimplemented := v52\<rparr>) P L = pools_view h P L"
    "pools_view (h\<lparr>unimplemented_calls := v53\<rparr>) P L = pools_view h P L"
    "pools_view (h\<lparr>tls_thread_cache := v54\<rparr>) P L = pools_view h P L"
    "pools_view (h\<lparr>tls_runner := v55\<rparr>) P L = pools_view h P L"
    "pools_view (h\<lparr>tls_held := v56\<rparr>) P L = pools_view h P L"
    "pools_view (h\<lparr>tls_direct_count := v57\<rparr>) P L = pools_view h P L"
    "pools_view (h\<lparr>tls_last_chain := v58\<rparr>) P L = pools_view h P L"
    "pools_view (h\<lparr>tls_yielding := v59\<rparr>) P L = pools_view h P L"
    "pools_view (h\<lparr>stat_direct := v60\<rparr>) P L = pools_view h P L"
    "pools_view (h\<lparr>stat_parked := v61\<rparr>) P L = pools_view h P L"
    "pools_view (h\<lparr>stat_to_sched := v62\<rparr>) P L = pools_view h P L"
    "pools_view (h\<lparr>stat_empty := v63\<rparr>) P L = pools_view h P L"
    "pools_view (h\<lparr>cth_awaken := v64\<rparr>) P L = pools_view h P L"
  by (simp_all add: pools_view_def pools_rep_def pool_linked_def mpsc_def mpsc_chain_def dll_def)



lemmas rt_abt [simp] = qframe_sel [OF qframe_rt] qframe_abt [OF qframe_rt]

lemma rt_queue [simp]:
  "t_in_pool (rt c h) = t_in_pool h" "t_removed (rt c h) = t_removed h" "p_count (rt c h) = p_count h"
  "pools_view (rt c h) P L = pools_view h P L" "rt_calls (rt c h) = rt_calls h @ [c]"
  by (simp_all add: rt_def)

subsection \<open>A concrete process\<close>

text \<open>A process with the given pools and no other object, on a runtime with four PEs, for evaluating the
  definitions.\<close>

definition abt_of :: "pool_heap \<Rightarrow> abt_heap" where
  "abt_of h = pool_heap.extend h (abt_heap.fields (\<lambda>_. \<lparr>attr_stacksize = 0, attr_stackaddr = nullptr, attr_migratable = True\<rparr>)
     (\<lambda>_. 0) (\<lambda>_. nullptr) (\<lambda>_. False) (\<lambda>_. []) (\<lambda>_. []) (\<lambda>_. False) (\<lambda>_. nullptr) (\<lambda>_. False)
     (\<lambda>_. \<lparr>attr_stacksize = 0, attr_stackaddr = nullptr, attr_migratable = True\<rparr>) (\<lambda>_. nullptr) (\<lambda>_. 0)
     (\<lambda>_. ABT_SCHED_DEFAULT) (\<lambda>_. False) (\<lambda>_. []) (\<lambda>_. True) (\<lambda>_. 50) (\<lambda>_. nullptr) (\<lambda>_. nullptr)
     (\<lambda>_. False) (\<lambda>_. False) (\<lambda>_. \<lparr>sd_init = nullptr, sd_run = nullptr, sd_free = nullptr\<rparr>) (\<lambda>_. nullptr)
     (\<lambda>_. nullptr) (\<lambda>_. False)
     (\<lambda>_. 0) (\<lambda>_. ABT_XSTREAM_STATE_RUNNING) (\<lambda>_. nullptr) (\<lambda>_. False) (\<lambda>_. -1) (\<lambda>_. []) (\<lambda>_. 0)
     (\<lambda>_. False) (\<lambda>_. False) (\<lambda>_. False) (\<lambda>_. [])
     True 4 16384 16 [nullptr, nullptr, nullptr, nullptr] [0, 0, 0, 0] [False, False, False, False] nullptr nullptr 0 [] []
     1 True 1 None 0 [] nullptr nullptr 0 0 False 0 0 0 0 (\<lambda>_. None))"

lemma abt_of_sel [simp]:
  "t_in_pool (abt_of h) = t_in_pool h" "t_removed (abt_of h) = t_removed h" "t_type (abt_of h) = t_type h"
  "t_pool (abt_of h) = t_pool h" "t_cth (abt_of h) = t_cth h" "p_user (abt_of h) = p_user h"
  "p_single_consumer (abt_of h) = p_single_consumer h" "p_num_blocked (abt_of h) = p_num_blocked h"
  "p_num_scheds (abt_of h) = p_num_scheds h" "p_count (abt_of h) = p_count h" "p_automatic (abt_of h) = p_automatic h"
  "p_access (abt_of h) = p_access h" "live (abt_of h) = live h" "g_initialized (abt_of h) = g_initialized h"
  "g_next_id (abt_of h) = g_next_id h" "rt_calls (abt_of h) = rt_calls h" "t_unit (abt_of h) = t_unit h"
  "tls_xstream (abt_of h) = tls_xstream h" "tls_task (abt_of h) = tls_task h" "cth_userdata (abt_of h) = cth_userdata h"
  "t_is_task (abt_of h) = t_is_task h" "t_fn (abt_of h) = t_fn h" "t_arg (abt_of h) = t_arg h"
  "g_units (abt_of h) = g_units h" "g_num_user_pools (abt_of h) = g_num_user_pools h"
  by (simp_all add: abt_of_def pool_heap.defs abt_heap.defs)

lemma abt_of_view [simp]: "pools_view (abt_of h) P L = pools_view h P L"
  by (simp add: abt_of_def pool_heap.defs pools_view_def pools_rep_def pool_linked_def mpsc_def mpsc_chain_def dll_def)

lemma heap3_more:
  "t_cth heap3 = (\<lambda>_. nullptr)" "p_num_blocked heap3 = (\<lambda>_. 0)" "p_num_scheds heap3 = (\<lambda>_. 0)"
  "p_automatic heap3 = (\<lambda>_. False)" "g_initialized heap3" "live heap3 = {512, 256}" "rt_calls heap3 = []"
  "tls_xstream heap3 = nullptr" "tls_task heap3 = nullptr" "cth_userdata heap3 = (\<lambda>_. nullptr)"
  "t_is_task heap3 = (\<lambda>_. False)" "g_units heap3 = Map.empty" "g_num_user_pools heap3 = 0"
  by (simp_all add: heap3_def builtin_push_def push_mpsc_def push_list_def list_push_def count_add_def Let_def heap2_def
      heap0_def ABTI_pool_create_builtin_def fresh_id_def pool_new_def pool_queue_init_def fun_eq_iff insert_commute)

end
