(* ===== verification/Pool_Api.thy ===== *)
theory Pool_Api
  imports Pool_Frame
begin

section \<open>The pool API\<close>

text \<open>
  \<^verbatim>\<open>ABT_pool_*\<close> and \<^verbatim>\<open>ABT_unit_*\<close> of \<^verbatim>\<open>src/src/pool.cpp\<close>.  The result is an error code or the
  output the call writes through its pointer argument, and the state; \<open>None\<close> in front means that the
  process aborts.  Where the source checks an output pointer, its address is an argument (\<open>newpool\<close>);
  the address \<^verbatim>\<open>new\<close> returned is an argument too.
\<close>

type_synonym 'a pool_state = "'a pool_heap_scheme"

definition ABT_pool_create_basic :: "ptr \<Rightarrow> int \<Rightarrow> int \<Rightarrow> bool \<Rightarrow> ptr \<Rightarrow> 'a pool_state \<Rightarrow>
    (ptr, 'a pool_state) api" where
  "ABT_pool_create_basic p kind access automatic newpool h =
     (if \<not> g_initialized h then (Inl ABT_ERR_UNINITIALIZED, h)
      else if ABTI_is_null_handle newpool then (Inl ABT_ERR_INV_ARG, h)
      else case ABT_pool_kind_of kind of None \<Rightarrow> (Inl ABT_ERR_INV_POOL_KIND, h)
      | Some k \<Rightarrow> (case ABT_pool_access_of access of None \<Rightarrow> (Inl ABT_ERR_INV_POOL_ACCESS, h)
        | Some a \<Rightarrow> (Inr (ABTI_pool_handle p), ABTI_pool_create_builtin p k a automatic h)))"

definition user_pool_new :: "ptr \<Rightarrow> ABT_pool_def \<Rightarrow> 'a pool_state \<Rightarrow> 'a pool_state" where
  "user_pool_new p d h =
     (let h0 = pool_new p h;
          h1 = h0\<lparr>p_user := (p_user h0)(p := True), p_def := (p_def h0)(p := d),
                 p_access := (p_access h0)(p := def_access d), p_kind := (p_kind h0)(p := ABT_POOL_FIFO),
                 p_automatic := (p_automatic h0)(p := False)\<rparr>;
          (i, h2) = fresh_id h1
      in h2\<lparr>p_id := (p_id h2)(p := i), p_data := (p_data h2)(p := nullptr)\<rparr>)"

definition ABT_pool_create :: "'a pool_state env \<Rightarrow> ptr \<Rightarrow> ptr \<Rightarrow> ABT_pool_def \<Rightarrow> ptr \<Rightarrow> ptr \<Rightarrow>
    'a pool_state \<Rightarrow> (ptr, 'a pool_state) api" where
  "ABT_pool_create E p def d config newpool h =
     (if \<not> g_initialized h then (Inl ABT_ERR_UNINITIALIZED, h)
      else if ABTI_is_null_handle def then (Inl ABT_ERR_INV_POOL, h)
      else if ABTI_is_null_handle newpool then (Inl ABT_ERR_INV_ARG, h)
      else if u_create_from_thread d = nullptr \<or> u_free d = nullptr \<or> p_get_size d = nullptr \<or>
              p_push d = nullptr \<or> p_pop d = nullptr then (Inl ABT_ERR_INV_POOL, h)
      else let h1 = user_pool_new p d h;
               (ret, h2) = (if p_init d \<noteq> nullptr then call_p_init E (p_init d) (ABTI_pool_handle p) config h1
                            else (ABT_SUCCESS, h1))
           in if ret \<noteq> ABT_SUCCESS then (Inl ret, h2\<lparr>live := live h2 - {p}\<rparr>)
              else (Inr (ABTI_pool_handle p), h2\<lparr>g_num_user_pools := g_num_user_pools h2 + 1\<rparr>))"

text \<open>\<open>pool\<close> is the address of the caller's variable and \<open>v\<close> its value; the output is its new value.\<close>

definition ABT_pool_free :: "'a pool_state env \<Rightarrow> ptr \<Rightarrow> ptr \<Rightarrow> 'a pool_state \<Rightarrow> (ptr, 'a pool_state) api" where
  "ABT_pool_free E pool v h =
     (if \<not> g_initialized h then (Inl ABT_ERR_UNINITIALIZED, h)
      else if ABTI_is_null_handle pool then (Inl ABT_ERR_INV_POOL, h)
      else let p = ABTI_obj v
           in if ABTI_is_null_handle p then (Inl ABT_ERR_INV_POOL, h)
              else (Inr ABT_POOL_NULL, ABTI_pool_destroy E p h))"

text \<open>Every other call starts with the same line: the handle, or \<^verbatim>\<open>ABT_ERR_INV_POOL\<close>.\<close>

definition with_pool :: "ptr \<Rightarrow> (ptr \<Rightarrow> ('b, 's) api) \<Rightarrow> 's \<Rightarrow> ('b, 's) api" where
  "with_pool pool k h =
     (let p = ABTI_obj pool in if ABTI_is_null_handle p then (Inl ABT_ERR_INV_POOL, h) else k p)"

definition with_pool_opt :: "ptr \<Rightarrow> (ptr \<Rightarrow> ('b, 's) api option) \<Rightarrow> 's \<Rightarrow> ('b, 's) api option" where
  "with_pool_opt pool k h =
     (let p = ABTI_obj pool in if ABTI_is_null_handle p then Some (Inl ABT_ERR_INV_POOL, h) else k p)"

definition ABT_pool_get_access :: "ptr \<Rightarrow> 'a pool_state \<Rightarrow> (ABT_pool_access, 'a pool_state) api" where
  "ABT_pool_get_access pool h = with_pool pool (\<lambda>p. (Inr (p_access h p), h)) h"

definition ABT_pool_is_empty :: "'a pool_state env \<Rightarrow> ptr \<Rightarrow> 'a pool_state \<Rightarrow> (bool, 'a pool_state) api" where
  "ABT_pool_is_empty E pool h = with_pool pool (\<lambda>p. (Inr (pool_size E p h = 0), h)) h"

definition ABT_pool_get_size :: "'a pool_state env \<Rightarrow> ptr \<Rightarrow> 'a pool_state \<Rightarrow> (nat, 'a pool_state) api" where
  "ABT_pool_get_size E pool h = with_pool pool (\<lambda>p. (Inr (pool_size E p h), h)) h"

definition ABT_pool_get_total_size :: "'a pool_state env \<Rightarrow> ptr \<Rightarrow> 'a pool_state \<Rightarrow> (nat, 'a pool_state) api" where
  "ABT_pool_get_total_size E pool h =
     with_pool pool (\<lambda>p. let b = p_num_blocked h p
       in (Inr (pool_size E p h + (if b > 0 then nat b else 0)), h)) h"

definition ABT_pool_set_data :: "ptr \<Rightarrow> ptr \<Rightarrow> 'a pool_state \<Rightarrow> (unit, 'a pool_state) api" where
  "ABT_pool_set_data pool d h =
     with_pool pool (\<lambda>p. (Inr (), h\<lparr>p_data := (p_data h)(p := d)\<rparr>)) h"

definition ABT_pool_get_data :: "ptr \<Rightarrow> 'a pool_state \<Rightarrow> (ptr, 'a pool_state) api" where
  "ABT_pool_get_data pool h = with_pool pool (\<lambda>p. (Inr (p_data h p), h)) h"

text \<open>\<^verbatim>\<open>(int)p->id\<close> keeps the low 32 bits, as a signed number.\<close>

definition ABT_pool_get_id :: "ptr \<Rightarrow> 'a pool_state \<Rightarrow> (int, 'a pool_state) api" where
  "ABT_pool_get_id pool h = with_pool pool (\<lambda>p. (Inr (sint (of_nat (p_id h p) :: 32 word)), h)) h"


subsection \<open>Units\<close>

definition thread_to_unit :: "ptr \<Rightarrow> 'a pool_state \<Rightarrow> ptr" where
  "thread_to_unit t h =
     (if t = nullptr then ABT_UNIT_NULL
      else if t_pool h t \<noteq> nullptr \<and> p_user h (t_pool h t) then t_unit h t else t)"

definition any_unit_to_thread :: "ptr \<Rightarrow> 'a pool_state \<Rightarrow> ptr" where
  "any_unit_to_thread u h = (let t = unit_to_thread u h in if t \<noteq> nullptr then t else u)"

definition ABT_pool_pop :: "'a pool_state env \<Rightarrow> ptr \<Rightarrow> 'a pool_state \<Rightarrow> (ptr, 'a pool_state) api option" where
  "ABT_pool_pop E pool h =
     with_pool_opt pool (\<lambda>p. do { (t, h1) \<leftarrow> pool_pop E p h; Some (Inr (thread_to_unit t h1), h1) }) h"

definition ABT_pool_pop_timedwait :: "'a pool_state env \<Rightarrow> ptr \<Rightarrow> time \<Rightarrow> 'a pool_state \<Rightarrow>
    (ptr, 'a pool_state) api option" where
  "ABT_pool_pop_timedwait E pool abstime h =
     with_pool_opt pool (\<lambda>p. do { (t, h1) \<leftarrow> pool_pop_timedwait E p abstime h;
                                 Some (Inr (thread_to_unit t h1), h1) }) h"

definition ABT_pool_pop_wait :: "'a pool_state env \<Rightarrow> ptr \<Rightarrow> time \<Rightarrow> 'a pool_state \<Rightarrow>
    (ptr, 'a pool_state) api option" where
  "ABT_pool_pop_wait E pool secs h =
     with_pool_opt pool (\<lambda>p. do { (t, h1) \<leftarrow> pool_pop_timedwait E p (CmiWallTimer E + secs) h;
                                 Some (Inr (thread_to_unit t h1), h1) }) h"

definition ABT_pool_push :: "'a pool_state env \<Rightarrow> ptr \<Rightarrow> ptr \<Rightarrow> 'a pool_state \<Rightarrow>
    (unit, 'a pool_state) api option" where
  "ABT_pool_push E pool unit h =
     with_pool_opt pool (\<lambda>p.
       let t = any_unit_to_thread unit h
       in if ABTI_is_null_handle t then Some (Inl ABT_ERR_INV_UNIT, h)
          else do { h1 \<leftarrow> (if t_pool h t \<noteq> p then ABTI_pool_associate E t p h else Some h);
                    h2 \<leftarrow> pool_push E p t h1;
                    Some (Inr (), h2) }) h"

definition ABT_pool_remove :: "'a pool_state env \<Rightarrow> ptr \<Rightarrow> ptr \<Rightarrow> 'a pool_state \<Rightarrow>
    (unit, 'a pool_state) api" where
  "ABT_pool_remove E pool unit h =
     with_pool pool (\<lambda>p.
       if p_user h p
       then (Inr (), if p_remove (p_def h p) \<noteq> nullptr
                     then call_p_remove E (p_remove (p_def h p)) pool unit h else h)
       else (Inr (), snd (remove_unit p unit h))) h"

text \<open>The print function must not change the pool, so the units it is applied to are those of \<open>h\<close>.\<close>

definition ABT_pool_print_all :: "'a pool_state env \<Rightarrow> ptr \<Rightarrow> ptr \<Rightarrow> ptr \<Rightarrow> 'a pool_state \<Rightarrow>
    (unit, 'a pool_state) api option" where
  "ABT_pool_print_all E pool arg print_fn h =
     with_pool_opt pool (\<lambda>p.
       if p_user h p
       then Some (Inr (), if p_print_all (p_def h p) \<noteq> nullptr
                          then call_p_print_all E (p_print_all (p_def h p)) pool arg print_fn h else h)
       else do { us \<leftarrow> for_each_unit p h;
                 Some (Inr (), fold (call_print_fn E print_fn arg) us h) }) h"

definition ABT_pool_print_all_threads :: "'a pool_state env \<Rightarrow> ptr \<Rightarrow> ptr \<Rightarrow> ptr \<Rightarrow> 'a pool_state \<Rightarrow>
    (unit, 'a pool_state) api option" where
  "ABT_pool_print_all_threads E pool arg print_f h =
     with_pool_opt pool (\<lambda>p.
       if p_user h p then Some (Inl ABT_ERR_FEATURE_NA, h)
       else do { us \<leftarrow> for_each_unit p h;
                 Some (Inr (), fold (\<lambda>t. call_print_fn E print_f arg (ABTI_thread_handle t)) us h) }) h"


definition ABT_pool_pop_thread :: "'a pool_state env \<Rightarrow> ptr \<Rightarrow> 'a pool_state \<Rightarrow> (ptr, 'a pool_state) api option" where
  "ABT_pool_pop_thread E pool h =
     with_pool_opt pool (\<lambda>p. do { (t, h1) \<leftarrow> pool_pop E p h; Some (Inr (ABTI_thread_handle t), h1) }) h"

text \<open>The loop of \<^verbatim>\<open>ABT_pool_pop_threads\<close>: at most \<open>n\<close> pops, until one finds nothing.\<close>

primrec pop_threads_loop :: "'a pool_state env \<Rightarrow> ptr \<Rightarrow> nat \<Rightarrow> 'a pool_state \<Rightarrow>
    (ptr list \<times> 'a pool_state) option" where
  "pop_threads_loop E p 0 h = Some ([], h)"
| "pop_threads_loop E p (Suc n) h =
     do { (t, h1) \<leftarrow> pool_pop E p h;
          if t = nullptr then Some ([], h1)
          else do { (ts, h2) \<leftarrow> pop_threads_loop E p n h1; Some (ABTI_thread_handle t # ts, h2) } }"

definition ABT_pool_pop_threads :: "'a pool_state env \<Rightarrow> ptr \<Rightarrow> nat \<Rightarrow> 'a pool_state \<Rightarrow>
    (ptr list, 'a pool_state) api option" where
  "ABT_pool_pop_threads E pool max_threads h =
     with_pool_opt pool (\<lambda>p. do { (ts, h1) \<leftarrow> pop_threads_loop E p max_threads h; Some (Inr ts, h1) }) h"

definition ABT_pool_push_thread :: "'a pool_state env \<Rightarrow> ptr \<Rightarrow> ptr \<Rightarrow> 'a pool_state \<Rightarrow>
    (unit, 'a pool_state) api option" where
  "ABT_pool_push_thread E pool thread h =
     with_pool_opt pool (\<lambda>p.
       let t = ABTI_obj thread
       in if ABTI_is_null_handle t then Some (Inl ABT_ERR_INV_THREAD, h)
          else do { h1 \<leftarrow> (if t_pool h t \<noteq> p then ABTI_pool_associate E t p h else Some h);
                    h2 \<leftarrow> pool_push E p t h1;
                    Some (Inr (), h2) }) h"

primrec ABT_pool_push_threads :: "'a pool_state env \<Rightarrow> ptr \<Rightarrow> ptr list \<Rightarrow> 'a pool_state \<Rightarrow>
    (unit, 'a pool_state) api option" where
  "ABT_pool_push_threads E pool [] h = Some (Inr (), h)"
| "ABT_pool_push_threads E pool (t # ts) h =
     do { (r, h1) \<leftarrow> ABT_pool_push_thread E pool t h;
          case r of Inl e \<Rightarrow> Some (Inl e, h1) | Inr _ \<Rightarrow> ABT_pool_push_threads E pool ts h1 }"

definition ABT_pool_pop_wait_thread :: "'a pool_state env \<Rightarrow> ptr \<Rightarrow> time \<Rightarrow> 'a pool_state \<Rightarrow>
    (ptr, 'a pool_state) api option" where
  "ABT_pool_pop_wait_thread E pool secs h =
     with_pool_opt pool (\<lambda>p. do { (t, h1) \<leftarrow> pool_pop_timedwait E p (CmiWallTimer E + secs) h;
                                 Some (Inr (ABTI_thread_handle t), h1) }) h"

text \<open>The \<^verbatim>\<open>_ex\<close> variants ignore their context argument.\<close>

definition ABT_pool_pop_thread_ex :: "'a pool_state env \<Rightarrow> ptr \<Rightarrow> ptr \<Rightarrow> 'a pool_state \<Rightarrow>
    (ptr, 'a pool_state) api option" where
  "ABT_pool_pop_thread_ex E pool ctx h = ABT_pool_pop_thread E pool h"

definition ABT_pool_pop_threads_ex :: "'a pool_state env \<Rightarrow> ptr \<Rightarrow> nat \<Rightarrow> ptr \<Rightarrow> 'a pool_state \<Rightarrow>
    (ptr list, 'a pool_state) api option" where
  "ABT_pool_pop_threads_ex E pool max_threads ctx h = ABT_pool_pop_threads E pool max_threads h"

definition ABT_pool_push_thread_ex :: "'a pool_state env \<Rightarrow> ptr \<Rightarrow> ptr \<Rightarrow> ptr \<Rightarrow> 'a pool_state \<Rightarrow>
    (unit, 'a pool_state) api option" where
  "ABT_pool_push_thread_ex E pool thread ctx h = ABT_pool_push_thread E pool thread h"

definition ABT_pool_push_threads_ex :: "'a pool_state env \<Rightarrow> ptr \<Rightarrow> ptr list \<Rightarrow> ptr \<Rightarrow> 'a pool_state \<Rightarrow>
    (unit, 'a pool_state) api option" where
  "ABT_pool_push_threads_ex E pool threads ctx h = ABT_pool_push_threads E pool threads h"

definition ABT_pool_pop_wait_thread_ex :: "'a pool_state env \<Rightarrow> ptr \<Rightarrow> time \<Rightarrow> ptr \<Rightarrow> 'a pool_state \<Rightarrow>
    (ptr, 'a pool_state) api option" where
  "ABT_pool_pop_wait_thread_ex E pool secs ctx h = ABT_pool_pop_wait_thread E pool secs h"

definition ABT_unit_get_thread :: "ptr \<Rightarrow> 'a pool_state \<Rightarrow> (ptr, 'a pool_state) api" where
  "ABT_unit_get_thread unit h =
     (if ABTI_is_null_handle unit then (Inr ABT_THREAD_NULL, h)
      else (Inr (ABTI_thread_handle (any_unit_to_thread unit h)), h))"


subsection \<open>Batches of threads\<close>

lemma with_pool_obj [simp]:
  "is_obj p \<Longrightarrow> with_pool p k h = k p" "is_obj p \<Longrightarrow> with_pool_opt p ko h = ko p"
  by (simp_all add: with_pool_def with_pool_opt_def)

lemma with_pool_null [simp]:
  "ABTI_is_null_handle p \<Longrightarrow> with_pool p k h = (Inl ABT_ERR_INV_POOL, h)"
  "ABTI_is_null_handle p \<Longrightarrow> with_pool_opt p ko h = Some (Inl ABT_ERR_INV_POOL, h)"
  by (simp_all add: with_pool_def with_pool_opt_def)

lemma handle_obj [simp]: "is_obj t \<Longrightarrow> ABTI_handle n t = t"
  by (simp add: ABTI_handle_def)

text \<open>Moving a thread from one built-in pool to another writes its two association fields.\<close>

lemma associate_builtin:
  assumes "\<not> p_user h p" "t_pool h t = nullptr \<or> \<not> p_user h (t_pool h t)"
  shows "ABTI_pool_associate E t p h =
    Some (if t_pool h t = p then h
          else h\<lparr>t_unit := (t_unit h)(t := ABT_UNIT_NULL), t_pool := (t_pool h)(t := p)\<rparr>)"
  using assms by (auto simp: ABTI_pool_associate_def ABTI_pool_disassociate_def Let_def)

lemma push_thread_view:
  assumes "pools_view h P L" "p \<in> P" "is_obj p" "is_obj t" "\<not> t_removed h t" "\<not> t_in_pool h t"
    "t_pool h t = nullptr \<or> \<not> p_user h (t_pool h t)"
  shows "\<exists>h'. ABT_pool_push_thread E p t h = Some (Inr (), h') \<and> pools_view h' P (L(p := L p @ [t])) \<and>
    t_in_pool h' = (t_in_pool h)(t := True) \<and> t_removed h' = t_removed h \<and>
    t_pool h' = (t_pool h)(t := p) \<and> p_user h' = p_user h \<and> t_type h' = t_type h \<and> t_cth h' = t_cth h"
proof -
  have u: "\<not> p_user h p" using pools_view_builtin [OF assms(1,2)] .
  define h1 where "h1 = (if t_pool h t = p then h
      else h\<lparr>t_unit := (t_unit h)(t := ABT_UNIT_NULL), t_pool := (t_pool h)(t := p)\<rparr>)"
  have v: "pools_view h1 P L" using assms(1) by (simp add: h1_def)
  have f: "t_in_pool h1 = t_in_pool h" "t_removed h1 = t_removed h" "t_pool h1 = (t_pool h)(t := p)"
    "p_user h1 = p_user h" "t_type h1 = t_type h" "t_cth h1 = t_cth h" by (auto simp: h1_def)
  obtain h' where h': "pool_push E p t h1 = Some h'" "pools_view h' P (L(p := L p @ [t]))" "qframe h1 h'"
    "t_in_pool h' = (t_in_pool h1)(t := True)" "t_removed h' = t_removed h1"
    using pool_push_view [OF v assms(2), of t E] assms f by auto
  have "ABT_pool_push_thread E p t h = Some (Inr (), h')"
    using assms(3,4) associate_builtin [OF u assms(7), of E] h'(1)
    by (auto simp: ABT_pool_push_thread_def h1_def)
  with h' f show ?thesis by (auto simp: qframe_sel)
qed

lemma push_threads_view:
  assumes "pools_view h P L" "p \<in> P" "is_obj p" "distinct ts"
    "\<forall>t\<in>set ts. is_obj t \<and> \<not> t_removed h t \<and> \<not> t_in_pool h t \<and> (t_pool h t = nullptr \<or> \<not> p_user h (t_pool h t))"
  shows "\<exists>h'. ABT_pool_push_threads E p ts h = Some (Inr (), h') \<and> pools_view h' P (L(p := L p @ ts)) \<and>
    (\<forall>t\<in>set ts. t_pool h' t = p) \<and> (\<forall>t. t \<notin> set ts \<longrightarrow> t_pool h' t = t_pool h t) \<and>
    t_type h' = t_type h \<and> t_cth h' = t_cth h"
  using assms
proof (induction ts arbitrary: h L)
  case Nil
  then show ?case by auto
next
  case (Cons t ts)
  from Cons.prems push_thread_view [of h P L p t E] obtain h1 where
    h1: "ABT_pool_push_thread E p t h = Some (Inr (), h1)" "pools_view h1 P (L(p := L p @ [t]))"
    "t_in_pool h1 = (t_in_pool h)(t := True)" "t_removed h1 = t_removed h"
    "t_pool h1 = (t_pool h)(t := p)" "p_user h1 = p_user h" "t_type h1 = t_type h" "t_cth h1 = t_cth h" by auto
  have "\<forall>u\<in>set ts. is_obj u \<and> \<not> t_removed h1 u \<and> \<not> t_in_pool h1 u \<and> (t_pool h1 u = nullptr \<or> \<not> p_user h1 (t_pool h1 u))"
    using Cons.prems(4,5) by (auto simp: h1(3-6))
  then have "\<exists>h'. ABT_pool_push_threads E p ts h1 = Some (Inr (), h') \<and> pools_view h' P (L(p := L p @ t # ts)) \<and>
    (\<forall>u\<in>set ts. t_pool h' u = p) \<and> (\<forall>u. u \<notin> set ts \<longrightarrow> t_pool h' u = t_pool h1 u) \<and>
    t_type h' = t_type h1 \<and> t_cth h' = t_cth h1"
    using Cons.IH [OF h1(2) Cons.prems(2,3)] Cons.prems(4)
    by (simp only: fun_upd_upd fun_upd_same append_assoc append.simps distinct.simps)
  then obtain h' where
    h': "ABT_pool_push_threads E p ts h1 = Some (Inr (), h')" "pools_view h' P (L(p := L p @ t # ts))"
    "\<forall>u\<in>set ts. t_pool h' u = p" "\<forall>u. u \<notin> set ts \<longrightarrow> t_pool h' u = t_pool h1 u"
    "t_type h' = t_type h1" "t_cth h' = t_cth h1" by blast
  show ?case by (rule exI [of _ h']) (use h' h1 Cons.prems(4) in \<open>auto simp: fun_upd_def\<close>)
qed

lemma pop_threads_view:
  assumes "pools_view h P L" "p \<in> P" "\<forall>t\<in>set (L p). is_obj t \<and> \<not> pinned_elsewhere E h t"
  shows "\<exists>h'. pop_threads_loop E p n h = Some (take n (L p), h') \<and> pools_view h' P (L(p := drop n (L p))) \<and>
    qframe h h'"
  using assms
proof (induction n arbitrary: h L)
  case 0
  then show ?case by auto
next
  case (Suc n)
  from pool_pop_view_frame [OF Suc.prems(1,2), of E] Suc.prems(3) obtain h1 where
    h1: "pool_pop E p h = Some (if L p = [] then nullptr else hd (L p), h1)"
    "pools_view h1 P (L(p := tl (L p)))" "qframe h h1" by auto
  show ?case
  proof (cases "L p")
    case Nil
    show ?thesis by (rule exI [of _ h1]) (use h1 Nil in \<open>auto simp: fun_upd_def\<close>)
  next
    case (Cons t ts)
    have "\<forall>u\<in>set ts. is_obj u \<and> \<not> pinned_elsewhere E h1 u"
      using Suc.prems(3) Cons pinned_qframe [OF h1(3), of E] by simp
    then have "\<exists>h'. pop_threads_loop E p n h1 = Some (take n ts, h') \<and> pools_view h' P (L(p := drop n ts)) \<and> qframe h1 h'"
      using Suc.IH [OF h1(2) Suc.prems(2)] Cons by (simp only: fun_upd_upd fun_upd_same list.sel)
    then obtain h' where
      h': "pop_threads_loop E p n h1 = Some (take n ts, h')" "pools_view h' P (L(p := drop n ts))" "qframe h1 h'" by blast
    have "is_obj t" using Suc.prems(3) Cons by simp
    with h1(1) h' Cons qframe_trans [OF h1(3) h'(3)] show ?thesis
      by (intro exI [of _ h']) (auto simp: fun_upd_def)
  qed
qed


subsection \<open>What the pool API guarantees\<close>

text \<open>
  C31. Handing a batch of threads to a pool and taking a batch back is the identity: after
  \<^verbatim>\<open>ABT_pool_push_threads\<close> of distinct unqueued threads into a built-in pool, \<^verbatim>\<open>ABT_pool_pop_threads\<close>
  with room for all of them returns first what the pool held and then the batch, in order; every
  thread of the batch is then associated with the pool, and the pool is empty.
\<close>

theorem push_threads_pop_threads:
  assumes "pools_view h P L" "p \<in> P" "is_obj p" "distinct ts"
    "\<forall>t\<in>set ts. is_obj t \<and> \<not> t_removed h t \<and> \<not> t_in_pool h t \<and> (t_pool h t = nullptr \<or> \<not> p_user h (t_pool h t))"
    "\<forall>t\<in>set (L p). is_obj t" "\<forall>t\<in>set (L p @ ts). t_type h t \<noteq> ABTI_THREAD_PRIMARY"
    "length (L p) + length ts \<le> n"
  shows "\<exists>h1 h2. ABT_pool_push_threads E p ts h = Some (Inr (), h1) \<and>
    ABT_pool_pop_threads E p n h1 = Some (Inr (L p @ ts), h2) \<and>
    pools_view h2 P (L(p := [])) \<and> (\<forall>t\<in>set ts. t_pool h2 t = p)"
proof -
  obtain h1 where h1: "ABT_pool_push_threads E p ts h = Some (Inr (), h1)" "pools_view h1 P (L(p := L p @ ts))"
    "\<forall>t\<in>set ts. t_pool h1 t = p" "t_type h1 = t_type h"
    using push_threads_view [OF assms(1-5), of E] by blast
  have "\<forall>t\<in>set ((L(p := L p @ ts)) p). is_obj t \<and> \<not> pinned_elsewhere E h1 t"
    using assms(5-7) h1(4) by (auto simp: pinned_elsewhere_def)
  from pop_threads_view [of h1 P "L(p := L p @ ts)" p E n, OF h1(2) assms(2) this] assms(8) obtain h2 where
    h2: "pop_threads_loop E p n h1 = Some (L p @ ts, h2)" "pools_view h2 P (L(p := []))" "qframe h1 h2" by auto
  have "ABT_pool_pop_threads E p n h1 = Some (Inr (L p @ ts), h2)"
    using h2(1) assms(3) by (simp add: ABT_pool_pop_threads_def)
  with h1 h2 show ?thesis by (auto simp: qframe_sel)
qed

theorem push_threads_pop_threads_witness:
  "\<exists>h1 h2. ABT_pool_push_threads env0 512 [2048, 2304] heap3 = Some (Inr (), h1) \<and>
     ABT_pool_pop_threads env0 512 8 h1 = Some (Inr [1536, 2048, 2304], h2) \<and> t_pool h2 2304 = 512"
proof -
  from push_threads_pop_threads [OF heap3_view, of 512 "[2048, 2304]" 8 env0] obtain h1 h2 where
    "ABT_pool_push_threads env0 512 [2048, 2304] heap3 = Some (Inr (), h1)"
    "ABT_pool_pop_threads env0 512 8 h1 = Some (Inr (view3 512 @ [2048, 2304]), h2)"
    "\<forall>t\<in>set [2048, 2304]. t_pool h2 t = 512"
    by (auto simp: heap3_flags view3_def ABTI_is_null_handle_def)
  then show ?thesis by (auto simp: view3_def)
qed

text \<open>
  Units name threads in both kinds of pools: once a thread has been associated with a pool, the
  unit the pool sees (the thread itself in a built-in pool, the user's unit in a user-defined one)
  leads back to the thread through \<^verbatim>\<open>ABT_unit_get_thread\<close>, and after disassociation the user's unit
  names no thread any more.  The hypotheses on the callbacks are that creating and freeing a unit
  leave the library's own tables alone, and that the address of a thread is not used as a user's unit.
\<close>

lemma unit_thread_roundtrip:
  assumes "is_obj t" "is_obj p" "t_pool h t \<noteq> p" "ABTI_pool_associate E t p h = Some h'"
    and create: "\<And>f u s. let s' = snd (call_u_create E f u s) in t_pool s' = t_pool s \<and> p_user s' = p_user s \<and>
      g_num_user_pools s' = g_num_user_pools s \<and> g_units s' = g_units s"
    and free: "\<And>f u s. let s' = call_u_free E f u s in t_pool s' = t_pool s \<and> p_user s' = p_user s \<and>
      g_num_user_pools s' = g_num_user_pools s \<and> g_units s' = g_units s"
    and "p_user h p \<Longrightarrow> g_num_user_pools h > 0" "g_units h t = None"
  shows "ABT_unit_get_thread (thread_to_unit t h') h' = (Inr t, h') \<and>
    (p_user h p \<longrightarrow> g_units (ABTI_pool_disassociate E t h') (thread_to_unit t h') = None)"
proof -
  define h1 where "h1 = (ABTI_pool_disassociate E t h)\<lparr>t_pool := (t_pool (ABTI_pool_disassociate E t h))(t := p)\<rparr>"
  have d: "p_user h1 = p_user h" "g_num_user_pools h1 = g_num_user_pools h" "g_units h1 t = None" "t_pool h1 t = p"
    using free [unfolded Let_def] assms(8) by (auto simp: h1_def ABTI_pool_disassociate_def Let_def)
  show ?thesis
  proof (cases "p_user h p")
    case False
    then have "h' = h1" using assms(3,4) d(1) by (simp add: ABTI_pool_associate_def h1_def Let_def)
    with False d assms(1,2) show ?thesis
      by (simp add: ABT_unit_get_thread_def thread_to_unit_def any_unit_to_thread_def unit_to_thread_def)
  next
    case True
    obtain u h2 where c: "call_u_create E (u_create_from_thread (p_def h1 p)) (ABTI_thread_handle t) h1 = (u, h2)" by force
    have k: "t_pool h2 = t_pool h1" "p_user h2 = p_user h1" "g_num_user_pools h2 = g_num_user_pools h1"
      using create [of "u_create_from_thread (p_def h1 p)" "ABTI_thread_handle t" h1] by (simp_all add: c)
    have "ABTI_pool_associate E t p h =
        (if ABTI_is_null_handle u then None else Some (h2\<lparr>t_unit := (t_unit h2)(t := u), g_units := (g_units h2)(u := Some t)\<rparr>))"
      using assms(3) True d(1) c unfolding ABTI_pool_associate_def h1_def by (simp add: Let_def)
    then have "is_obj u \<and> h' = h2\<lparr>t_unit := (t_unit h2)(t := u), g_units := (g_units h2)(u := Some t)\<rparr>"
      using assms(4) by (auto split: if_splits)
    then have u: "is_obj u" and h': "h' = h2\<lparr>t_unit := (t_unit h2)(t := u), g_units := (g_units h2)(u := Some t)\<rparr>"
      by simp_all
    have unit: "thread_to_unit t h' = u" using assms(1,2) True d k by (simp add: thread_to_unit_def h')
    have "g_units (ABTI_pool_disassociate E t h') u = None"
      using free [unfolded Let_def] u assms(2) True d k by (simp add: ABTI_pool_disassociate_def h' Let_def)
    moreover have "unit_to_thread u h' = t" using u assms(7) True d(2) k(3) by (simp add: unit_to_thread_def h')
    ultimately show ?thesis using u assms(1) unfolding unit
      by (simp add: ABT_unit_get_thread_def any_unit_to_thread_def)
  qed
qed

text \<open>A user-defined pool at address 768 with callbacks at small addresses, in the process of \<open>heap3\<close>.\<close>

definition user_def0 :: ABT_pool_def where
  "user_def0 = no_def\<lparr>u_create_from_thread := 1, u_free := 2, p_get_size := 3, p_push := 4, p_pop := 5\<rparr>"

text \<open>
  C35. Creating a user-defined pool is all or nothing: a definition without one of the mandatory
  callbacks is refused and changes nothing; a \<^verbatim>\<open>p_init\<close> that fails hands its code to the caller, the
  pool is freed again and does not count as a user pool; otherwise the pool exists, is user-defined
  with the given callbacks and access mode, and is counted, which is what makes its units visible to
  \<^verbatim>\<open>unit_to_thread\<close>.  (\<^verbatim>\<open>p_init\<close> is assumed to leave the library's own fields alone.)
\<close>

theorem user_pool_create:
  assumes "g_initialized h" "is_obj def" "is_obj newpool" "is_obj p" "p \<notin> live h"
    and init: "\<And>f q c s. let s' = snd (call_p_init E f q c s) in live s' = live s \<and>
      g_num_user_pools s' = g_num_user_pools s \<and> p_user s' = p_user s \<and> p_def s' = p_def s \<and> p_access s' = p_access s"
  shows "case ABT_pool_create E p def d config newpool h of
      (Inl e, h') \<Rightarrow> live h' = live h \<and> g_num_user_pools h' = g_num_user_pools h \<and>
        (0 \<in> {u_create_from_thread d, u_free d, p_get_size d, p_push d, p_pop d} \<and> e = ABT_ERR_INV_POOL \<and> h' = h \<or>
         p_init d \<noteq> nullptr \<and> e \<noteq> ABT_SUCCESS \<and> e = fst (call_p_init E (p_init d) p config (user_pool_new p d h)))
    | (Inr q, h') \<Rightarrow> q = p \<and> live h' = insert p (live h) \<and> g_num_user_pools h' = g_num_user_pools h + 1 \<and>
        p_user h' p \<and> p_def h' p = d \<and> p_access h' p = def_access d"
proof -
  have new: "live (user_pool_new p d h) = insert p (live h)"
    "g_num_user_pools (user_pool_new p d h) = g_num_user_pools h" "p_user (user_pool_new p d h) p"
    "p_def (user_pool_new p d h) p = d" "p_access (user_pool_new p d h) p = def_access d"
    by (simp_all add: user_pool_new_def pool_new_def pool_queue_init_def fresh_id_def Let_def)
  obtain r s where c: "call_p_init E (p_init d) p config (user_pool_new p d h) = (r, s)" by force
  have k: "live s = insert p (live h)" "g_num_user_pools s = g_num_user_pools h" "p_user s p" "p_def s p = d"
    "p_access s p = def_access d"
    using init [of "p_init d" p config "user_pool_new p d h"] by (simp_all add: c new)
  show ?thesis using assms(1-5) by (auto simp: ABT_pool_create_def c k new Let_def split: prod.splits if_splits)
qed

theorem user_pool_create_witness:
  "(case ABT_pool_create (env0\<lparr>call_p_init := \<lambda>_ _ _ s. (ABT_ERR_MEM, s)\<rparr>) 768 1024 (user_def0\<lparr>p_init := 6\<rparr>)
      ABT_POOL_CONFIG_NULL 1024 heap3 of
     (Inl e, h') \<Rightarrow> e = ABT_ERR_MEM \<and> live h' = live heap3 | (Inr q, h') \<Rightarrow> False)"
proof -
  let ?E = "env0\<lparr>call_p_init := \<lambda>_ _ _ s. (ABT_ERR_MEM, s)\<rparr> :: pool_heap env"
  have z: "g_initialized heap3" "768 \<notin> live heap3"
    by (simp_all add: heap3_def builtin_push_def push_mpsc_def push_list_def list_push_def count_add_def Let_def heap2_def
        heap0_def ABTI_pool_create_builtin_def fresh_id_def pool_new_def pool_queue_init_def)
  have "fst (ABT_pool_create ?E 768 1024 (user_def0\<lparr>p_init := 6\<rparr>) ABT_POOL_CONFIG_NULL 1024 heap3) = Inl ABT_ERR_MEM"
    by (simp add: ABT_pool_create_def user_def0_def no_def_def z ABTI_is_null_handle_def Let_def)
  with user_pool_create [of heap3 1024 1024 768 ?E "user_def0\<lparr>p_init := 6\<rparr>" ABT_POOL_CONFIG_NULL] z
  show ?thesis by (auto simp: ABTI_is_null_handle_def env0_def split: prod.splits sum.splits)
qed

end
