(* ===== verification/Thread.thy ===== *)
theory Thread
  imports Abt_Heap Pool_Api
begin

section \<open>Threads and tasklets\<close>

text \<open>
  \<^verbatim>\<open>src/src/thread.cpp\<close> without its public accessors (those are in \<open>Thread_Api\<close>): descriptors and
  their cache, key destructors, termination, waking, blocking, joining, creation; and from
  \<^verbatim>\<open>src/src/pool.cpp\<close> the functions that resume a popped unit.  The addresses \<^verbatim>\<open>new\<close> and
  \<^verbatim>\<open>CthCreate\<close> return are arguments.  \<open>None\<close> is an abort, or a loop that never ends.
\<close>


subsection \<open>Descriptors\<close>

text \<open>
  The constructor of \<^verbatim>\<open>ABTI_thread\<close>: every member initialiser.  (\<^verbatim>\<open>tstate\<close> starts at 0, which
  \<^verbatim>\<open>map_state\<close> reads as ready; tasklets set it before it is read.)
\<close>

definition thread_new :: "ptr \<Rightarrow> 'a abt \<Rightarrow> 'a abt" where
  "thread_new t h =
     (let h = thread_queue_init t h
      in h\<lparr>live := insert t (live h), t_cth := (t_cth h)(t := nullptr), t_pool := (t_pool h)(t := nullptr),
           t_unit := (t_unit h)(t := ABT_UNIT_NULL), t_type := (t_type h)(t := ABTI_THREAD_PRIMARY),
           t_fn := (t_fn h)(t := nullptr), t_arg := (t_arg h)(t := nullptr),
           t_attr := (t_attr h)(t := \<lparr>attr_stacksize = 0, attr_stackaddr = nullptr, attr_migratable = False\<rparr>),
           t_id := (t_id h)(t := 0), t_last_xstream := (t_last_xstream h)(t := nullptr),
           t_migrate_to := (t_migrate_to h)(t := nullptr), t_terminated := (t_terminated h)(t := False),
           t_joiners := (t_joiners h)(t := []), t_keys := (t_keys h)(t := []),
           t_freed_by_exit := (t_freed_by_exit h)(t := False), t_is_task := (t_is_task h)(t := False),
           t_blocked_pool := (t_blocked_pool h)(t := nullptr), t_parent := (t_parent h)(t := nullptr),
           t_blocked_counted := (t_blocked_counted h)(t := False),
           t_tstate := (t_tstate h)(t := CTH_STATE_READY)\<rparr>)"

text \<open>\<open>m\<close> is what \<^verbatim>\<open>new\<close> returns if the cache of this thread is empty.\<close>

definition ABTI_thread_alloc :: "ptr \<Rightarrow> 'a abt \<Rightarrow> ptr \<times> 'a abt" where
  "ABTI_thread_alloc m h =
     (if tls_thread_cache h \<noteq> []
      then let t = last (tls_thread_cache h)
           in (t, thread_new t (h\<lparr>tls_thread_cache := butlast (tls_thread_cache h)\<rparr>))
      else (m, thread_new m h))"

definition ABTI_thread_release :: "ptr \<Rightarrow> 'a abt \<Rightarrow> 'a abt" where
  "ABTI_thread_release t h =
     (let h1 = h\<lparr>live := live h - {t}\<rparr>
      in if length (tls_thread_cache h1) < 256
         then h1\<lparr>tls_thread_cache := tls_thread_cache h1 @ [t]\<rparr> else h1)"


text \<open>The assignments to the members of a new descriptor that every creating function makes.\<close>

definition thread_fill :: "ptr \<Rightarrow> ptr \<Rightarrow> ABTI_thread_type \<Rightarrow> ptr \<Rightarrow> ptr \<Rightarrow> ABTI_thread_attr \<Rightarrow> nat \<Rightarrow> ptr \<Rightarrow> ptr \<Rightarrow> bool \<Rightarrow>
    bool \<Rightarrow> 'a abt \<Rightarrow> 'a abt" where
  "thread_fill t cth type fn arg a i pool last_xstream freed_by_exit is_task h =
     h\<lparr>t_cth := (t_cth h)(t := cth), t_type := (t_type h)(t := type), t_fn := (t_fn h)(t := fn),
       t_arg := (t_arg h)(t := arg), t_attr := (t_attr h)(t := a), t_id := (t_id h)(t := i),
       t_pool := (t_pool h)(t := pool), t_unit := (t_unit h)(t := ABT_UNIT_NULL),
       t_last_xstream := (t_last_xstream h)(t := last_xstream), t_migrate_to := (t_migrate_to h)(t := nullptr),
       t_freed_by_exit := (t_freed_by_exit h)(t := freed_by_exit), t_is_task := (t_is_task h)(t := is_task),
       t_blocked_pool := (t_blocked_pool h)(t := nullptr)\<rparr>"


subsection \<open>Running to completion\<close>

text \<open>
  \<^verbatim>\<open>run_key_destructors\<close> from index \<open>i\<close> on.  A destructor may set keys itself, so the bound is read
  anew in every iteration.
\<close>

partial_function (option) run_key_destructors :: "'a abt_env \<Rightarrow> ptr \<Rightarrow> nat \<Rightarrow> 'a abt \<Rightarrow> 'a abt option" where
  "run_key_destructors E t i h =
     (if i < length (t_keys h t)
      then let v = t_keys h t ! i
           in if v = nullptr then run_key_destructors E t (Suc i) h
              else let d = (if i < length (g_key_dtors h) then g_key_dtors h ! i else nullptr);
                       h1 = h\<lparr>t_keys := (t_keys h)(t := (t_keys h t)[i := nullptr])\<rparr>;
                       h2 = (if d \<noteq> nullptr then call_fn E d v h1 else h1)
                   in run_key_destructors E t (Suc i) h2
      else Some h)"

text \<open>\<^verbatim>\<open>thread_main\<close>; \<^verbatim>\<open>ABT_thread_exit\<close> jumps to the point behind the call of the body.\<close>

definition thread_main :: "'a abt_env \<Rightarrow> ptr \<Rightarrow> 'a abt \<Rightarrow> 'a abt option" where
  "thread_main E t h = run_key_destructors E t 0 (call_fn E (t_fn h t) (t_arg h t) h)"

primrec awaken_all :: "'a abt_env \<Rightarrow> ptr list \<Rightarrow> 'a abt \<Rightarrow> 'a abt option" where
  "awaken_all E [] h = Some h"
| "awaken_all E (j # js) h = do { (b, h1) \<leftarrow> CthAwakenIfBlocked E j h; awaken_all E js h1 }"

definition ABTI_thread_terminated :: "'a abt_env \<Rightarrow> ptr \<Rightarrow> 'a abt \<Rightarrow> 'a abt option" where
  "ABTI_thread_terminated E t h =
     (let joiners = t_joiners h t;
          h1 = h\<lparr>t_terminated := (t_terminated h)(t := True), t_joiners := (t_joiners h)(t := [])\<rparr>
      in do { h2 \<leftarrow> awaken_all E joiners h1;
              Some (if t_type h2 t = ABTI_THREAD_DETACHED
                    then ABTI_thread_release t (ABTI_pool_disassociate E t h2) else h2) })"

definition thread_exit_fn :: "'a abt_env \<Rightarrow> ptr \<Rightarrow> 'a abt \<Rightarrow> 'a abt option" where
  "thread_exit_fn E t h = ABTI_thread_terminated E t h"


subsection \<open>Waking and blocking\<close>

definition uncount_blocked :: "ptr \<Rightarrow> 'a abt \<Rightarrow> 'a abt" where
  "uncount_blocked t h =
     (if t_blocked_counted h t
      then h\<lparr>t_blocked_counted := (t_blocked_counted h)(t := False),
             p_num_blocked := (p_num_blocked h)(t_blocked_pool h t := p_num_blocked h (t_blocked_pool h t) - 1)\<rparr>
      else h)"

definition ABTI_thread_awaken_fn :: "'a abt_env \<Rightarrow> ptr \<Rightarrow> 'a abt \<Rightarrow> 'a abt option" where
  "ABTI_thread_awaken_fn E t h =
     (let h1 = uncount_blocked t h
      in do { h2 \<leftarrow> (if t_migrate_to h1 t \<noteq> nullptr
                    then let p = t_migrate_to h1 t
                         in ABTI_pool_associate E t p (h1\<lparr>t_migrate_to := (t_migrate_to h1)(t := nullptr)\<rparr>)
                    else Some h1);
              pool_push E (t_pool h2 t) t h2 })"

text \<open>\<^verbatim>\<open>ABTI_thread_block\<close> up to the suspension, then the suspension.\<close>

definition block_enter :: "ptr \<Rightarrow> 'a abt \<Rightarrow> 'a abt" where
  "block_enter self h =
     (if t_type h self = ABTI_THREAD_SCHED then h
      else let p = t_pool h self;
               h1 = h\<lparr>p_num_blocked := (p_num_blocked h)(p := p_num_blocked h p + 1)\<rparr>;
               h2 = h1\<lparr>t_blocked_pool := (t_blocked_pool h1)(self := p)\<rparr>
           in h2\<lparr>t_blocked_counted := (t_blocked_counted h2)(self := True)\<rparr>)"

definition ABTI_thread_block :: "'a abt_env \<Rightarrow> ptr \<Rightarrow> 'a abt \<Rightarrow> 'a abt" where
  "ABTI_thread_block E self h = CthSuspendBlocked E (block_enter self h)"

definition runner_awaken_fn :: "'a abt_env \<Rightarrow> ptr \<Rightarrow> ptr \<Rightarrow> 'a abt \<Rightarrow> 'a abt" where
  "runner_awaken_fn E cth t h =
     (let h1 = uncount_blocked t h
      in rt (CmiPushPE (if t_last_xstream h1 t \<noteq> nullptr then x_rank h1 (t_last_xstream h1 t) else CmiMyRank E) cth) h1)"

definition ABTI_thread_wrap_runner :: "ptr \<Rightarrow> ptr \<Rightarrow> ptr \<Rightarrow> 'a abt \<Rightarrow> ptr \<times> 'a abt" where
  "ABTI_thread_wrap_runner m cth pool h =
     (let (t, h1) = ABTI_thread_alloc m h;
          (i, h2) = fresh_id h1;
          h3 = thread_fill t cth ABTI_THREAD_SCHED nullptr nullptr
                 \<lparr>attr_stacksize = 0, attr_stackaddr = nullptr, attr_migratable = False\<rparr> i pool (tls_xstream h2) False False h2
      in (t, h3\<lparr>cth_userdata := (cth_userdata h3)(cth := t),
                cth_awaken := (cth_awaken h3)(cth := Some (Runner_awaken t))\<rparr>))"

definition ABTI_thread_wrap_primary :: "'a abt_env \<Rightarrow> ptr \<Rightarrow> ptr \<Rightarrow> ptr \<Rightarrow> 'a abt \<Rightarrow> (ptr \<times> 'a abt) option" where
  "ABTI_thread_wrap_primary E m cth pool h =
     (let (t, h1) = ABTI_thread_alloc m h;
          (i, h2) = fresh_id h1;
          h3 = thread_fill t cth ABTI_THREAD_PRIMARY nullptr nullptr
                 \<lparr>attr_stacksize = 0, attr_stackaddr = nullptr, attr_migratable = True\<rparr> i nullptr nullptr False False h2
      in do { h4 \<leftarrow> ABTI_pool_associate E t pool h3;
              Some (t, h4\<lparr>cth_userdata := (cth_userdata h4)(cth := t),
                          cth_awaken := (cth_awaken h4)(cth := Some (Thread_awaken t))\<rparr>) })"


subsection \<open>Joining and freeing\<close>

text \<open>
  An external thread or a tasklet polls; a ULT takes the join lock of \<open>t\<close> (others may run while it
  waits for the lock), looks again, and blocks as a joiner.
\<close>

partial_function (option) join_spin :: "'a abt_env \<Rightarrow> ptr \<Rightarrow> 'a abt \<Rightarrow> 'a abt option" where
  "join_spin E t h = (if t_terminated h t then Some h else join_spin E t (sched_yield E h))"

definition ABTI_thread_join_impl :: "'a abt_env \<Rightarrow> ptr \<Rightarrow> 'a abt \<Rightarrow> (unit, 'a abt) api option" where
  "ABTI_thread_join_impl E t h =
     (if t_terminated h t then Some (Inr (), h)
      else let self = ABTI_self_thread E h
           in if self = t then Some (Inl ABT_ERR_INV_THREAD, h)
              else if ABTI_can_block h self
              then let h1 = others_during_wait E h
                   in if t_terminated h1 t then Some (Inr (), h1)
                      else let h2 = h1\<lparr>t_joiners := (t_joiners h1)(t := t_joiners h1 t @ [t_cth h1 self])\<rparr>
                           in Some (Inr (), ABTI_thread_block E self h2)
              else do { h1 \<leftarrow> join_spin E t h; Some (Inr (), h1) })"

definition ABTI_thread_destroy :: "'a abt_env \<Rightarrow> ptr \<Rightarrow> 'a abt \<Rightarrow> 'a abt" where
  "ABTI_thread_destroy E t h =
     (let h1 = ABTI_pool_disassociate E t h;
          h2 = (if t_cth h1 t \<noteq> nullptr \<and> CmiIsPeThread E then rt (CthFree (t_cth h1 t)) h1 else h1)
      in ABTI_thread_release t h2)"

definition map_state :: "'a abt_env \<Rightarrow> ptr \<Rightarrow> 'a abt \<Rightarrow> ABT_thread_state" where
  "map_state E t h =
     (if t_terminated h t then ABT_THREAD_STATE_TERMINATED
      else case (if t_cth h t \<noteq> nullptr then CthGetState E (t_cth h t) h else t_tstate h t) of
        CTH_STATE_RUNNING \<Rightarrow> ABT_THREAD_STATE_RUNNING
      | CTH_STATE_BLOCKED \<Rightarrow> ABT_THREAD_STATE_BLOCKED
      | CTH_STATE_TERMINATED \<Rightarrow> ABT_THREAD_STATE_TERMINATED
      | CTH_STATE_READY \<Rightarrow> ABT_THREAD_STATE_READY)"


subsection \<open>Creation\<close>

text \<open>
  The part of \<^verbatim>\<open>thread_create_impl\<close> that runs on a PE.  \<open>m\<close> is the address of a new descriptor, \<open>cth\<close>
  what \<^verbatim>\<open>CthCreate\<close> returns, \<open>newthread\<close> the address of the caller's handle variable (null: a
  detached thread); the output is the handle.
\<close>

definition thread_setup :: "ptr \<Rightarrow> ptr \<Rightarrow> ptr \<Rightarrow> ptr \<Rightarrow> ptr \<Rightarrow> ptr \<Rightarrow> bool \<Rightarrow> 'a abt \<Rightarrow> ptr \<times> 'a abt" where
  "thread_setup m cth fn arg attr newthread is_task h =
     (let (t, h1) = ABTI_thread_alloc m h;
          type = (if newthread \<noteq> nullptr then ABTI_THREAD_NAMED else ABTI_THREAD_DETACHED);
          a = (if ABTI_obj attr \<noteq> nullptr then a_attr h1 (ABTI_obj attr)
               else \<lparr>attr_stacksize = 0, attr_stackaddr = nullptr, attr_migratable = True\<rparr>);
          stacksize = (if attr_stacksize a \<noteq> 0 then attr_stacksize a else g_default_stacksize h1);
          (i, h2) = fresh_id h1;
          h3 = thread_fill t cth type fn arg a i nullptr nullptr (type = ABTI_THREAD_DETACHED) is_task h2;
          h4 = (rt (CthCreate cth (sint (of_nat stacksize :: 32 word))) h3)
                 \<lparr>cth_userdata := (cth_userdata h3)(cth := t), cth_awaken := (cth_awaken h3)(cth := Some (Thread_awaken t))\<rparr>;
          h5 = rt (CthSetChooseFn cth) h4;
          h6 = (if type = ABTI_THREAD_NAMED then rt (CthSetKeepOnExit cth) h5 else h5)
      in (t, rt (CthSetExitFn cth t) h6))"

definition thread_create_on_pe :: "'a abt_env \<Rightarrow> ptr \<Rightarrow> ptr \<Rightarrow> ptr \<Rightarrow> ptr \<Rightarrow> ptr \<Rightarrow> ptr \<Rightarrow> ptr \<Rightarrow> bool \<Rightarrow>
    'a abt \<Rightarrow> (ptr, 'a abt) api option" where
  "thread_create_on_pe E m cth p fn arg attr newthread is_task h =
     (let (t, h6) = thread_setup m cth fn arg attr newthread is_task h
      in do { h7 \<leftarrow> ABTI_pool_associate E t p h6;
              (b, h8) \<leftarrow> CthAwakenIfBlocked E cth h7;
              Some (Inr (ABTI_thread_handle t), h8) })"

text \<open>
  \<^verbatim>\<open>ABTI_run_on_pe\<close> of \<^verbatim>\<open>xstream.cpp\<close>: a message asks a worker PE to run a function, the caller waits
  until the function has returned.  \<open>Epe\<close> is the environment of the PE that serves the message when the
  caller is no PE thread.
\<close>

definition ABTI_run_on_pe :: "('a abt \<Rightarrow> 'b) \<Rightarrow> 'a abt \<Rightarrow> 'b" where
  "ABTI_run_on_pe fn h = fn (rt (RunMsg (if g_num_pes h > 1 then 1 else 0)) h)"

definition thread_create_impl :: "'a abt_env \<Rightarrow> 'a abt_env \<Rightarrow> ptr \<Rightarrow> ptr \<Rightarrow> ptr \<Rightarrow> ptr \<Rightarrow> ptr \<Rightarrow> ptr \<Rightarrow> ptr \<Rightarrow>
    bool \<Rightarrow> 'a abt \<Rightarrow> (ptr, 'a abt) api option" where
  "thread_create_impl E Epe m cth pool fn arg attr newthread is_task h =
     (if \<not> g_initialized h then Some (Inl ABT_ERR_UNINITIALIZED, h)
      else let p = ABTI_obj pool
           in if ABTI_is_null_handle p then Some (Inl ABT_ERR_INV_POOL, h)
              else if \<not> CmiIsPeThread E
              then ABTI_run_on_pe (thread_create_on_pe Epe m cth p fn arg attr newthread is_task) h
              else thread_create_on_pe E m cth p fn arg attr newthread is_task h)"

definition ABT_thread_create :: "'a abt_env \<Rightarrow> 'a abt_env \<Rightarrow> ptr \<Rightarrow> ptr \<Rightarrow> ptr \<Rightarrow> ptr \<Rightarrow> ptr \<Rightarrow> ptr \<Rightarrow> ptr \<Rightarrow>
    'a abt \<Rightarrow> (ptr, 'a abt) api option" where
  "ABT_thread_create E Epe m cth pool fn arg attr newthread h =
     thread_create_impl E Epe m cth pool fn arg attr newthread False h"

text \<open>\<^verbatim>\<open>ABTI_thread_create_internal\<close>: with a temporary attribute object \<open>a\<close> that carries the stack size.\<close>

definition ABTI_thread_create_internal :: "'a abt_env \<Rightarrow> 'a abt_env \<Rightarrow> ptr \<Rightarrow> ptr \<Rightarrow> ptr \<Rightarrow> ptr \<Rightarrow> ptr \<Rightarrow> ptr \<Rightarrow> nat \<Rightarrow>
    'a abt \<Rightarrow> (ptr, 'a abt) api option" where
  "ABTI_thread_create_internal E Epe a m cth pool fn arg stacksize h =
     (let h1 = h\<lparr>live := insert a (live h),
                a_attr := (a_attr h)(a := \<lparr>attr_stacksize = stacksize, attr_stackaddr = nullptr, attr_migratable = True\<rparr>)\<rparr>
      in do { (r, h2) \<leftarrow> thread_create_impl E Epe m cth pool fn arg a nullptr False h1;
              Some (r, h2\<lparr>live := live h2 - {a}\<rparr>) })"

definition task_create_impl :: "'a abt_env \<Rightarrow> ptr \<Rightarrow> ptr \<Rightarrow> ptr \<Rightarrow> ptr \<Rightarrow> ptr \<Rightarrow> 'a abt \<Rightarrow> (ptr, 'a abt) api option" where
  "task_create_impl E m pool fn arg newtask h =
     (if \<not> g_initialized h then Some (Inl ABT_ERR_UNINITIALIZED, h)
      else let p = ABTI_obj pool
           in if ABTI_is_null_handle p then Some (Inl ABT_ERR_INV_POOL, h)
              else let (t, h1) = ABTI_thread_alloc m h;
                       type = (if newtask \<noteq> nullptr then ABTI_THREAD_NAMED else ABTI_THREAD_DETACHED);
                       (i, h2) = fresh_id h1;
                       h3 = (thread_fill t nullptr type fn arg
                               \<lparr>attr_stacksize = 0, attr_stackaddr = nullptr, attr_migratable = True\<rparr> i nullptr nullptr
                               (type = ABTI_THREAD_DETACHED) True h2)\<lparr>t_tstate := (t_tstate h2)(t := CTH_STATE_READY)\<rparr>
                   in do { h4 \<leftarrow> ABTI_pool_associate E t p h3;
                           h5 \<leftarrow> pool_push E p t h4;
                           Some (Inr (ABTI_thread_handle t), h5) })"


subsection \<open>Running a popped unit\<close>

definition ABTI_pool_run_thread :: "'a abt_env \<Rightarrow> ptr \<Rightarrow> 'a abt \<Rightarrow> 'a abt option" where
  "ABTI_pool_run_thread E t h =
     (let h1 = h\<lparr>t_last_xstream := (t_last_xstream h)(t := tls_xstream h)\<rparr>;
          caller = ABTI_self_thread E h1;
          parent = (if caller \<noteq> nullptr \<and> t_cth h1 caller \<noteq> nullptr \<and> \<not> t_is_task h1 caller
                    then t_cth h1 caller else nullptr);
          h2 = h1\<lparr>t_parent := (t_parent h1)(t := parent)\<rparr>
      in if t_cth h2 t = nullptr
         then let prev = tls_task h2;
                  h3 = h2\<lparr>tls_task := t, t_tstate := (t_tstate h2)(t := CTH_STATE_RUNNING)\<rparr>;
                  h4 = call_fn E (t_fn h3 t) (t_arg h3 t) h3;
                  h5 = h4\<lparr>t_tstate := (t_tstate h4)(t := CTH_STATE_TERMINATED), tls_task := prev\<rparr>
              in ABTI_thread_terminated E t h5
         else Some (resume_thread E (t_cth h2 t) h2))"

definition ABTI_poll_pool :: "'a abt_env \<Rightarrow> ptr \<Rightarrow> 'a abt \<Rightarrow> (int \<times> 'a abt) option" where
  "ABTI_poll_pool E p h =
     do { (t, h1) \<leftarrow> pool_pop E p h;
          if t = nullptr then Some (0, h1)
          else do { h2 \<leftarrow> ABTI_pool_run_thread E t (rt CsdReleaseIdle h1); Some (1, h2) } }"

text \<open>\<open>idx\<close> is an index of the scheduler's pools, from its \<^verbatim>\<open>PrioCtx\<close>.\<close>

definition ABTI_poll_pool_prio :: "'a abt_env \<Rightarrow> ptr \<Rightarrow> nat \<Rightarrow> 'a abt \<Rightarrow> (int \<times> 'a abt) option" where
  "ABTI_poll_pool_prio E s idx h =
     (if \<exists>i<idx. pool_size E (s_pools h s ! i) h \<noteq> 0 then Some (0, h)
      else ABTI_poll_pool E (s_pools h s ! idx) h)"


subsection \<open>Waking routes to the pool\<close>

text \<open>The pool a thread goes to when it is woken, and what a wake changes besides queueing it there.\<close>

definition wake_target :: "ptr \<Rightarrow> 'a abt \<Rightarrow> ptr" where
  "wake_target t h = (if t_migrate_to h t \<noteq> nullptr then t_migrate_to h t else t_pool h t)"

definition awaken_frame :: "ptr \<Rightarrow> 'a abt \<Rightarrow> 'a abt \<Rightarrow> bool" where
  "awaken_frame t h h' \<longleftrightarrow>
     t_pool h' = (t_pool h)(t := wake_target t h) \<and> t_migrate_to h' = (t_migrate_to h)(t := nullptr) \<and>
     t_blocked_counted h' = (t_blocked_counted h)(t := False) \<and>
     p_num_blocked h' = (if t_blocked_counted h t
       then (p_num_blocked h)(t_blocked_pool h t := p_num_blocked h (t_blocked_pool h t) - 1) else p_num_blocked h) \<and>
     t_in_pool h' = (t_in_pool h)(t := True) \<and> t_removed h' = t_removed h \<and>
     t_type h' = t_type h \<and> t_cth h' = t_cth h \<and> t_terminated h' = t_terminated h \<and>
     t_joiners h' = t_joiners h \<and> t_blocked_pool h' = t_blocked_pool h \<and> t_id h' = t_id h \<and>
     cth_awaken h' = cth_awaken h \<and> cth_userdata h' = cth_userdata h \<and> p_user h' = p_user h \<and>
     live h' = live h \<and> tls_thread_cache h' = tls_thread_cache h \<and> g_next_id h' = g_next_id h \<and>
     t_fn h' = t_fn h \<and> t_arg h' = t_arg h \<and> t_is_task h' = t_is_task h \<and> t_keys h' = t_keys h \<and>
     g_initialized h' = g_initialized h \<and> tls_task h' = tls_task h \<and> abt_heap.more h' = abt_heap.more h \<and>
     x_finished h' = x_finished h \<and> x_state h' = x_state h \<and> x_joiners h' = x_joiners h \<and> s_used_by h' = s_used_by h"

lemma awaken_view:
  assumes v: "pools_view h P L" and q: "wake_target t h \<in> P" and old: "t_pool h t = nullptr \<or> \<not> p_user h (t_pool h t)"
    and t: "t \<noteq> nullptr" "\<not> t_removed h t" "\<not> t_in_pool h t"
  shows "\<exists>h'. ABTI_thread_awaken_fn E t h = Some h' \<and>
    pools_view h' P (L(wake_target t h := L (wake_target t h) @ [t])) \<and> awaken_frame t h h'"
proof -
  let ?q = "wake_target t h"
  define h1 where "h1 = uncount_blocked t h"
  have h1: "t_migrate_to h1 = t_migrate_to h" "t_pool h1 = t_pool h" "p_user h1 = p_user h" "pools_view h1 P L"
    using v by (auto simp: h1_def uncount_blocked_def)
  have u: "\<not> p_user h ?q" by (rule pools_view_builtin [OF v q])
  define h2 where "h2 = (if t_migrate_to h1 t \<noteq> nullptr \<and> t_pool h t \<noteq> ?q
    then h1\<lparr>t_migrate_to := (t_migrate_to h1)(t := nullptr), t_unit := (t_unit h1)(t := ABT_UNIT_NULL), t_pool := (t_pool h1)(t := ?q)\<rparr>
    else h1\<lparr>t_migrate_to := (t_migrate_to h1)(t := nullptr)\<rparr>)"
  have step: "(if t_migrate_to h1 t \<noteq> nullptr
      then let p = t_migrate_to h1 t in ABTI_pool_associate E t p (h1\<lparr>t_migrate_to := (t_migrate_to h1)(t := nullptr)\<rparr>)
      else Some h1) = Some (if t_migrate_to h1 t \<noteq> nullptr then h2 else h1)"
    using associate_builtin [of "h1\<lparr>t_migrate_to := (t_migrate_to h1)(t := nullptr)\<rparr>" ?q t E] u old h1
    by (auto simp: h2_def wake_target_def Let_def)
  define h3 where "h3 = (if t_migrate_to h1 t \<noteq> nullptr then h2 else h1)"
  have f: "t_pool h3 = (t_pool h)(t := ?q)" "t_migrate_to h3 = (t_migrate_to h)(t := nullptr)" "pools_view h3 P L"
    "t_in_pool h3 = t_in_pool h" "t_removed h3 = t_removed h"
    using h1 by (auto simp: h3_def h2_def wake_target_def h1_def uncount_blocked_def)
  from pool_push_view [OF f(3) q t(1), of E] t f obtain h' where
    h': "pool_push E ?q t h3 = Some h'" "pools_view h' P (L(?q := L ?q @ [t]))" "qframe h3 h'"
    "t_in_pool h' = (t_in_pool h3)(t := True)" "t_removed h' = t_removed h3" by auto
  have "ABTI_thread_awaken_fn E t h = Option.bind (Some h3) (\<lambda>x. pool_push E (t_pool x t) t x)"
    using step unfolding ABTI_thread_awaken_fn_def h1_def [symmetric] h3_def Let_def by (simp only:)
  then have "ABTI_thread_awaken_fn E t h = Some h'" using h'(1) f(1) by simp
  moreover have "awaken_frame t h h'"
    using h'(4,5) f unfolding awaken_frame_def qframe_sel [OF h'(3)] qframe_abt [OF h'(3)]
    by (auto simp: h3_def h2_def h1_def uncount_blocked_def intro!: fun_upd_idem [symmetric])
  ultimately show ?thesis using h'(2) by blast
qed

end
