(* ===== verification/Thread_Api.thy ===== *)
theory Thread_Api
  imports Thread
begin

section \<open>The thread API\<close>

text \<open>
  \<^verbatim>\<open>ABT_thread_*\<close>, \<^verbatim>\<open>ABT_self_*\<close>, \<^verbatim>\<open>ABT_key_*\<close> and \<^verbatim>\<open>ABT_task_*\<close> of \<^verbatim>\<open>src/src/thread.cpp\<close>.  Results
  are as for pools.  A few calls write their output variable also when they fail: these return the
  error code and what they wrote (\<open>None\<close>: nothing), and \<open>None\<close> in front stands for writing through a
  null pointer.
\<close>


subsection \<open>Handles\<close>

text \<open>The lines most calls begin with.\<close>

definition with_thread :: "ptr \<Rightarrow> (ptr \<Rightarrow> ('b, 's) api) \<Rightarrow> 's \<Rightarrow> ('b, 's) api" where
  "with_thread thread k h =
     (let t = ABTI_obj thread in if ABTI_is_null_handle t then (Inl ABT_ERR_INV_THREAD, h) else k t)"

definition with_thread_opt :: "ptr \<Rightarrow> (ptr \<Rightarrow> ('b, 's) api option) \<Rightarrow> 's \<Rightarrow> ('b, 's) api option" where
  "with_thread_opt thread k h =
     (let t = ABTI_obj thread in if ABTI_is_null_handle t then Some (Inl ABT_ERR_INV_THREAD, h) else k t)"

definition with_key :: "ptr \<Rightarrow> (ptr \<Rightarrow> ('b, 's) api) \<Rightarrow> 's \<Rightarrow> ('b, 's) api" where
  "with_key key f h =
     (let k = ABTI_obj key in if ABTI_is_null_handle k then (Inl ABT_ERR_INV_KEY, h) else f k)"

definition with_attr :: "ptr \<Rightarrow> (ptr \<Rightarrow> ('b, 's) api) \<Rightarrow> 's \<Rightarrow> ('b, 's) api" where
  "with_attr attr f h =
     (let a = ABTI_obj attr in if ABTI_is_null_handle a then (Inl ABT_ERR_INV_THREAD_ATTR, h) else f a)"

definition task_get :: "ptr \<Rightarrow> 'a abt \<Rightarrow> ptr" where
  "task_get task h = (let t = ABTI_obj task in if t \<noteq> nullptr \<and> t_is_task h t then t else nullptr)"

definition with_task :: "ptr \<Rightarrow> (ptr \<Rightarrow> ('b, 'a abt) api) \<Rightarrow> 'a abt \<Rightarrow> ('b, 'a abt) api" where
  "with_task task k h =
     (let t = task_get task h in if ABTI_is_null_handle t then (Inl ABT_ERR_INV_TASK, h) else k t)"

definition no_self :: "'a abt_env \<Rightarrow> ABT_error" where
  "no_self E = (if CmiIsPeThread E then ABT_ERR_INV_THREAD else ABT_ERR_INV_XSTREAM)"

definition with_self :: "'a abt_env \<Rightarrow> (ptr \<Rightarrow> ('b, 'a abt) api) \<Rightarrow> 'a abt \<Rightarrow> ('b, 'a abt) api" where
  "with_self E k h =
     (let t = ABTI_self_thread E h in if t = nullptr then (Inl (no_self E), h) else k t)"


subsection \<open>Life cycle\<close>

definition main_pool :: "ptr \<Rightarrow> 'a abt \<Rightarrow> ptr option" where
  "main_pool x h =
     (if x_main_sched h x = nullptr \<or> s_pools h (x_main_sched h x) = [] then None
      else Some (ABTI_pool_handle (s_pools h (x_main_sched h x) ! 0)))"

definition ABT_thread_create_on_xstream :: "'a abt_env \<Rightarrow> 'a abt_env \<Rightarrow> ptr \<Rightarrow> ptr \<Rightarrow> ptr \<Rightarrow> ptr \<Rightarrow> ptr \<Rightarrow> ptr \<Rightarrow>
    ptr \<Rightarrow> 'a abt \<Rightarrow> (ptr, 'a abt) api option" where
  "ABT_thread_create_on_xstream E Epe m cth xstream fn arg attr newthread h =
     (let x = ABTI_obj xstream
      in if ABTI_is_null_handle x then Some (Inl ABT_ERR_INV_XSTREAM, h)
         else case main_pool x h of None \<Rightarrow> Some (Inl ABT_ERR_INV_XSTREAM, h)
         | Some p \<Rightarrow> ABT_thread_create E Epe m cth p fn arg attr newthread h)"

definition ABT_thread_join :: "'a abt_env \<Rightarrow> ptr \<Rightarrow> 'a abt \<Rightarrow> (unit, 'a abt) api option" where
  "ABT_thread_join E thread h =
     (if \<not> g_initialized h then Some (Inl ABT_ERR_UNINITIALIZED, h)
      else with_thread_opt thread (\<lambda>t.
        if t_type h t \<noteq> ABTI_THREAD_NAMED then Some (Inl ABT_ERR_INV_THREAD, h)
        else ABTI_thread_join_impl E t h) h)"

primrec ABT_thread_join_many :: "'a abt_env \<Rightarrow> ptr list \<Rightarrow> 'a abt \<Rightarrow> (unit, 'a abt) api option" where
  "ABT_thread_join_many E [] h = Some (Inr (), h)"
| "ABT_thread_join_many E (t # ts) h =
     do { (r, h1) \<leftarrow> ABT_thread_join E t h;
          case r of Inl e \<Rightarrow> Some (Inl e, h1) | Inr _ \<Rightarrow> ABT_thread_join_many E ts h1 }"

text \<open>\<open>thread\<close> is the address of the caller's variable, \<open>v\<close> its value; the output is its new value.\<close>

definition ABT_thread_free :: "'a abt_env \<Rightarrow> ptr \<Rightarrow> ptr \<Rightarrow> 'a abt \<Rightarrow> (ptr, 'a abt) api option" where
  "ABT_thread_free E thread v h =
     (if \<not> g_initialized h then Some (Inl ABT_ERR_UNINITIALIZED, h)
      else if ABTI_is_null_handle thread then Some (Inl ABT_ERR_INV_THREAD, h)
      else with_thread_opt v (\<lambda>t.
        if t_type h t \<noteq> ABTI_THREAD_NAMED then Some (Inl ABT_ERR_INV_THREAD, h)
        else if ABTI_self_thread E h = t then Some (Inl ABT_ERR_INV_THREAD, h)
        else do { (r, h1) \<leftarrow> ABTI_thread_join_impl E t h;
                  case r of Inl e \<Rightarrow> Some (Inl e, h1)
                  | Inr _ \<Rightarrow> Some (Inr ABT_THREAD_NULL, ABTI_thread_destroy E t h1) }) h)"

text \<open>
  The array at \<open>thread_list\<close> with the contents \<open>ts\<close>; the second result is its contents afterwards,
  also when a call fails.
\<close>

primrec ABT_thread_free_many :: "'a abt_env \<Rightarrow> ptr \<Rightarrow> ptr list \<Rightarrow> 'a abt \<Rightarrow>
    ((ABT_error + unit) \<times> ptr list \<times> 'a abt) option" where
  "ABT_thread_free_many E thread_list [] h = Some (Inr (), [], h)"
| "ABT_thread_free_many E thread_list (t # ts) h =
     do { (r, h1) \<leftarrow> ABT_thread_free E thread_list t h;
          case r of Inl e \<Rightarrow> Some (Inl e, t # ts, h1)
          | Inr v \<Rightarrow> do { (r2, vs, h2) \<leftarrow> ABT_thread_free_many E thread_list ts h1; Some (r2, v # vs, h2) } }"

definition ABT_thread_yield :: "'a abt_env \<Rightarrow> 'a abt \<Rightarrow> (unit, 'a abt) api" where
  "ABT_thread_yield E h =
     (if \<not> g_initialized h then (Inl ABT_ERR_UNINITIALIZED, h)
      else let t = ABTI_self_thread E h
           in if t = nullptr \<or> t_is_task h t then (Inr (), h)
              else let h1 = CthYield E (h\<lparr>tls_yielding := True\<rparr>) in (Inr (), h1\<lparr>tls_yielding := False\<rparr>))"

definition ABT_thread_yield_to :: "'a abt_env \<Rightarrow> ptr \<Rightarrow> 'a abt \<Rightarrow> (unit, 'a abt) api" where
  "ABT_thread_yield_to E thread h = ABT_thread_yield E h"

definition ABT_thread_resume :: "'a abt_env \<Rightarrow> ptr \<Rightarrow> 'a abt \<Rightarrow> (unit, 'a abt) api option" where
  "ABT_thread_resume E thread h =
     with_thread_opt thread (\<lambda>t.
       do { (b, h1) \<leftarrow> CthAwakenIfBlocked E (t_cth h t) h;
            Some (if b then Inr () else Inl ABT_ERR_THREAD, h1) }) h"

definition ABT_thread_create_to :: "'a abt_env \<Rightarrow> 'a abt_env \<Rightarrow> ptr \<Rightarrow> ptr \<Rightarrow> ptr \<Rightarrow> ptr \<Rightarrow> ptr \<Rightarrow> ptr \<Rightarrow> ptr \<Rightarrow>
    'a abt \<Rightarrow> (ptr, 'a abt) api option" where
  "ABT_thread_create_to E Epe m cth pool fn arg attr newthread h =
     do { (r, h1) \<leftarrow> thread_create_impl E Epe m cth pool fn arg attr newthread False h;
          case r of Inl e \<Rightarrow> Some (Inl e, h1)
          | Inr v \<Rightarrow> Some (if ABTI_can_block h1 (ABTI_self_thread E h1)
              then (case ABT_thread_yield E h1 of (Inl e, h2) \<Rightarrow> (Inl e, h2) | (Inr _, h2) \<Rightarrow> (Inr v, h2))
              else (Inr v, h1)) }"

text \<open>\<^verbatim>\<open>ABT_thread_exit\<close> returns only on an error; \<open>None\<close>: it jumps to the end of \<^verbatim>\<open>thread_main\<close>.\<close>

definition ABT_thread_exit :: "'a abt_env \<Rightarrow> 'a abt \<Rightarrow> ABT_error option" where
  "ABT_thread_exit E h =
     (if \<not> g_initialized h then Some ABT_ERR_UNINITIALIZED
      else let t = ABTI_self_thread E h
           in if t = nullptr then Some (no_self E)
              else if t_type h t = ABTI_THREAD_PRIMARY then Some ABT_ERR_INV_THREAD else None)"

definition ABT_self_exit :: "'a abt_env \<Rightarrow> 'a abt \<Rightarrow> ABT_error option" where
  "ABT_self_exit E h = ABT_thread_exit E h"

definition ABT_self_schedule :: "'a abt_env \<Rightarrow> ptr \<Rightarrow> ptr \<Rightarrow> 'a abt \<Rightarrow> (unit, 'a abt) api option" where
  "ABT_self_schedule E thread pool h =
     with_thread_opt thread (\<lambda>t.
       let self = ABTI_self_thread E h
       in if \<not> CmiIsPeThread E \<or> self = nullptr \<or> t_cth h self = nullptr then Some (Inl ABT_ERR_INV_THREAD, h)
          else if t = self then Some (Inl ABT_ERR_INV_THREAD, h)
          else do { h1 \<leftarrow> (if ABTI_is_null_handle pool then Some h else ABTI_pool_associate E t (ABTI_obj pool) h);
                    h2 \<leftarrow> ABTI_pool_run_thread E t h1;
                    Some (Inr (), h2) }) h"


subsection \<open>Who am I\<close>

text \<open>
  Calls that write the output variable on every path: the address of the variable is an argument, the
  result is the return code and the value written.
\<close>

definition ABT_thread_self :: "'a abt_env \<Rightarrow> ptr \<Rightarrow> 'a abt \<Rightarrow> (ABT_error \<times> ptr option) option" where
  "ABT_thread_self E thread h =
     (let w = (if thread \<noteq> nullptr then Some ABT_THREAD_NULL else None); t = ABTI_self_thread E h
      in if \<not> g_initialized h then Some (ABT_ERR_UNINITIALIZED, w)
         else if \<not> CmiIsPeThread E then Some (ABT_ERR_INV_XSTREAM, w)
         else if t = nullptr \<or> t_is_task h t then Some (ABT_ERR_INV_THREAD, w)
         else if thread = nullptr then None
         else Some (ABT_SUCCESS, Some (ABTI_thread_handle t)))"

definition ABT_self_get_thread :: "'a abt_env \<Rightarrow> ptr \<Rightarrow> 'a abt \<Rightarrow> (ABT_error \<times> ptr option) option" where
  "ABT_self_get_thread E thread h =
     (let w = (if thread \<noteq> nullptr then Some ABT_THREAD_NULL else None); t = ABTI_self_thread E h
      in if \<not> g_initialized h then Some (ABT_ERR_UNINITIALIZED, w)
         else if \<not> CmiIsPeThread E then Some (ABT_ERR_INV_XSTREAM, w)
         else if t = nullptr then Some (ABT_ERR_INV_THREAD, w)
         else if thread = nullptr then None
         else Some (ABT_SUCCESS, Some (ABTI_thread_handle t)))"

definition ABT_task_self :: "'a abt_env \<Rightarrow> ptr \<Rightarrow> 'a abt \<Rightarrow> (ABT_error \<times> ptr option) option" where
  "ABT_task_self E task h =
     (let w = (if task \<noteq> nullptr then Some ABT_TASK_NULL else None); t = ABTI_self_thread E h
      in if \<not> g_initialized h then Some (ABT_ERR_UNINITIALIZED, w)
         else if \<not> CmiIsPeThread E then Some (ABT_ERR_INV_XSTREAM, w)
         else if t = nullptr \<or> \<not> t_is_task h t then Some (ABT_ERR_INV_TASK, w)
         else if task = nullptr then None
         else Some (ABT_SUCCESS, Some (ABTI_thread_handle t)))"

definition ABT_self_get_type :: "'a abt_env \<Rightarrow> ptr \<Rightarrow> 'a abt \<Rightarrow> (ABT_error \<times> ABT_unit_type option) option" where
  "ABT_self_get_type E out h =
     (let w = (if out \<noteq> nullptr then Some ABT_UNIT_TYPE_EXT else None); st = ABTI_self_thread E h
      in if \<not> g_initialized h then Some (ABT_ERR_UNINITIALIZED, w)
         else if \<not> CmiIsPeThread E then Some (ABT_ERR_INV_XSTREAM, w)
         else if out = nullptr then None
         else Some (ABT_SUCCESS, Some (if st \<noteq> nullptr
           then (if t_is_task h st then ABT_UNIT_TYPE_TASK else ABT_UNIT_TYPE_THREAD) else ABT_UNIT_TYPE_EXT)))"

definition ABT_self_is_primary :: "'a abt_env \<Rightarrow> ptr \<Rightarrow> 'a abt \<Rightarrow> (ABT_error \<times> bool option) option" where
  "ABT_self_is_primary E out h =
     (let w = (if out \<noteq> nullptr then Some False else None); t = ABTI_self_thread E h
      in if \<not> g_initialized h then Some (ABT_ERR_UNINITIALIZED, w)
         else if \<not> CmiIsPeThread E then Some (ABT_ERR_INV_XSTREAM, w)
         else if t \<noteq> nullptr \<and> t_is_task h t then Some (ABT_ERR_INV_THREAD, w)
         else if out = nullptr then None
         else Some (ABT_SUCCESS, Some (t \<noteq> nullptr \<and> t_type h t = ABTI_THREAD_PRIMARY)))"

definition ABT_self_on_primary_xstream :: "'a abt_env \<Rightarrow> ptr \<Rightarrow> 'a abt \<Rightarrow> (ABT_error \<times> bool option) option" where
  "ABT_self_on_primary_xstream E out h =
     (let w = (if out \<noteq> nullptr then Some False else None)
      in if \<not> g_initialized h then Some (ABT_ERR_UNINITIALIZED, w)
         else if \<not> CmiIsPeThread E then Some (ABT_ERR_INV_XSTREAM, w)
         else if out = nullptr then None
         else Some (ABT_SUCCESS, Some (CmiIsPeThread E \<and> tls_xstream h \<noteq> nullptr \<and> x_primary h (tls_xstream h))))"

definition ABT_self_get_xstream :: "'a abt_env \<Rightarrow> ptr \<Rightarrow> 'a abt \<Rightarrow> (ABT_error \<times> ptr option) option" where
  "ABT_self_get_xstream E xstream h =
     (let w = (if xstream \<noteq> nullptr then Some ABT_XSTREAM_NULL else None)
      in if \<not> g_initialized h then Some (ABT_ERR_UNINITIALIZED, w)
         else if \<not> CmiIsPeThread E \<or> tls_xstream h = nullptr then Some (ABT_ERR_INV_XSTREAM, w)
         else if xstream = nullptr then None
         else Some (ABT_SUCCESS, Some (ABTI_xstream_handle (tls_xstream h))))"

definition ABT_self_get_xstream_rank :: "'a abt_env \<Rightarrow> 'a abt \<Rightarrow> (int, 'a abt) api" where
  "ABT_self_get_xstream_rank E h =
     (if \<not> g_initialized h then (Inl ABT_ERR_UNINITIALIZED, h)
      else if \<not> CmiIsPeThread E \<or> tls_xstream h = nullptr then (Inl ABT_ERR_INV_XSTREAM, h)
      else (Inr (x_rank h (tls_xstream h)), h))"

definition ABT_thread_self_id :: "'a abt_env \<Rightarrow> 'a abt \<Rightarrow> (nat, 'a abt) api" where
  "ABT_thread_self_id E h =
     (let t = ABTI_self_thread E h
      in if t = nullptr \<or> t_is_task h t then (Inl (no_self E), h) else (Inr (t_id h t), h))"

definition ABT_self_get_thread_id :: "'a abt_env \<Rightarrow> 'a abt \<Rightarrow> (nat, 'a abt) api" where
  "ABT_self_get_thread_id E h = ABT_thread_self_id E h"

definition ABT_task_self_id :: "'a abt_env \<Rightarrow> 'a abt \<Rightarrow> (nat, 'a abt) api" where
  "ABT_task_self_id E h =
     (let t = ABTI_self_thread E h
      in if \<not> g_initialized h then (Inl ABT_ERR_UNINITIALIZED, h)
         else if \<not> CmiIsPeThread E then (Inl ABT_ERR_INV_XSTREAM, h)
         else if t = nullptr \<or> \<not> t_is_task h t then (Inl ABT_ERR_INV_TASK, h)
         else (Inr (t_id h t), h))"


subsection \<open>Attributes of a thread\<close>

text \<open>\<^verbatim>\<open>(int)t->pool->id\<close>, or -1 without a pool.\<close>

definition last_pool_id :: "ptr \<Rightarrow> 'a abt \<Rightarrow> int" where
  "last_pool_id t h = (if t_pool h t \<noteq> nullptr then sint (of_nat (p_id h (t_pool h t)) :: 32 word) else -1)"

definition ABT_thread_get_id :: "ptr \<Rightarrow> 'a abt \<Rightarrow> (nat, 'a abt) api" where
  "ABT_thread_get_id thread h = with_thread thread (\<lambda>t. (Inr (t_id h t), h)) h"

definition ABT_thread_get_state :: "'a abt_env \<Rightarrow> ptr \<Rightarrow> 'a abt \<Rightarrow> (ABT_thread_state, 'a abt) api" where
  "ABT_thread_get_state E thread h = with_thread thread (\<lambda>t. (Inr (map_state E t h), h)) h"

definition ABT_thread_get_last_xstream :: "ptr \<Rightarrow> 'a abt \<Rightarrow> (ptr, 'a abt) api" where
  "ABT_thread_get_last_xstream thread h = with_thread thread (\<lambda>t. (Inr (ABTI_xstream_handle (t_last_xstream h t)), h)) h"

definition ABT_thread_get_last_pool :: "ptr \<Rightarrow> 'a abt \<Rightarrow> (ptr, 'a abt) api" where
  "ABT_thread_get_last_pool thread h = with_thread thread (\<lambda>t. (Inr (ABTI_pool_handle (t_pool h t)), h)) h"

definition ABT_thread_get_last_pool_id :: "ptr \<Rightarrow> 'a abt \<Rightarrow> (int, 'a abt) api" where
  "ABT_thread_get_last_pool_id thread h = with_thread thread (\<lambda>t. (Inr (last_pool_id t h), h)) h"

definition ABT_thread_get_unit :: "ptr \<Rightarrow> 'a abt \<Rightarrow> (ptr, 'a abt) api" where
  "ABT_thread_get_unit thread h = with_thread thread (\<lambda>t. (Inr (if t_pool h t \<noteq> nullptr \<and> p_user h (t_pool h t) then t_unit h t else t), h)) h"

definition ABT_thread_is_migratable :: "ptr \<Rightarrow> 'a abt \<Rightarrow> (bool, 'a abt) api" where
  "ABT_thread_is_migratable thread h = with_thread thread (\<lambda>t. (Inr (attr_migratable (t_attr h t)), h)) h"

definition ABT_thread_is_primary :: "ptr \<Rightarrow> 'a abt \<Rightarrow> (bool, 'a abt) api" where
  "ABT_thread_is_primary thread h = with_thread thread (\<lambda>t. (Inr (t_type h t = ABTI_THREAD_PRIMARY), h)) h"

definition ABT_thread_is_unnamed :: "ptr \<Rightarrow> 'a abt \<Rightarrow> (bool, 'a abt) api" where
  "ABT_thread_is_unnamed thread h = with_thread thread (\<lambda>t. (Inr (t_type h t = ABTI_THREAD_DETACHED), h)) h"

definition ABT_thread_equal :: "ptr \<Rightarrow> ptr \<Rightarrow> 'a abt \<Rightarrow> (bool, 'a abt) api" where
  "ABT_thread_equal thread1 thread2 h = (Inr (thread1 = thread2), h)"

definition ABT_thread_get_stacksize :: "ptr \<Rightarrow> 'a abt \<Rightarrow> (nat, 'a abt) api" where
  "ABT_thread_get_stacksize thread h =
     with_thread thread (\<lambda>t. (Inr (if attr_stacksize (t_attr h t) \<noteq> 0 then attr_stacksize (t_attr h t)
                                   else g_default_stacksize h), h)) h"

definition ABT_thread_get_arg :: "ptr \<Rightarrow> 'a abt \<Rightarrow> (ptr, 'a abt) api" where
  "ABT_thread_get_arg thread h = with_thread thread (\<lambda>t. (Inr (t_arg h t), h)) h"

definition ABT_thread_get_thread_func :: "ptr \<Rightarrow> 'a abt \<Rightarrow> (ptr, 'a abt) api" where
  "ABT_thread_get_thread_func thread h = with_thread thread (\<lambda>t. (Inr (t_fn h t), h)) h"

definition ABT_thread_set_arg :: "ptr \<Rightarrow> ptr \<Rightarrow> 'a abt \<Rightarrow> (unit, 'a abt) api" where
  "ABT_thread_set_arg thread arg h =
     with_thread thread (\<lambda>t. (Inr (), h\<lparr>t_arg := (t_arg h)(t := arg)\<rparr>)) h"

definition ABT_thread_set_migratable :: "ptr \<Rightarrow> bool \<Rightarrow> 'a abt \<Rightarrow> (unit, 'a abt) api" where
  "ABT_thread_set_migratable thread flag h =
     with_thread thread (\<lambda>t. (Inr (), h\<lparr>t_attr := (t_attr h)(t := (t_attr h t)\<lparr>attr_migratable := flag\<rparr>)\<rparr>)) h"

definition ABT_thread_set_callback :: "ptr \<Rightarrow> ptr \<Rightarrow> ptr \<Rightarrow> 'a abt \<Rightarrow> (unit, 'a abt) api" where
  "ABT_thread_set_callback thread cb_func cb_arg h = (Inr (), h)"

definition ABT_thread_set_associated_pool :: "'a abt_env \<Rightarrow> ptr \<Rightarrow> ptr \<Rightarrow> 'a abt \<Rightarrow> (unit, 'a abt) api option" where
  "ABT_thread_set_associated_pool E thread pool h =
     with_thread_opt thread (\<lambda>t. with_pool_opt pool (\<lambda>p.
       do { h1 \<leftarrow> ABTI_pool_associate E t p h; Some (Inr (), h1) }) h) h"

text \<open>\<open>a\<close> is the address of the new attribute object.\<close>

definition ABT_thread_get_attr :: "ptr \<Rightarrow> ptr \<Rightarrow> 'a abt \<Rightarrow> (ptr, 'a abt) api" where
  "ABT_thread_get_attr a thread h =
     with_thread thread (\<lambda>t.
       let v = t_attr h t;
           v1 = (if attr_stacksize v = 0 then v\<lparr>attr_stacksize := g_default_stacksize h\<rparr> else v)
       in (Inr a, h\<lparr>live := insert a (live h), a_attr := (a_attr h)(a := v1)\<rparr>)) h"


subsection \<open>Migration\<close>

definition ABT_thread_migrate_to_pool :: "ptr \<Rightarrow> ptr \<Rightarrow> 'a abt \<Rightarrow> (unit, 'a abt) api" where
  "ABT_thread_migrate_to_pool thread pool h =
     with_thread thread (\<lambda>t. with_pool pool (\<lambda>p.
       (Inr (), h\<lparr>t_migrate_to := (t_migrate_to h)(t := p)\<rparr>)) h) h"

definition ABT_thread_migrate_to_xstream :: "ptr \<Rightarrow> ptr \<Rightarrow> 'a abt \<Rightarrow> (unit, 'a abt) api" where
  "ABT_thread_migrate_to_xstream thread xstream h =
     (let x = ABTI_obj xstream
      in if ABTI_is_null_handle x then (Inl ABT_ERR_INV_XSTREAM, h)
         else case main_pool x h of None \<Rightarrow> (Inl ABT_ERR_INV_XSTREAM, h)
         | Some p \<Rightarrow> ABT_thread_migrate_to_pool thread p h)"

definition ABT_thread_migrate_to_sched :: "ptr \<Rightarrow> ptr \<Rightarrow> 'a abt \<Rightarrow> (unit, 'a abt) api" where
  "ABT_thread_migrate_to_sched thread sched h =
     (let s = ABTI_obj sched
      in if ABTI_is_null_handle s then (Inl ABT_ERR_INV_SCHED, h)
         else if s_pools h s = [] then (Inl ABT_ERR_INV_SCHED, h)
         else ABT_thread_migrate_to_pool thread (ABTI_pool_handle (s_pools h s ! 0)) h)"

text \<open>Some other stream's main pool: the first stream of the table that is not at the rank to avoid.\<close>

definition migrate_target :: "int \<Rightarrow> 'a abt \<Rightarrow> ptr option" where
  "migrate_target avoid h =
     map_option (\<lambda>x. s_pools h (x_main_sched h x) ! 0)
       (List.find (\<lambda>x. x \<noteq> nullptr \<and> x_rank h x \<noteq> avoid \<and> x_main_sched h x \<noteq> nullptr \<and>
                      s_pools h (x_main_sched h x) \<noteq> []) (g_xstreams h))"

definition ABT_thread_migrate :: "ptr \<Rightarrow> 'a abt \<Rightarrow> (unit, 'a abt) api" where
  "ABT_thread_migrate thread h =
     with_thread thread (\<lambda>t.
       let avoid = (if t_last_xstream h t \<noteq> nullptr then x_rank h (t_last_xstream h t)
                    else if tls_xstream h \<noteq> nullptr then x_rank h (tls_xstream h) else -1)
       in case migrate_target avoid h of None \<Rightarrow> (Inl ABT_ERR_MIGRATION_TARGET, h)
          | Some p \<Rightarrow> (Inr (), h\<lparr>t_migrate_to := (t_migrate_to h)(t := p)\<rparr>)) h"


subsection \<open>Keys\<close>

definition resize :: "nat \<Rightarrow> ptr list \<Rightarrow> ptr list" where
  "resize n xs = xs @ replicate (n - length xs) nullptr"

definition ABT_thread_set_specific :: "ptr \<Rightarrow> ptr \<Rightarrow> ptr \<Rightarrow> 'a abt \<Rightarrow> (unit, 'a abt) api" where
  "ABT_thread_set_specific thread key v h =
     with_thread thread (\<lambda>t. with_key key (\<lambda>k.
       let i = k_id h k;
           ks = (if i \<ge> length (t_keys h t) then resize (i + 1) (t_keys h t) else t_keys h t)
       in (Inr (), h\<lparr>t_keys := (t_keys h)(t := ks[i := v])\<rparr>)) h) h"

definition ABT_thread_get_specific :: "ptr \<Rightarrow> ptr \<Rightarrow> 'a abt \<Rightarrow> (ptr, 'a abt) api" where
  "ABT_thread_get_specific thread key h =
     with_thread thread (\<lambda>t. with_key key (\<lambda>k.
       (Inr (if k_id h k < length (t_keys h t) then t_keys h t ! k_id h k else nullptr), h)) h) h"

text \<open>\<open>k\<close> is the address of the new key.\<close>

definition ABT_key_create :: "ptr \<Rightarrow> ptr \<Rightarrow> 'a abt \<Rightarrow> (ptr, 'a abt) api" where
  "ABT_key_create k destructor h =
     (if \<not> g_initialized h then (Inl ABT_ERR_UNINITIALIZED, h)
      else let i = g_next_key h;
               ds = (if i \<ge> length (g_key_dtors h) then resize (i + 1) (g_key_dtors h) else g_key_dtors h)
           in (Inr k, h\<lparr>live := insert k (live h), k_destructor := (k_destructor h)(k := destructor),
                        k_id := (k_id h)(k := i), g_next_key := i + 1, g_key_dtors := ds[i := destructor]\<rparr>))"

definition ABT_key_free :: "ptr \<Rightarrow> 'a abt \<Rightarrow> (ptr, 'a abt) api" where
  "ABT_key_free v h =
     with_key v (\<lambda>k.
       let h1 = (if k_id h k < length (g_key_dtors h)
                 then h\<lparr>g_key_dtors := (g_key_dtors h)[k_id h k := nullptr]\<rparr> else h)
       in (Inr ABT_KEY_NULL, h1\<lparr>live := live h1 - {k}\<rparr>)) h"

definition ABT_key_set :: "'a abt_env \<Rightarrow> ptr \<Rightarrow> ptr \<Rightarrow> 'a abt \<Rightarrow> (unit, 'a abt) api" where
  "ABT_key_set E key v h = with_self E (\<lambda>t. ABT_thread_set_specific (ABTI_thread_handle t) key v h) h"

definition ABT_key_get :: "'a abt_env \<Rightarrow> ptr \<Rightarrow> 'a abt \<Rightarrow> (ptr, 'a abt) api" where
  "ABT_key_get E key h = with_self E (\<lambda>t. ABT_thread_get_specific (ABTI_thread_handle t) key h) h"

definition ABT_self_set_specific :: "'a abt_env \<Rightarrow> ptr \<Rightarrow> ptr \<Rightarrow> 'a abt \<Rightarrow> (unit, 'a abt) api" where
  "ABT_self_set_specific E key v h = ABT_key_set E key v h"

definition ABT_self_get_specific :: "'a abt_env \<Rightarrow> ptr \<Rightarrow> 'a abt \<Rightarrow> (ptr, 'a abt) api" where
  "ABT_self_get_specific E key h = ABT_key_get E key h"


subsection \<open>Attribute objects\<close>

definition ABT_thread_attr_create :: "ptr \<Rightarrow> 'a abt \<Rightarrow> (ptr, 'a abt) api" where
  "ABT_thread_attr_create a h =
     (Inr a, h\<lparr>live := insert a (live h),
               a_attr := (a_attr h)(a := \<lparr>attr_stacksize = 0, attr_stackaddr = nullptr, attr_migratable = True\<rparr>)\<rparr>)"

definition ABT_thread_attr_free :: "ptr \<Rightarrow> 'a abt \<Rightarrow> (ptr, 'a abt) api" where
  "ABT_thread_attr_free v h =
     with_attr v (\<lambda>a. (Inr ABT_THREAD_ATTR_NULL, h\<lparr>live := live h - {a}\<rparr>)) h"

definition ABT_thread_attr_set_stack :: "ptr \<Rightarrow> ptr \<Rightarrow> nat \<Rightarrow> 'a abt \<Rightarrow> (unit, 'a abt) api" where
  "ABT_thread_attr_set_stack attr stackaddr stacksize h =
     with_attr attr (\<lambda>a. (Inr (),
       h\<lparr>a_attr := (a_attr h)(a := (a_attr h a)\<lparr>attr_stackaddr := stackaddr, attr_stacksize := stacksize\<rparr>)\<rparr>)) h"

definition ABT_thread_attr_get_stack :: "ptr \<Rightarrow> 'a abt \<Rightarrow> (ptr \<times> nat, 'a abt) api" where
  "ABT_thread_attr_get_stack attr h =
     with_attr attr (\<lambda>a. (Inr (attr_stackaddr (a_attr h a), attr_stacksize (a_attr h a)), h)) h"

definition ABT_thread_attr_set_stacksize :: "ptr \<Rightarrow> nat \<Rightarrow> 'a abt \<Rightarrow> (unit, 'a abt) api" where
  "ABT_thread_attr_set_stacksize attr stacksize h =
     with_attr attr (\<lambda>a. (Inr (), h\<lparr>a_attr := (a_attr h)(a := (a_attr h a)\<lparr>attr_stacksize := stacksize\<rparr>)\<rparr>)) h"

definition ABT_thread_attr_get_stacksize :: "ptr \<Rightarrow> 'a abt \<Rightarrow> (nat, 'a abt) api" where
  "ABT_thread_attr_get_stacksize attr h =
     with_attr attr (\<lambda>a. (Inr (if attr_stacksize (a_attr h a) \<noteq> 0 then attr_stacksize (a_attr h a)
                               else g_default_stacksize h), h)) h"

definition ABT_thread_attr_set_callback :: "ptr \<Rightarrow> ptr \<Rightarrow> ptr \<Rightarrow> 'a abt \<Rightarrow> (unit, 'a abt) api" where
  "ABT_thread_attr_set_callback attr cb_func cb_arg h = (Inr (), h)"

definition ABT_thread_attr_set_migratable :: "ptr \<Rightarrow> bool \<Rightarrow> 'a abt \<Rightarrow> (unit, 'a abt) api" where
  "ABT_thread_attr_set_migratable attr flag h =
     with_attr attr (\<lambda>a. (Inr (), h\<lparr>a_attr := (a_attr h)(a := (a_attr h a)\<lparr>attr_migratable := flag\<rparr>)\<rparr>)) h"


subsection \<open>The calling thread\<close>

definition ABT_self_is_unnamed :: "'a abt_env \<Rightarrow> 'a abt \<Rightarrow> (bool, 'a abt) api" where
  "ABT_self_is_unnamed E h = with_self E (\<lambda>t. (Inr (t_type h t = ABTI_THREAD_DETACHED), h)) h"

definition ABT_self_get_last_pool :: "'a abt_env \<Rightarrow> 'a abt \<Rightarrow> (ptr, 'a abt) api" where
  "ABT_self_get_last_pool E h = with_self E (\<lambda>t. (Inr (ABTI_pool_handle (t_pool h t)), h)) h"

definition ABT_self_get_last_pool_id :: "'a abt_env \<Rightarrow> 'a abt \<Rightarrow> (int, 'a abt) api" where
  "ABT_self_get_last_pool_id E h = with_self E (\<lambda>t. (Inr (last_pool_id t h), h)) h"

definition ABT_self_get_arg :: "'a abt_env \<Rightarrow> 'a abt \<Rightarrow> (ptr, 'a abt) api" where
  "ABT_self_get_arg E h = with_self E (\<lambda>t. (Inr (t_arg h t), h)) h"

definition ABT_self_get_thread_func :: "'a abt_env \<Rightarrow> 'a abt \<Rightarrow> (ptr, 'a abt) api" where
  "ABT_self_get_thread_func E h = with_self E (\<lambda>t. (Inr (t_fn h t), h)) h"

definition ABT_self_set_arg :: "'a abt_env \<Rightarrow> ptr \<Rightarrow> 'a abt \<Rightarrow> (unit, 'a abt) api" where
  "ABT_self_set_arg E arg h = with_self E (\<lambda>t. (Inr (), h\<lparr>t_arg := (t_arg h)(t := arg)\<rparr>)) h"

definition ABT_self_get_unit :: "'a abt_env \<Rightarrow> 'a abt \<Rightarrow> (ptr, 'a abt) api" where
  "ABT_self_get_unit E h = with_self E (\<lambda>t. ABT_thread_get_unit (ABTI_thread_handle t) h) h"

definition ABT_self_set_associated_pool :: "'a abt_env \<Rightarrow> ptr \<Rightarrow> 'a abt \<Rightarrow> (unit, 'a abt) api option" where
  "ABT_self_set_associated_pool E pool h =
     (let t = ABTI_self_thread E h
      in if t = nullptr then Some (Inl (no_self E), h)
         else ABT_thread_set_associated_pool E (ABTI_thread_handle t) pool h)"

definition ABT_self_yield :: "'a abt_env \<Rightarrow> 'a abt \<Rightarrow> (unit, 'a abt) api" where
  "ABT_self_yield E h = ABT_thread_yield E h"

definition ABT_self_yield_to :: "'a abt_env \<Rightarrow> ptr \<Rightarrow> 'a abt \<Rightarrow> (unit, 'a abt) api" where
  "ABT_self_yield_to E thread h = ABT_thread_yield E h"

definition ABT_self_suspend :: "'a abt_env \<Rightarrow> 'a abt \<Rightarrow> (unit, 'a abt) api" where
  "ABT_self_suspend E h =
     (if \<not> g_initialized h then (Inl ABT_ERR_UNINITIALIZED, h)
      else with_self E (\<lambda>t. if \<not> ABTI_can_block h t then (Inl ABT_ERR_INV_THREAD, h)
                             else (Inr (), ABTI_thread_block E t h)) h)"


subsection \<open>Tasklets\<close>

definition ABT_task_create :: "'a abt_env \<Rightarrow> ptr \<Rightarrow> ptr \<Rightarrow> ptr \<Rightarrow> ptr \<Rightarrow> ptr \<Rightarrow> 'a abt \<Rightarrow> (ptr, 'a abt) api option" where
  "ABT_task_create E m pool fn arg newtask h = task_create_impl E m pool fn arg newtask h"

definition ABT_task_create_on_xstream :: "'a abt_env \<Rightarrow> ptr \<Rightarrow> ptr \<Rightarrow> ptr \<Rightarrow> ptr \<Rightarrow> ptr \<Rightarrow> 'a abt \<Rightarrow>
    (ptr, 'a abt) api option" where
  "ABT_task_create_on_xstream E m xstream fn arg newtask h =
     (let x = ABTI_obj xstream
      in if ABTI_is_null_handle x then Some (Inl ABT_ERR_INV_XSTREAM, h)
         else case main_pool x h of None \<Rightarrow> Some (Inl ABT_ERR_INV_XSTREAM, h)
         | Some p \<Rightarrow> task_create_impl E m p fn arg newtask h)"

definition ABT_task_free :: "'a abt_env \<Rightarrow> ptr \<Rightarrow> ptr \<Rightarrow> 'a abt \<Rightarrow> (ptr, 'a abt) api option" where
  "ABT_task_free E task v h =
     (if ABTI_is_null_handle task then Some (Inl ABT_ERR_INV_TASK, h)
      else if ABTI_is_null_handle (task_get v h) then Some (Inl ABT_ERR_INV_TASK, h)
      else ABT_thread_free E task v h)"

definition ABT_task_join :: "'a abt_env \<Rightarrow> ptr \<Rightarrow> 'a abt \<Rightarrow> (unit, 'a abt) api option" where
  "ABT_task_join E task h =
     (if ABTI_is_null_handle (task_get task h) then Some (Inl ABT_ERR_INV_TASK, h)
      else ABT_thread_join E task h)"

fun task_state :: "ABT_thread_state \<Rightarrow> ABT_task_state" where
  "task_state ABT_THREAD_STATE_READY = ABT_TASK_STATE_READY"
| "task_state ABT_THREAD_STATE_RUNNING = ABT_TASK_STATE_RUNNING"
| "task_state ABT_THREAD_STATE_TERMINATED = ABT_TASK_STATE_TERMINATED"
| "task_state ABT_THREAD_STATE_BLOCKED = ABT_TASK_STATE_RUNNING"

definition ABT_task_get_state :: "'a abt_env \<Rightarrow> ptr \<Rightarrow> 'a abt \<Rightarrow> (ABT_task_state, 'a abt) api" where
  "ABT_task_get_state E task h = with_task task (\<lambda>t. (Inr (task_state (map_state E t h)), h)) h"

definition ABT_task_get_xstream :: "ptr \<Rightarrow> 'a abt \<Rightarrow> (ptr, 'a abt) api" where
  "ABT_task_get_xstream task h = with_task task (\<lambda>t. (Inr (ABTI_xstream_handle (t_last_xstream h t)), h)) h"

definition ABT_task_get_last_pool :: "ptr \<Rightarrow> 'a abt \<Rightarrow> (ptr, 'a abt) api" where
  "ABT_task_get_last_pool task h = with_task task (\<lambda>t. (Inr (ABTI_pool_handle (t_pool h t)), h)) h"

definition ABT_task_get_last_pool_id :: "ptr \<Rightarrow> 'a abt \<Rightarrow> (int, 'a abt) api" where
  "ABT_task_get_last_pool_id task h = with_task task (\<lambda>t. (Inr (last_pool_id t h), h)) h"

definition ABT_task_is_migratable :: "ptr \<Rightarrow> 'a abt \<Rightarrow> (bool, 'a abt) api" where
  "ABT_task_is_migratable task h = with_task task (\<lambda>t. (Inr (attr_migratable (t_attr h t)), h)) h"

definition ABT_task_get_id :: "ptr \<Rightarrow> 'a abt \<Rightarrow> (nat, 'a abt) api" where
  "ABT_task_get_id task h = with_task task (\<lambda>t. (Inr (t_id h t), h)) h"

definition ABT_task_get_arg :: "ptr \<Rightarrow> 'a abt \<Rightarrow> (ptr, 'a abt) api" where
  "ABT_task_get_arg task h = with_task task (\<lambda>t. (Inr (t_arg h t), h)) h"

definition ABT_task_set_migratable :: "ptr \<Rightarrow> bool \<Rightarrow> 'a abt \<Rightarrow> (unit, 'a abt) api" where
  "ABT_task_set_migratable task flag h =
     with_task task (\<lambda>t. (Inr (), h\<lparr>t_attr := (t_attr h)(t := (t_attr h t)\<lparr>attr_migratable := flag\<rparr>)\<rparr>)) h"

definition ABT_task_equal :: "ptr \<Rightarrow> ptr \<Rightarrow> 'a abt \<Rightarrow> (bool, 'a abt) api" where
  "ABT_task_equal task1 task2 h = (Inr (task1 = task2), h)"

end
