(* ===== verification/Thread_Life.thy ===== *)
theory Thread_Life
  imports Thread_Api
begin

section \<open>The life of a work unit\<close>

text \<open>
  Creation puts a new unit into its pool, a poll of the pool runs a tasklet to its end, termination
  wakes every joiner, and freeing gives the descriptor back to the cache.  What the runtime does enters
  as a named hypothesis: \<^verbatim>\<open>CthAwakenIfBlocked\<close> on a blocked thread runs the awaken function that the
  library installed for it.
\<close>

definition awaken_law :: "'a abt_env \<Rightarrow> bool" where
  "awaken_law E \<longleftrightarrow> (\<forall>c t s. cth_awaken s c = Some (Thread_awaken t) \<longrightarrow>
     CthAwakenIfBlocked E c s = map_option (Pair True) (ABTI_thread_awaken_fn E t s))"


subsection \<open>New descriptors\<close>

lemma thread_queue_init_view:
  fixes h :: "'a pool_heap_scheme"
  assumes "pools_view h P L" "\<not> t_in_pool h t"
  shows "pools_view (thread_queue_init t h) P L"
proof -
  let ?h = "thread_queue_init t h"
  from assms(1) obtain V where V: "pools_rep h P V" "\<forall>p\<in>P. L p = filter (\<lambda>t. \<not> t_removed h t) (V p)"
    unfolding pools_view_def by blast
  have nin: "t \<notin> set (V p)" if "p \<in> P" for p
    using V(1) that assms(2) pool_linked_facts(3) [of h p "V p" t] unfolding pools_rep_def by blast
  have sel: "t_in_pool ?h = (t_in_pool h)(t := False)" "t_removed ?h = (t_removed h)(t := False)"
    "p_single_consumer ?h = p_single_consumer h" "p_user ?h = p_user h" "p_count ?h = p_count h"
    "qn_next ?h = (qn_next h)(QN t := None)" "p_head ?h = p_head h" "p_tail ?h = p_tail h"
    "p_lhead ?h = p_lhead h" "p_ltail ?h = p_ltail h" "t_lnext ?h = (t_lnext h)(t := nullptr)" "t_lprev ?h = (t_lprev h)(t := nullptr)"
    by (simp_all add: thread_queue_init_def)
  have fl: "filter (\<lambda>u. \<not> t_removed ?h u) (V p) = filter (\<lambda>u. \<not> t_removed h u) (V p)" if "p \<in> P" for p
    using nin [OF that] by (auto simp: sel intro!: filter_cong)
  have lk: "pool_linked ?h p (V p)" if p: "p \<in> P" for p
  proof (cases "p_single_consumer h p")
    case True
    then have "mpsc h p (V p)" using V(1) p by (simp add: pools_rep_def pool_linked_def)
    then obtain Q where Q: "mpsc_chain h p Q" "V p = unit_nodes p Q" unfolding mpsc_def by blast
    have "mpsc_chain ?h p Q"
      by (rule mpsc_chain_cong [OF Q(1)]) (use assms(2) mpsc_chain_member [OF Q(1), of t] in \<open>auto simp: sel\<close>)
    then show ?thesis using Q(2) True unfolding pool_linked_def mpsc_def sel by auto
  next
    case False
    then have d: "dll h p (V p)" using V(1) p by (simp add: pools_rep_def pool_linked_def)
    have "dll ?h p (V p)" using d nin [OF p] dseg_cong [of "V p" "t_lnext h" "t_lnext ?h" "t_lprev h" "t_lprev ?h"]
      by (auto simp: dll_def sel)
    then show ?thesis using False by (simp add: pool_linked_def sel)
  qed
  from V lk fl show ?thesis unfolding pools_view_def pools_rep_def by (intro exI [of _ V]) (simp add: sel)
qed

lemma thread_new_view: "pools_view h P L \<Longrightarrow> \<not> t_in_pool h t \<Longrightarrow> pools_view (thread_new t h) P L"
  using thread_queue_init_view [of h P L t] by (simp add: thread_new_def Let_def)

text \<open>The descriptor an allocation returns.\<close>

definition next_desc :: "ptr \<Rightarrow> 'a abt \<Rightarrow> ptr" where
  "next_desc m h = (if tls_thread_cache h \<noteq> [] then last (tls_thread_cache h) else m)"

lemma thread_alloc_eq:
  "ABTI_thread_alloc m h = (next_desc m h, thread_new (next_desc m h) (h\<lparr>tls_thread_cache := butlast (tls_thread_cache h)\<rparr>))"
proof (cases "tls_thread_cache h = []")
  case True
  have "h\<lparr>tls_thread_cache := tls_thread_cache h\<rparr> = h" by simp
  then have e: "h\<lparr>tls_thread_cache := []\<rparr> = h" unfolding True .
  show ?thesis unfolding ABTI_thread_alloc_def next_desc_def True butlast.simps e by simp
qed (simp add: ABTI_thread_alloc_def next_desc_def Let_def)

lemma thread_new_sel [simp]:
  "t_in_pool (thread_new t h) = (t_in_pool h)(t := False)" "t_removed (thread_new t h) = (t_removed h)(t := False)"
  "p_user (thread_new t h) = p_user h" "g_next_id (thread_new t h) = g_next_id h"
  "p_num_blocked (thread_new t h) = p_num_blocked h" "t_terminated (thread_new t h) = (t_terminated h)(t := False)"
  "t_joiners (thread_new t h) = (t_joiners h)(t := [])" "t_keys (thread_new t h) = (t_keys h)(t := [])"
  "t_blocked_counted (thread_new t h) = (t_blocked_counted h)(t := False)" "g_initialized (thread_new t h) = g_initialized h"
  "live (thread_new t h) = insert t (live h)" "t_pool (thread_new t h) = (t_pool h)(t := nullptr)"
  "tls_task (thread_new t h) = tls_task h" "abt_heap.more (thread_new t h) = abt_heap.more h"
  "t_migrate_to (thread_new t h) = (t_migrate_to h)(t := nullptr)" "cth_userdata (thread_new t h) = cth_userdata h"
  "tls_thread_cache (thread_new t h) = tls_thread_cache h" "t_tstate (thread_new t h) = (t_tstate h)(t := CTH_STATE_READY)"
  by (simp_all add: thread_new_def thread_queue_init_def Let_def)


subsection \<open>Creation\<close>

lemma associate_new:
  assumes "\<not> p_user h p" "t_pool h t = nullptr" "p \<noteq> nullptr"
  shows "ABTI_pool_associate E t p h = Some (h\<lparr>t_unit := (t_unit h)(t := ABT_UNIT_NULL), t_pool := (t_pool h)(t := p)\<rparr>)"
  using associate_builtin [of h p t E] assms by simp

lemma thread_fill_sel [simp]:
  fixes h :: "'a abt"
  shows "t_cth (thread_fill t cth type fn arg a i pool x fbe is_task h) = (t_cth h)(t := cth)"
    "t_type (thread_fill t cth type fn arg a i pool x fbe is_task h) = (t_type h)(t := type)"
    "t_fn (thread_fill t cth type fn arg a i pool x fbe is_task h) = (t_fn h)(t := fn)"
    "t_arg (thread_fill t cth type fn arg a i pool x fbe is_task h) = (t_arg h)(t := arg)"
    "t_id (thread_fill t cth type fn arg a i pool x fbe is_task h) = (t_id h)(t := i)"
    "t_pool (thread_fill t cth type fn arg a i pool x fbe is_task h) = (t_pool h)(t := pool)"
    "t_migrate_to (thread_fill t cth type fn arg a i pool x fbe is_task h) = (t_migrate_to h)(t := nullptr)"
    "t_is_task (thread_fill t cth type fn arg a i pool x fbe is_task h) = (t_is_task h)(t := is_task)"
    "t_in_pool (thread_fill t cth type fn arg a i pool x fbe is_task h) = t_in_pool h"
    "t_removed (thread_fill t cth type fn arg a i pool x fbe is_task h) = t_removed h"
    "p_user (thread_fill t cth type fn arg a i pool x fbe is_task h) = p_user h"
    "g_next_id (thread_fill t cth type fn arg a i pool x fbe is_task h) = g_next_id h"
    "p_num_blocked (thread_fill t cth type fn arg a i pool x fbe is_task h) = p_num_blocked h"
    "t_terminated (thread_fill t cth type fn arg a i pool x fbe is_task h) = t_terminated h"
    "t_joiners (thread_fill t cth type fn arg a i pool x fbe is_task h) = t_joiners h"
    "t_keys (thread_fill t cth type fn arg a i pool x fbe is_task h) = t_keys h"
    "t_blocked_counted (thread_fill t cth type fn arg a i pool x fbe is_task h) = t_blocked_counted h"
    "g_initialized (thread_fill t cth type fn arg a i pool x fbe is_task h) = g_initialized h"
    "live (thread_fill t cth type fn arg a i pool x fbe is_task h) = live h"
    "tls_task (thread_fill t cth type fn arg a i pool x fbe is_task h) = tls_task h"
    "abt_heap.more (thread_fill t cth type fn arg a i pool x fbe is_task h) = abt_heap.more h"
    "cth_userdata (thread_fill t cth type fn arg a i pool x fbe is_task h) = cth_userdata h"
    "cth_awaken (thread_fill t cth type fn arg a i pool x fbe is_task h) = cth_awaken h"
    "tls_thread_cache (thread_fill t cth type fn arg a i pool x fbe is_task h) = tls_thread_cache h"
    "t_tstate (thread_fill t cth type fn arg a i pool x fbe is_task h) = t_tstate h"
    "pools_view (thread_fill t cth type fn arg a i pool x fbe is_task h) P L = pools_view h P L"
  by (simp_all add: thread_fill_def)

lemma fresh_id_eq: "fresh_id h = (g_next_id h, h\<lparr>g_next_id := g_next_id h + 1\<rparr>)"
  by (simp add: fresh_id_def)

lemma thread_setup_eq:
  "\<exists>a c cs. thread_setup m cth fn arg attr newthread is_task h =
     (let t = next_desc m h; h1 = thread_new t (h\<lparr>tls_thread_cache := butlast (tls_thread_cache h)\<rparr>);
          type = (if newthread \<noteq> nullptr then ABTI_THREAD_NAMED else ABTI_THREAD_DETACHED);
          h3 = thread_fill t cth type fn arg a (g_next_id h1) nullptr nullptr (type = ABTI_THREAD_DETACHED) is_task
                 (h1\<lparr>g_next_id := g_next_id h1 + 1\<rparr>)
      in (t, fold rt cs ((rt c h3)\<lparr>cth_userdata := (cth_userdata h3)(cth := t),
                                   cth_awaken := (cth_awaken h3)(cth := Some (Thread_awaken t))\<rparr>)))"
proof -
  let ?a = "if ABTI_obj attr \<noteq> nullptr then a_attr (snd (ABTI_thread_alloc m h)) (ABTI_obj attr)
            else \<lparr>attr_stacksize = 0, attr_stackaddr = nullptr, attr_migratable = True\<rparr>"
  let ?c = "CthCreate cth (sint (of_nat (if attr_stacksize ?a \<noteq> 0 then attr_stacksize ?a
      else g_default_stacksize (snd (ABTI_thread_alloc m h))) :: 32 word))"
  let ?cs = "[CthSetChooseFn cth] @ (if newthread \<noteq> nullptr then [CthSetKeepOnExit cth] else []) @ [CthSetExitFn cth (next_desc m h)]"
  show ?thesis
    by (rule exI [of _ ?a], rule exI [of _ ?c], rule exI [of _ ?cs])
       (simp add: thread_setup_def thread_alloc_eq fresh_id_eq Let_def)
qed

lemma fold_rt_qframe: "qframe h (fold rt cs h)"
  by (induction cs arbitrary: h) (auto intro: qframe_trans qframe_rt)

lemmas fold_rt_sel [simp] = qframe_sel [OF fold_rt_qframe] qframe_abt [OF fold_rt_qframe]

lemma fold_rt_queue [simp]:
  "t_in_pool (fold rt cs h) = t_in_pool h" "t_removed (fold rt cs h) = t_removed h"
  "pools_view (fold rt cs h) P L = pools_view h P L"
  by (induction cs arbitrary: h) simp_all

lemma thread_setup_sel:
  assumes "thread_setup m cth fn arg attr newthread b h = (t, h6)"
  shows "t = next_desc m h" "t_pool h6 t = nullptr" "p_user h6 = p_user h" "t_in_pool h6 = (t_in_pool h)(t := False)"
    "t_removed h6 = (t_removed h)(t := False)" "t_fn h6 t = fn" "t_arg h6 t = arg" "t_id h6 t = g_next_id h"
    "g_next_id h6 = g_next_id h + 1" "t_joiners h6 t = []" "t_keys h6 t = []" "\<not> t_terminated h6 t"
    "t_type h6 t = (if newthread \<noteq> nullptr then ABTI_THREAD_NAMED else ABTI_THREAD_DETACHED)"
    "t_cth h6 t = cth" "cth_userdata h6 cth = t" "p_num_blocked h6 = p_num_blocked h" "t_migrate_to h6 t = nullptr"
    "cth_awaken h6 cth = Some (Thread_awaken t)" "\<not> t_blocked_counted h6 t"
    "pools_view h P L \<Longrightarrow> \<not> t_in_pool h t \<Longrightarrow> pools_view h6 P L"
proof -
  let ?t = "next_desc m h"
  let ?h1 = "thread_new ?t (h\<lparr>tls_thread_cache := butlast (tls_thread_cache h)\<rparr>)"
  have v: "pools_view ?h1 P L" if "pools_view h P L" "\<not> t_in_pool h ?t" for P L
    using that by (intro thread_new_view) simp_all
  obtain a c cs where e: "thread_setup m cth fn arg attr newthread b h =
     (let t = ?t; h1 = thread_new t (h\<lparr>tls_thread_cache := butlast (tls_thread_cache h)\<rparr>);
          type = (if newthread \<noteq> nullptr then ABTI_THREAD_NAMED else ABTI_THREAD_DETACHED);
          h3 = thread_fill t cth type fn arg a (g_next_id h1) nullptr nullptr (type = ABTI_THREAD_DETACHED) b
                 (h1\<lparr>g_next_id := g_next_id h1 + 1\<rparr>)
      in (t, fold rt cs ((rt c h3)\<lparr>cth_userdata := (cth_userdata h3)(cth := t),
                                   cth_awaken := (cth_awaken h3)(cth := Some (Thread_awaken t))\<rparr>)))"
    using thread_setup_eq [of m cth fn arg attr newthread b h] by blast
  have t: "t = ?t" using assms unfolding e Let_def by simp
  note h6 = assms [unfolded e Let_def prod.inject, THEN conjunct2, symmetric]
  show "t = next_desc m h" by (fact t)
  show "t_pool h6 t = nullptr" "p_user h6 = p_user h" "t_in_pool h6 = (t_in_pool h)(t := False)"
    "t_removed h6 = (t_removed h)(t := False)" "t_fn h6 t = fn" "t_arg h6 t = arg" "t_id h6 t = g_next_id h"
    "g_next_id h6 = g_next_id h + 1" "t_joiners h6 t = []" "t_keys h6 t = []" "\<not> t_terminated h6 t"
    "t_type h6 t = (if newthread \<noteq> nullptr then ABTI_THREAD_NAMED else ABTI_THREAD_DETACHED)"
    "t_cth h6 t = cth" "cth_userdata h6 cth = t" "p_num_blocked h6 = p_num_blocked h" "t_migrate_to h6 t = nullptr"
    "cth_awaken h6 cth = Some (Thread_awaken t)" "\<not> t_blocked_counted h6 t"
    unfolding h6 t by simp_all
  show "pools_view h6 P L" if "pools_view h P L" "\<not> t_in_pool h t"
    unfolding h6 using v that by (simp add: t)
qed

text \<open>
  C21. A ULT enters its pool complete: \<^verbatim>\<open>ABT_thread_create\<close> on a built-in pool returns the descriptor on
  top of the cache, or a new one, and that unit stands at the end of the pool; it is associated with the
  pool, has the given function and argument, a fresh id, no joiner and no value of any key, whatever the
  recycled descriptor held before, it is named exactly if the caller asked for its handle, the Converse
  thread leads back to it, and no other pool and no count of blocked ULTs changed.
\<close>

theorem thread_create_enters_pool:
  assumes "g_initialized h" "CmiIsPeThread E" "pools_view h P L" "p \<in> P" "is_obj p"
    and "is_obj (next_desc m h)" "\<not> t_in_pool h (next_desc m h)" and law: "awaken_law E"
  shows "\<exists>h'. ABT_thread_create E Epe m cth p fn arg attr newthread h = Some (Inr (next_desc m h), h') \<and>
    (let t = next_desc m h in pools_view h' P (L(p := L p @ [t])) \<and> t_pool h' t = p \<and> t_fn h' t = fn \<and> t_arg h' t = arg \<and>
       t_id h' t = g_next_id h \<and> g_next_id h' = g_next_id h + 1 \<and> t_joiners h' t = [] \<and> t_keys h' t = [] \<and> \<not> t_terminated h' t \<and>
       t_type h' t = (if newthread \<noteq> nullptr then ABTI_THREAD_NAMED else ABTI_THREAD_DETACHED) \<and>
       t_cth h' t = cth \<and> cth_userdata h' cth = t \<and> p_num_blocked h' = p_num_blocked h)"
proof -
  define t where "t = next_desc m h"
  obtain t' h6 where s': "thread_setup m cth fn arg attr newthread False h = (t', h6)" by fastforce
  have s: "thread_setup m cth fn arg attr newthread False h = (t, h6)" using s' thread_setup_sel(1) [OF s'] by (simp add: t_def)
  note h6 = thread_setup_sel [OF s] and v6 = thread_setup_sel(20) [OF s assms(3) assms(7) [folded t_def]]
  define h7 where "h7 = h6\<lparr>t_unit := (t_unit h6)(t := ABT_UNIT_NULL), t_pool := (t_pool h6)(t := p)\<rparr>"
  have a: "ABTI_pool_associate E t p h6 = Some h7"
    unfolding h7_def using pools_view_builtin [OF assms(3,4)] h6(2,3) assms(5) by (intro associate_new) simp_all
  have w: "wake_target t h7 = p" by (simp add: wake_target_def h7_def h6(17))
  have "\<exists>h'. ABTI_thread_awaken_fn E t h7 = Some h' \<and>
      pools_view h' P (L(wake_target t h7 := L (wake_target t h7) @ [t])) \<and> awaken_frame t h7 h'"
  proof (rule awaken_view)
    show "wake_target t h7 \<in> P" using assms(4) by (simp add: w)
    show "t \<noteq> nullptr" using assms(6) by (auto simp: t_def)
    show "t_pool h7 t = nullptr \<or> \<not> p_user h7 (t_pool h7 t)" using pools_view_builtin [OF v6 assms(4)] by (simp add: h7_def)
  qed (use v6 in \<open>simp_all add: h7_def h6(4,5)\<close>)
  then obtain h' where h': "ABTI_thread_awaken_fn E t h7 = Some h'" "pools_view h' P (L(p := L p @ [t]))" "awaken_frame t h7 h'"
    unfolding w by blast
  have "CthAwakenIfBlocked E cth h7 = Some (True, h')"
  proof -
    have "cth_awaken h7 cth = Some (Thread_awaken t)" using h6(18) by (simp add: h7_def)
    then show ?thesis using law h'(1) unfolding awaken_law_def by simp
  qed
  moreover have "is_obj t" using assms(6) by (simp add: t_def)
  ultimately have "ABT_thread_create E Epe m cth p fn arg attr newthread h = Some (Inr t, h')"
    using assms(1,2,5) s a unfolding thread_create_on_pe_def ABT_thread_create_def thread_create_impl_def Let_def by simp
  moreover have "t_pool h' t = p" "t_fn h' t = fn" "t_arg h' t = arg" "t_id h' t = g_next_id h" "g_next_id h' = g_next_id h + 1"
    "t_joiners h' t = []" "t_keys h' t = []" "\<not> t_terminated h' t" "t_cth h' t = cth" "cth_userdata h' cth = t"
    "t_type h' t = (if newthread \<noteq> nullptr then ABTI_THREAD_NAMED else ABTI_THREAD_DETACHED)" "p_num_blocked h' = p_num_blocked h"
    using h'(3) unfolding awaken_frame_def w by (simp_all add: h6(2-19) h7_def)
  ultimately show ?thesis using h'(2) unfolding Let_def t_def [symmetric] by simp
qed

text \<open>A runtime that obeys the law, and a ULT created in pool 512, which already holds 1536.\<close>

lemma awaken_fn_irrelevant: "ABTI_thread_awaken_fn (E\<lparr>CthAwakenIfBlocked := f\<rparr>) t h = ABTI_thread_awaken_fn E t h"
proof -
  have "call_u_free (E\<lparr>CthAwakenIfBlocked := f\<rparr>) = call_u_free E" "call_u_create (E\<lparr>CthAwakenIfBlocked := f\<rparr>) = call_u_create E"
    "call_p_push (E\<lparr>CthAwakenIfBlocked := f\<rparr>) = call_p_push E" by simp_all
  then show ?thesis
    unfolding ABTI_thread_awaken_fn_def ABTI_pool_associate_def ABTI_pool_disassociate_def pool_push_def by (simp only:)
qed

definition env_awaken :: "'a abt_env" where
  "env_awaken = env0\<lparr>CthAwakenIfBlocked := \<lambda>c s. case cth_awaken s c of
     Some (Thread_awaken t) \<Rightarrow> map_option (Pair True) (ABTI_thread_awaken_fn env0 t s) | _ \<Rightarrow> Some (False, s)\<rparr>"

lemma env_awaken_law: "awaken_law env_awaken"
  unfolding awaken_law_def env_awaken_def by (simp add: awaken_fn_irrelevant)

lemma env_awaken_pe [simp]: "CmiIsPeThread env_awaken"
  by (simp add: env_awaken_def env0_def)

theorem thread_create_enters_pool_witness:
  "\<exists>h'. ABT_thread_create env_awaken env0 4096 9 512 70 80 0 1 (abt_of heap3) = Some (Inr 4096, h') \<and>
    pools_view h' {512, 256} (view3(512 := [1536, 4096])) \<and> t_fn h' 4096 = 70 \<and> t_type h' 4096 = ABTI_THREAD_NAMED"
proof -
  let ?h = "abt_of heap3"
  have d: "next_desc 4096 ?h = 4096" by (simp add: next_desc_def abt_of_def pool_heap.defs abt_heap.defs)
  have v: "pools_view ?h {512, 256} view3" using heap3_view by simp
  show ?thesis
    using thread_create_enters_pool [OF _ _ v _ _ _ _ env_awaken_law, of 512 4096 env0 9 70 80 0 1]
    by (auto simp: d heap3_more heap3_flags view3_def ABTI_is_null_handle_def Let_def)
qed


subsection \<open>Termination wakes the joiners\<close>

lemma awaken_all_view:
  assumes "pools_view h P L" "awaken_law E" "distinct ws"
    "\<forall>u\<in>set ws. cth_awaken h (c u) = Some (Thread_awaken u) \<and> wake_target u h \<in> P \<and> u \<noteq> nullptr \<and> \<not> t_removed h u \<and>
       \<not> t_in_pool h u \<and> (t_pool h u = nullptr \<or> \<not> p_user h (t_pool h u))"
  shows "\<exists>h'. awaken_all E (map c ws) h = Some h' \<and> pools_view h' P (\<lambda>p. L p @ filter (\<lambda>u. wake_target u h = p) ws) \<and>
    (\<forall>q. p_num_blocked h' q = p_num_blocked h q - int (length (filter (\<lambda>u. t_blocked_counted h u \<and> t_blocked_pool h u = q) ws))) \<and>
    t_type h' = t_type h \<and> t_terminated h' = t_terminated h \<and> t_joiners h' = t_joiners h \<and> live h' = live h \<and>
    p_user h' = p_user h \<and> (\<forall>u. u \<notin> set ws \<longrightarrow> t_pool h' u = t_pool h u) \<and>
    x_finished h' = x_finished h \<and> x_state h' = x_state h \<and> x_joiners h' = x_joiners h \<and> s_used_by h' = s_used_by h"
  using assms
proof (induction ws arbitrary: h L)
  case Nil
  then show ?case by simp
next
  case (Cons u ws)
  let ?q = "wake_target u h"
  have "\<exists>h1. ABTI_thread_awaken_fn E u h = Some h1 \<and> pools_view h1 P (L(?q := L ?q @ [u])) \<and> awaken_frame u h h1"
    using Cons.prems(1,4) by (intro awaken_view) simp_all
  then obtain h1 where h1: "ABTI_thread_awaken_fn E u h = Some h1" "pools_view h1 P (L(?q := L ?q @ [u]))" "awaken_frame u h h1"
    by blast
  have w: "CthAwakenIfBlocked E (c u) h = Some (True, h1)"
    using Cons.prems(2,4) h1(1) unfolding awaken_law_def by simp
  have keep: "wake_target v h1 = wake_target v h" if "v \<in> set ws" for v
    using h1(3) Cons.prems(3) that by (auto simp: awaken_frame_def wake_target_def)
  have "\<forall>v\<in>set ws. cth_awaken h1 (c v) = Some (Thread_awaken v) \<and> wake_target v h1 \<in> P \<and> v \<noteq> nullptr \<and> \<not> t_removed h1 v \<and>
       \<not> t_in_pool h1 v \<and> (t_pool h1 v = nullptr \<or> \<not> p_user h1 (t_pool h1 v))"
    using Cons.prems(3,4) h1(3) keep by (auto simp: awaken_frame_def)
  with Cons.IH [OF h1(2) Cons.prems(2)] Cons.prems(3) obtain h' where h': "awaken_all E (map c ws) h1 = Some h'"
    "pools_view h' P (\<lambda>p. (L(?q := L ?q @ [u])) p @ filter (\<lambda>v. wake_target v h1 = p) ws)"
    "\<forall>q. p_num_blocked h' q = p_num_blocked h1 q - int (length (filter (\<lambda>v. t_blocked_counted h1 v \<and> t_blocked_pool h1 v = q) ws))"
    "t_type h' = t_type h1" "t_terminated h' = t_terminated h1" "t_joiners h' = t_joiners h1" "live h' = live h1"
    "p_user h' = p_user h1" "\<forall>v. v \<notin> set ws \<longrightarrow> t_pool h' v = t_pool h1 v"
    "x_finished h' = x_finished h1" "x_state h' = x_state h1" "x_joiners h' = x_joiners h1" "s_used_by h' = s_used_by h1" by auto
  have L: "(L(?q := L ?q @ [u])) p @ filter (\<lambda>v. wake_target v h1 = p) ws = L p @ filter (\<lambda>v. wake_target v h = p) (u # ws)" for p
    using keep by (auto intro!: filter_cong)
  have B: "filter (\<lambda>v. t_blocked_counted h1 v \<and> t_blocked_pool h1 v = q) ws = filter (\<lambda>v. t_blocked_counted h v \<and> t_blocked_pool h v = q) ws" for q
    using h1(3) Cons.prems(3) by (auto simp: awaken_frame_def intro!: filter_cong)
  show ?case
  proof (rule exI [of _ h'], intro conjI)
    show "awaken_all E (map c (u # ws)) h = Some h'" using w h'(1) by simp
    show "pools_view h' P (\<lambda>p. L p @ filter (\<lambda>v. wake_target v h = p) (u # ws))" using h'(2) unfolding L .
    show "\<forall>q. p_num_blocked h' q = p_num_blocked h q - int (length (filter (\<lambda>v. t_blocked_counted h v \<and> t_blocked_pool h v = q) (u # ws)))"
      using h'(3) h1(3) unfolding B by (auto simp: awaken_frame_def)
  qed (use h'(4-) h1(3) in \<open>auto simp: awaken_frame_def\<close>)
qed

text \<open>
  C8. No joiner is lost: when a unit ends, every thread blocked in a join of it is made ready, once and
  in the order of the joins: each stands behind what its pool held, or the pool it is to migrate to, and
  the blocked counts of the pools go down by exactly these threads.  The unit is terminated and has no
  joiner left; a detached one is freed, any other is kept for \<^verbatim>\<open>ABT_thread_free\<close>.
\<close>

theorem terminated_wakes_joiners:
  assumes "pools_view h P L" "awaken_law E" "distinct ws" "t_joiners h t = map c ws" "t \<notin> set ws"
    "\<forall>u\<in>set ws. cth_awaken h (c u) = Some (Thread_awaken u) \<and> wake_target u h \<in> P \<and> u \<noteq> nullptr \<and> \<not> t_removed h u \<and>
       \<not> t_in_pool h u \<and> (t_pool h u = nullptr \<or> \<not> p_user h (t_pool h u))"
    and own: "t_pool h t = nullptr \<or> \<not> p_user h (t_pool h t)"
  shows "\<exists>h'. ABTI_thread_terminated E t h = Some h' \<and> t_terminated h' t \<and> t_joiners h' t = [] \<and>
    pools_view h' P (\<lambda>p. L p @ filter (\<lambda>u. wake_target u h = p) ws) \<and>
    (\<forall>q. p_num_blocked h' q = p_num_blocked h q - int (length (filter (\<lambda>u. t_blocked_counted h u \<and> t_blocked_pool h u = q) ws))) \<and>
    live h' = (if t_type h t = ABTI_THREAD_DETACHED then live h - {t} else live h)"
proof -
  define h1 where "h1 = h\<lparr>t_terminated := (t_terminated h)(t := True), t_joiners := (t_joiners h)(t := [])\<rparr>"
  have w: "wake_target u h1 = wake_target u h" for u by (simp add: wake_target_def h1_def)
  have "\<exists>h'. awaken_all E (map c ws) h1 = Some h' \<and> pools_view h' P (\<lambda>p. L p @ filter (\<lambda>u. wake_target u h1 = p) ws) \<and>
    (\<forall>q. p_num_blocked h' q = p_num_blocked h1 q - int (length (filter (\<lambda>u. t_blocked_counted h1 u \<and> t_blocked_pool h1 u = q) ws))) \<and>
    t_type h' = t_type h1 \<and> t_terminated h' = t_terminated h1 \<and> t_joiners h' = t_joiners h1 \<and> live h' = live h1 \<and>
    p_user h' = p_user h1 \<and> (\<forall>u. u \<notin> set ws \<longrightarrow> t_pool h' u = t_pool h1 u) \<and>
    x_finished h' = x_finished h1 \<and> x_state h' = x_state h1 \<and> x_joiners h' = x_joiners h1 \<and> s_used_by h' = s_used_by h1"
    by (rule awaken_all_view) (use assms in \<open>auto simp: h1_def w [unfolded h1_def]\<close>)
  then obtain h2 where h2: "awaken_all E (map c ws) h1 = Some h2" "pools_view h2 P (\<lambda>p. L p @ filter (\<lambda>u. wake_target u h = p) ws)"
    "\<forall>q. p_num_blocked h2 q = p_num_blocked h q - int (length (filter (\<lambda>u. t_blocked_counted h u \<and> t_blocked_pool h u = q) ws))"
    "t_type h2 = t_type h" "t_terminated h2 t" "t_joiners h2 t = []" "live h2 = live h" "p_user h2 = p_user h" "t_pool h2 t = t_pool h t"
    unfolding w using assms(5) by (auto simp: h1_def)
  show ?thesis
    using h2 assms(4) own
    by (auto simp: ABTI_thread_terminated_def h1_def [symmetric] Let_def ABTI_thread_release_def ABTI_pool_disassociate_def)
qed

text \<open>Thread 8192 of pool 256 waits for the detached thread 4096, which ends.\<close>

definition joined :: abt_heap where
  "joined = (abt_of heap3)\<lparr>t_pool := (t_pool heap3)(8192 := 256), t_joiners := (\<lambda>_. [])(4096 := [9]),
     cth_awaken := (\<lambda>_. None)(9 := Some (Thread_awaken 8192)), t_blocked_counted := (\<lambda>_. False)(8192 := True),
     t_blocked_pool := (\<lambda>_. nullptr)(8192 := 256), p_num_blocked := (\<lambda>_. 0)(256 := 1), live := {256, 512, 4096, 8192},
     t_type := (t_type heap3)(4096 := ABTI_THREAD_DETACHED)\<rparr>"

theorem terminated_wakes_joiners_witness:
  "\<exists>h'. ABTI_thread_terminated env_awaken 4096 joined = Some h' \<and> t_terminated h' 4096 \<and> p_num_blocked h' 256 = 0 \<and>
    pools_view h' {512, 256} (view3(256 := [1024, 1280, 8192])) \<and> 4096 \<notin> live h'"
proof -
  have v: "pools_view joined {512, 256} view3" using heap3_view by (simp add: joined_def)
  have w: "wake_target 8192 joined = 256" by (simp add: wake_target_def joined_def abt_of_def pool_heap.defs abt_heap.defs)
  have L: "(\<lambda>p. view3 p @ filter (\<lambda>u. wake_target u joined = p) [8192]) = view3(256 := [1024, 1280, 8192])"
    by (auto simp: w view3_def)
  show ?thesis
    using terminated_wakes_joiners [OF v env_awaken_law, of "[8192]" 4096 "\<lambda>_. 9"]
    unfolding L by (simp add: w) (auto simp: joined_def heap3_flags)
qed



subsection \<open>Tasklets\<close>

lemma task_create_view:
  assumes "g_initialized h" "pools_view h P L" "p \<in> P" "is_obj p" "t = next_desc m h" "is_obj t" "\<not> t_in_pool h t"
  shows "\<exists>h'. ABT_task_create E m p fn arg newtask h = Some (Inr t, h') \<and> pools_view h' P (L(p := L p @ [t])) \<and>
    t_cth h' t = nullptr \<and> t_fn h' t = fn \<and> t_arg h' t = arg \<and> t_is_task h' t \<and> \<not> t_terminated h' t \<and>
    t_joiners h' t = [] \<and> t_pool h' t = p \<and> t_tstate h' t = CTH_STATE_READY \<and> tls_task h' = tls_task h \<and>
    t_type h' t = (if newtask \<noteq> nullptr then ABTI_THREAD_NAMED else ABTI_THREAD_DETACHED) \<and>
    abt_heap.more h' = abt_heap.more h \<and> cth_userdata h' = cth_userdata h \<and> live h' = insert t (live h) \<and>
    tls_thread_cache h' = butlast (tls_thread_cache h) \<and> g_initialized h' \<and> p_user h' = p_user h"
proof -
  define h1 where "h1 = thread_new t (h\<lparr>tls_thread_cache := butlast (tls_thread_cache h)\<rparr>)"
  define type where "type = (if newtask \<noteq> nullptr then ABTI_THREAD_NAMED else ABTI_THREAD_DETACHED)"
  define h2 where "h2 = h1\<lparr>g_next_id := g_next_id h1 + 1\<rparr>"
  define h3 where "h3 = (thread_fill t nullptr type fn arg
      \<lparr>attr_stacksize = 0, attr_stackaddr = nullptr, attr_migratable = True\<rparr> (g_next_id h1) nullptr nullptr
      (type = ABTI_THREAD_DETACHED) True h2)\<lparr>t_tstate := (t_tstate h2)(t := CTH_STATE_READY)\<rparr>"
  define h4 where "h4 = h3\<lparr>t_unit := (t_unit h3)(t := ABT_UNIT_NULL), t_pool := (t_pool h3)(t := p)\<rparr>"
  have v1: "pools_view h1 P L" using thread_new_view [of "h\<lparr>tls_thread_cache := butlast (tls_thread_cache h)\<rparr>" P L t] assms(2,7)
    by (simp add: h1_def)
  then have v4: "pools_view h4 P L" by (simp add: h4_def h3_def h2_def)
  have a: "ABTI_pool_associate E t p h3 = Some h4" unfolding h4_def
    using pools_view_builtin [OF assms(2,3)] assms(4) by (intro associate_new) (simp_all add: h3_def h2_def h1_def)
  have "\<not> t_removed h4 t" "\<not> t_in_pool h4 t" "t \<noteq> nullptr" using assms(6) by (simp_all add: h4_def h3_def h2_def h1_def)
  with pool_push_view [OF v4 assms(3), of t E] obtain h' where h': "pool_push E p t h4 = Some h'"
    "pools_view h' P (L(p := L p @ [t]))" "qframe h4 h'" by auto
  have "ABT_task_create E m p fn arg newtask h = Some (Inr t, h')"
    using assms(1,4,6) a h'(1)
    unfolding ABT_task_create_def task_create_impl_def thread_alloc_eq assms(5) [symmetric] fresh_id_eq Let_def prod.case
      h1_def [symmetric] h2_def [symmetric] type_def [symmetric] h3_def [symmetric] by simp
  then show ?thesis using h'(2) assms(1)
    by (intro exI [of _ h']) (simp add: qframe_sel [OF h'(3)] qframe_abt [OF h'(3)] h4_def h3_def h2_def h1_def type_def)
qed

lemma view_more [simp]: "pools_view (abt_heap.more_update f h) P L = pools_view h P L"
  by (simp add: pools_view_def pools_rep_def pool_linked_def mpsc_def mpsc_chain_def dll_def)

lemma run_tasklet:
  assumes "t_cth h t = nullptr" "\<forall>s. call_fn E (t_fn h t) (t_arg h t) s = abt_heap.more_update f s" "t_joiners h t = []"
    "t_type h t \<noteq> ABTI_THREAD_DETACHED" "pools_view h P L"
  shows "\<exists>h'. ABTI_pool_run_thread E t h = Some h' \<and> abt_heap.more h' = f (abt_heap.more h) \<and> t_terminated h' t \<and>
    tls_task h' = tls_task h \<and> pools_view h' P L \<and> t_type h' = t_type h \<and> t_is_task h' = t_is_task h \<and> g_initialized h' = g_initialized h \<and>
    cth_userdata h' = cth_userdata h \<and> live h' = live h \<and> tls_thread_cache h' = tls_thread_cache h \<and> t_cth h' = t_cth h \<and>
    t_pool h' = t_pool h \<and> p_user h' = p_user h"
  using assms by (simp add: ABTI_pool_run_thread_def ABTI_thread_terminated_def Let_def)

text \<open>
  C22. A tasklet runs exactly once and to its end: in an empty pool of a PE, \<^verbatim>\<open>ABT_task_create\<close> followed
  by one poll of the pool runs \<^verbatim>\<open>fn(arg)\<close> once (its effect \<open>f\<close> on the application's state happens once),
  afterwards the tasklet is terminated, the pool is empty again and the tasklet that was running before,
  if any, is the current one again; its state is ready before and terminated after.  Then
  \<^verbatim>\<open>ABT_task_free\<close> succeeds at once, clears the handle, and the descriptor is gone, kept for reuse
  unless 256 are.
\<close>

theorem task_runs_once:
  assumes "g_initialized h" "pools_view h P L" "p \<in> P" "is_obj p" "L p = []" "t = next_desc m h" "is_obj t" "\<not> t_in_pool h t"
    and "is_obj newtask" "ABTI_self_thread E h \<noteq> t" and body: "\<forall>s. call_fn E fn arg s = abt_heap.more_update f s"
  shows "\<exists>h1 h2 h3. ABT_task_create E m p fn arg newtask h = Some (Inr t, h1) \<and> ABT_task_get_state E t h1 = (Inr ABT_TASK_STATE_READY, h1) \<and>
    ABTI_poll_pool E p h1 = Some (1, h2) \<and> abt_heap.more h2 = f (abt_heap.more h) \<and> pools_view h2 P L \<and> tls_task h2 = tls_task h \<and>
    ABT_task_get_state E t h2 = (Inr ABT_TASK_STATE_TERMINATED, h2) \<and>
    ABT_task_free E newtask t h2 = Some (Inr ABT_THREAD_NULL, h3) \<and> t \<notin> live h3 \<and>
    tls_thread_cache h3 = (let c = butlast (tls_thread_cache h) in if length c < 256 then c @ [t] else c)"
proof -
  have nt: "newtask \<noteq> nullptr" "t \<noteq> nullptr" using assms(7,9) by auto
  from task_create_view [OF assms(1-4,6-8), of E fn arg newtask] nt obtain h1 where
    h1: "ABT_task_create E m p fn arg newtask h = Some (Inr t, h1)" "pools_view h1 P (L(p := L p @ [t]))" and
    f1: "t_cth h1 t = nullptr" "t_fn h1 t = fn" "t_arg h1 t = arg" "t_is_task h1 t" "\<not> t_terminated h1 t" "t_joiners h1 t = []"
    "t_pool h1 t = p" "t_tstate h1 t = CTH_STATE_READY" "tls_task h1 = tls_task h" "t_type h1 t = ABTI_THREAD_NAMED"
    "abt_heap.more h1 = abt_heap.more h" "cth_userdata h1 = cth_userdata h" "tls_thread_cache h1 = butlast (tls_thread_cache h)"
    "g_initialized h1" "p_user h1 = p_user h" by auto
  have "\<not> pinned_elsewhere E h1 t" using f1(10) by (simp add: pinned_elsewhere_def)
  with pool_pop_view_frame [OF h1(2) assms(3), of E] assms(5) obtain hp where
    hp: "pool_pop E p h1 = Some (t, hp)" "pools_view hp P (L(p := []))" "qframe h1 hp" by auto
  have vp: "pools_view (rt CsdReleaseIdle hp) P L" using hp(2) assms(5) by (simp add: fun_upd_idem)
  note q = qframe_sel [OF hp(3)] qframe_abt [OF hp(3)]
  have "\<exists>h'. ABTI_pool_run_thread E t (rt CsdReleaseIdle hp) = Some h' \<and> abt_heap.more h' = f (abt_heap.more (rt CsdReleaseIdle hp)) \<and>
    t_terminated h' t \<and> tls_task h' = tls_task (rt CsdReleaseIdle hp) \<and> pools_view h' P L \<and> t_type h' = t_type (rt CsdReleaseIdle hp) \<and>
    t_is_task h' = t_is_task (rt CsdReleaseIdle hp) \<and> g_initialized h' = g_initialized (rt CsdReleaseIdle hp) \<and>
    cth_userdata h' = cth_userdata (rt CsdReleaseIdle hp) \<and> live h' = live (rt CsdReleaseIdle hp) \<and>
    tls_thread_cache h' = tls_thread_cache (rt CsdReleaseIdle hp) \<and> t_cth h' = t_cth (rt CsdReleaseIdle hp) \<and>
    t_pool h' = t_pool (rt CsdReleaseIdle hp) \<and> p_user h' = p_user (rt CsdReleaseIdle hp)"
    by (rule run_tasklet) (use vp in \<open>simp_all add: q f1 body\<close>)
  then obtain h2 where h2: "ABTI_pool_run_thread E t (rt CsdReleaseIdle hp) = Some h2" "pools_view h2 P L" and
    f2: "abt_heap.more h2 = f (abt_heap.more h)" "t_terminated h2 t" "tls_task h2 = tls_task h" "t_type h2 t = ABTI_THREAD_NAMED"
    "t_is_task h2 t" "g_initialized h2" "cth_userdata h2 = cth_userdata h" "tls_thread_cache h2 = butlast (tls_thread_cache h)"
    "t_cth h2 t = nullptr" "t_pool h2 t = p" "\<not> p_user h2 p"
    using pools_view_builtin [OF assms(2,3)] by (auto simp: q f1)
  have self: "ABTI_self_thread E h2 \<noteq> t" using assms(10) unfolding ABTI_self_thread_def f2 .
  have poll: "ABTI_poll_pool E p h1 = Some (1, h2)" using hp(1) h2(1) nt by (simp add: ABTI_poll_pool_def)
  define h3 where "h3 = ABTI_thread_destroy E t h2"
  have free: "ABT_task_free E newtask t h2 = Some (Inr ABT_THREAD_NULL, h3)"
    using assms(7,9) f2 self
    by (simp add: ABT_task_free_def ABT_thread_free_def task_get_def with_thread_opt_def ABTI_thread_join_impl_def h3_def)
  have "t \<notin> live h3 \<and> tls_thread_cache h3 = (let c = butlast (tls_thread_cache h) in if length c < 256 then c @ [t] else c)"
    using f2 nt by (simp add: h3_def ABTI_thread_destroy_def ABTI_thread_release_def ABTI_pool_disassociate_def Let_def)
  with h1(1) poll h2(2) f2 f1 free assms(7) show ?thesis
    by (auto simp: ABT_task_get_state_def with_task_def task_get_def map_state_def)
qed

text \<open>A tasklet in the empty pool 768 of a process whose application state is a counter.\<close>

definition idle_heap :: "nat abt_heap_scheme" where
  "idle_heap = abt_heap.extend (abt_of heap0) 41"

lemma idle_heap_sel:
  "g_initialized idle_heap" "tls_thread_cache idle_heap = []" "\<not> t_in_pool idle_heap t" "abt_heap.more idle_heap = 41"
  "tls_task idle_heap = nullptr" "cth_userdata idle_heap = (\<lambda>_. nullptr)"
  "pools_view idle_heap {768} (\<lambda>_. [])"
  by (simp_all add: idle_heap_def abt_of_def heap0_def abt_heap.defs pool_heap.defs pools_view_def pools_rep_def
      pool_linked_def dll_def exI [of _ "\<lambda>_. []"])

theorem task_runs_once_witness:
  "let E = env0\<lparr>call_fn := \<lambda>_ _. abt_heap.more_update Suc\<rparr>
   in \<exists>h1 h2 h3. ABT_task_create E 4096 768 70 80 1000 idle_heap = Some (Inr 4096, h1) \<and> ABTI_poll_pool E 768 h1 = Some (1, h2) \<and>
        abt_heap.more h2 = 42 \<and> ABT_task_free E 1000 4096 h2 = Some (Inr ABT_THREAD_NULL, h3) \<and> tls_thread_cache h3 = [4096]"
proof -
  let ?E = "env0\<lparr>call_fn := \<lambda>_ _. abt_heap.more_update Suc\<rparr> :: nat abt_heap_scheme env"
  have d: "(4096::nat) = next_desc 4096 idle_heap" by (simp add: next_desc_def idle_heap_sel)
  have self: "ABTI_self_thread ?E idle_heap \<noteq> 4096" by (simp add: ABTI_self_thread_def idle_heap_sel env0_def)
  show ?thesis
    using task_runs_once [OF idle_heap_sel(1) idle_heap_sel(7) _ _ _ d, of 768 1000 ?E 70 80 Suc] self
    by (auto simp: idle_heap_sel ABTI_is_null_handle_def Let_def)
qed

end
