(* ===== verification/Blocking.thy ===== *)
theory Blocking
  imports Thread_Life
begin

section \<open>How many threads of a pool are blocked\<close>

text \<open>
  A pool counts its blocked ULTs; streams and schedulers end only when the count says that nobody is
  left.  This theory runs the calls that change the count in any order: a thread enters a blocking call,
  the runtime makes a blocked thread ready through the awaken function of the library, and anything else
  that keeps the records of blocking.  \<open>waiting\<close> is an auxiliary variable: the threads the runtime has in the
  state BLOCKED, each with the pool it had when it suspended.  Only a thread that is not blocked can call,
  and the runtime makes only blocked threads ready.
\<close>

record 'a block_sys =
  bmem :: "'a abt"
  waiting :: "ptr \<rightharpoonup> ptr"

text \<open>The fields of the count.\<close>

definition block_part :: "'a abt \<Rightarrow> _" where
  "block_part h = (p_num_blocked h, t_blocked_counted h, t_blocked_pool h)"

inductive block_step :: "'a block_sys \<Rightarrow> 'a block_sys \<Rightarrow> bool" where
  suspend: "t \<notin> dom (waiting s) \<Longrightarrow> t_type (bmem s) t \<noteq> ABTI_THREAD_SCHED \<Longrightarrow>
    block_step s \<lparr>bmem = block_enter t (bmem s), waiting = (waiting s)(t \<mapsto> t_pool (bmem s) t)\<rparr>"
| suspend_runner: "t \<notin> dom (waiting s) \<Longrightarrow> t_type (bmem s) t = ABTI_THREAD_SCHED \<Longrightarrow>
    block_step s (s\<lparr>bmem := block_enter t (bmem s)\<rparr>)"
| awaken: "t \<in> dom (waiting s) \<Longrightarrow> \<not> p_user (bmem s) (wake_target t (bmem s)) \<Longrightarrow>
    t_pool (bmem s) t = nullptr \<or> \<not> p_user (bmem s) (t_pool (bmem s) t) \<Longrightarrow>
    ABTI_thread_awaken_fn E t (bmem s) = Some h' \<Longrightarrow> block_step s \<lparr>bmem = h', waiting = (waiting s)(t := None)\<rparr>"
| awaken_runner: "t \<notin> dom (waiting s) \<Longrightarrow> block_step s (s\<lparr>bmem := runner_awaken_fn E cth t (bmem s)\<rparr>)"
| push: "\<not> p_user (bmem s) p \<Longrightarrow> pool_push E p t (bmem s) = Some h' \<Longrightarrow> block_step s (s\<lparr>bmem := h'\<rparr>)"
| pop: "\<not> p_user (bmem s) p \<Longrightarrow> pool_pop E p (bmem s) = Some (t, h') \<Longrightarrow> block_step s (s\<lparr>bmem := h'\<rparr>)"
| other: "block_part h' = block_part (bmem s) \<Longrightarrow> block_step s (s\<lparr>bmem := h'\<rparr>)"

definition block_init :: "'a block_sys \<Rightarrow> bool" where
  "block_init s \<longleftrightarrow> waiting s = Map.empty \<and> p_num_blocked (bmem s) = (\<lambda>_. 0) \<and> t_blocked_counted (bmem s) = (\<lambda>_. False)"

text \<open>Exactly the blocked threads are counted, once, in the pool they suspended in.\<close>

definition block_inv :: "'a block_sys \<Rightarrow> bool" where
  "block_inv s \<longleftrightarrow> finite (dom (waiting s)) \<and>
     (\<forall>t. t_blocked_counted (bmem s) t \<longleftrightarrow> t \<in> dom (waiting s)) \<and>
     (\<forall>t p. waiting s t = Some p \<longrightarrow> t_blocked_pool (bmem s) t = p) \<and>
     (\<forall>p. p_num_blocked (bmem s) p = int (card {t. waiting s t = Some p}))"

lemma block_inv_cong: "block_inv s \<Longrightarrow> block_part h' = block_part (bmem s) \<Longrightarrow> block_inv (s\<lparr>bmem := h'\<rparr>)"
  by (simp add: block_inv_def block_part_def)

lemma qframe_block_part: "qframe h h' \<Longrightarrow> block_part h' = block_part h" for h :: "'a abt"
  by (simp add: block_part_def qframe_sel qframe_abt)

lemma waiting_finite: "block_inv s \<Longrightarrow> finite {t. waiting s t = Some p}"
  by (auto simp: block_inv_def dom_def intro: rev_finite_subset)

lemma waiting_insert:
  "m t = None \<Longrightarrow> {u. (m(t \<mapsto> q)) u = Some p} = (if p = q then insert t {u. m u = Some p} else {u. m u = Some p})"
  by auto

lemma waiting_remove: "{u. (m(t := None)) u = Some p} = {u. m u = Some p} - {t}"
  by auto

lemma suspend_inv:
  assumes i: "block_inv s" and t: "t \<notin> dom (waiting s)" "t_type (bmem s) t \<noteq> ABTI_THREAD_SCHED"
  shows "block_inv \<lparr>bmem = block_enter t (bmem s), waiting = (waiting s)(t \<mapsto> t_pool (bmem s) t)\<rparr>"
proof -
  have "waiting s t = None" using t(1) by auto
  moreover have "finite {u. waiting s u = Some p}" for p by (rule waiting_finite [OF i])
  ultimately show ?thesis using i t(2) unfolding block_inv_def
    by (auto simp: block_enter_def Let_def waiting_insert simp del: fun_upd_apply) (auto simp: split: if_splits)
qed

text \<open>What making a thread ready does to the count.\<close>

lemma awaken_block_part:
  assumes "ABTI_thread_awaken_fn E t h = Some h'" "\<not> p_user h (wake_target t h)" "t_pool h t = nullptr \<or> \<not> p_user h (t_pool h t)"
  shows "block_part h' = block_part (uncount_blocked t h)"
proof -
  let ?h1 = "uncount_blocked t h"
  have u: "t_migrate_to ?h1 = t_migrate_to h" "t_pool ?h1 = t_pool h" "p_user ?h1 = p_user h" by (auto simp: uncount_blocked_def)
  show ?thesis
  proof (cases "t_migrate_to h t = nullptr")
    case True
    then have "pool_push E (t_pool h t) t ?h1 = Some h'" "\<not> p_user ?h1 (t_pool h t)"
      using assms u by (simp_all add: ABTI_thread_awaken_fn_def wake_target_def Let_def)
    then show ?thesis using pool_push_qframe qframe_block_part by blast
  next
    case False
    let ?q = "t_migrate_to h t"
    let ?g = "?h1\<lparr>t_migrate_to := (t_migrate_to ?h1)(t := nullptr)\<rparr>"
    from False assms(1) u obtain h2 where h2: "ABTI_pool_associate E t ?q ?g = Some h2" "pool_push E (t_pool h2 t) t h2 = Some h'"
      by (auto simp: ABTI_thread_awaken_fn_def Let_def split: bind_splits)
    have q: "\<not> p_user ?g ?q" "t_pool ?g t = nullptr \<or> \<not> p_user ?g (t_pool ?g t)" using assms(2,3) False u by (simp_all add: wake_target_def)
    from h2(1) associate_builtin [OF q(1) q(2), of E] have
      "h2 = (if t_pool ?g t = ?q then ?g else ?g\<lparr>t_unit := (t_unit ?g)(t := ABT_UNIT_NULL), t_pool := (t_pool ?g)(t := ?q)\<rparr>)" by auto
    then have "block_part h2 = block_part ?h1" "t_pool h2 t = ?q" "\<not> p_user h2 ?q" using q(1) by (auto simp: block_part_def)
    then show ?thesis using h2(2) pool_push_qframe qframe_block_part by metis
  qed
qed


lemma awaken_inv:
  assumes i: "block_inv s" and t: "t \<in> dom (waiting s)" and part: "block_part h' = block_part (uncount_blocked t (bmem s))"
  shows "block_inv \<lparr>bmem = h', waiting = (waiting s)(t := None)\<rparr>"
proof -
  obtain q where q: "waiting s t = Some q" using t by auto
  have b: "t_blocked_counted (bmem s) t" "t_blocked_pool (bmem s) t = q" using i q by (auto simp: block_inv_def)
  have f: "p_num_blocked h' = (p_num_blocked (bmem s))(q := p_num_blocked (bmem s) q - 1)"
    "t_blocked_counted h' = (t_blocked_counted (bmem s))(t := False)" "t_blocked_pool h' = t_blocked_pool (bmem s)"
    using part b by (simp_all add: block_part_def uncount_blocked_def)
  have n: "p_num_blocked (bmem s) p = int (card {u. waiting s u = Some p})" for p using i by (simp add: block_inv_def)
  have "p_num_blocked h' p = int (card ({u. waiting s u = Some p} - {t}))" for p
  proof (cases "p = q")
    case True
    then have "t \<in> {u. waiting s u = Some p}" using q by simp
    then have "card {u. waiting s u = Some p} = Suc (card ({u. waiting s u = Some p} - {t}))"
      by (rule card_Suc_Diff1 [OF waiting_finite [OF i], symmetric])
    then show ?thesis using True by (simp add: f n)
  next
    case False
    then have "{u. waiting s u = Some p} - {t} = {u. waiting s u = Some p}" using q by auto
    then show ?thesis using False by (simp add: f n)
  qed
  moreover have "t_blocked_counted h' u \<longleftrightarrow> u \<in> dom ((waiting s)(t := None))" for u using i by (auto simp: f(2) block_inv_def)
  moreover have "t_blocked_pool h' u = p" if "((waiting s)(t := None)) u = Some p" for u p
    using i that by (auto simp: f(3) block_inv_def split: if_splits)
  moreover have "finite (dom ((waiting s)(t := None)))" using i by (simp add: block_inv_def)
  ultimately show ?thesis unfolding block_inv_def block_sys.simps waiting_remove by blast
qed

lemma block_step_inv:
  assumes "block_inv s" "block_step s s'"
  shows "block_inv s'"
  using assms(2)
proof cases
  case (suspend t)
  then show ?thesis using suspend_inv [OF assms(1)] by simp
next
  case (suspend_runner t)
  then have "s' = s" by (simp add: block_enter_def)
  then show ?thesis using assms(1) by simp
next
  case (awaken t E h')
  then show ?thesis using awaken_inv [OF assms(1)] awaken_block_part by blast
next
  case (awaken_runner t E cth)
  then have "\<not> t_blocked_counted (bmem s) t" using assms(1) by (auto simp: block_inv_def)
  then have "block_part (runner_awaken_fn E cth t (bmem s)) = block_part (bmem s)"
    by (simp add: runner_awaken_fn_def uncount_blocked_def block_part_def Let_def)
  then show ?thesis using awaken_runner(1) block_inv_cong [OF assms(1)] by simp
next
  case (push p E t h')
  then show ?thesis using block_inv_cong [OF assms(1)] pool_push_qframe qframe_block_part by blast
next
  case (pop p E t h')
  then show ?thesis using block_inv_cong [OF assms(1)] pool_pop_qframe qframe_block_part by blast
next
  case (other h')
  then show ?thesis using block_inv_cong [OF assms(1)] by simp
qed

lemma block_init_inv: "block_init s \<Longrightarrow> block_inv s"
  by (simp add: block_init_def block_inv_def)

interpretation blocking: transition_system block_init block_step block_inv
  by unfold_locales (blast intro: block_init_inv block_step_inv)+

text \<open>
  C6.  The number of blocked ULTs of a pool is exact.  After any sequence of blocking calls, wake-ups, pushes
  and pops, by any threads, the count of every pool is the number of threads that are blocked and were in
  this pool when they suspended; a thread that is to migrate still counts in its old pool and is taken
  off that pool's count when it is woken, and a thread is marked as counted exactly while it is blocked.
  The calls are whole steps, the pools a thread is woken from and into are built-in ones, and the runtime
  makes only blocked threads ready.
\<close>

theorem blocked_counts_exact:
  assumes "reach block_init block_step s"
  shows "p_num_blocked (bmem s) p = int (card {t. waiting s t = Some p}) \<and> finite {t. waiting s t = Some p} \<and>
    (t_blocked_counted (bmem s) t \<longleftrightarrow> t \<in> dom (waiting s))"
proof -
  have i: "block_inv s" by (rule blocking.reach_inv [OF assms])
  then show ?thesis using waiting_finite [OF i] by (simp add: block_inv_def)
qed

text \<open>The thread at 4096 of pool 256 is to migrate to pool 512; it blocks and is woken.\<close>

definition migrating :: abt_heap where
  "migrating = (abt_of heap3)\<lparr>t_pool := (t_pool heap3)(4096 := 256), t_migrate_to := (\<lambda>_. nullptr)(4096 := 512)\<rparr>"

theorem blocked_counts_exact_witness:
  "p_num_blocked (block_enter 4096 migrating) 256 = 1 \<and> p_num_blocked (block_enter 4096 migrating) 512 = 0 \<and>
   (\<exists>h'. ABTI_thread_awaken_fn env0 4096 (block_enter 4096 migrating) = Some h' \<and> t_pool h' 4096 = 512 \<and>
      p_num_blocked h' 256 = 0 \<and> p_num_blocked h' 512 = 0)"
proof -
  let ?b = "block_enter 4096 migrating"
  let ?s0 = "\<lparr>bmem = migrating, waiting = Map.empty\<rparr>" and ?s1 = "\<lparr>bmem = ?b, waiting = [4096 \<mapsto> 256]\<rparr>"
  have f: "t_pool migrating 4096 = 256" "\<not> p_user migrating 256" "\<not> t_removed migrating 4096" "\<not> t_in_pool migrating 4096"
    "t_type migrating 4096 \<noteq> ABTI_THREAD_SCHED" "p_num_blocked migrating = (\<lambda>_. 0)" "t_migrate_to migrating 4096 = 512" "\<not> p_user migrating 512"
    "t_blocked_counted migrating = (\<lambda>_. False)"
    by (simp_all add: migrating_def heap3_flags heap3_more)
       (simp add: abt_of_def pool_heap.defs abt_heap.defs)
  have r0: "reach block_init block_step ?s0" by (rule reach_init) (simp add: block_init_def f)
  have "block_step ?s0 ?s1" using block_step.suspend [of 4096 ?s0] f by simp
  with r0 have r1: "reach block_init block_step ?s1" by (blast intro: reach.intros)
  have v: "pools_view ?b {512, 256} view3" using heap3_view by (simp add: migrating_def block_enter_def Let_def)
  have w: "wake_target 4096 ?b = 512" using f by (simp add: wake_target_def block_enter_def Let_def)
  have g: "t_pool ?b = t_pool migrating" "p_user ?b = p_user migrating" "t_removed ?b = t_removed migrating" "t_in_pool ?b = t_in_pool migrating"
    by (simp_all add: block_enter_def Let_def)
  from awaken_view [OF v, of 4096 env0] obtain h' where h': "ABTI_thread_awaken_fn env0 4096 ?b = Some h'" "awaken_frame 4096 ?b h'"
    using f by (auto simp: w g)
  have "block_step ?s1 \<lparr>bmem = h', waiting = Map.empty\<rparr>"
    using block_step.awaken [of 4096 ?s1 env0 h'] h'(1) f by (simp add: w g)
  with r1 have r2: "reach block_init block_step \<lparr>bmem = h', waiting = Map.empty\<rparr>" by (blast intro: reach.intros)
  have c: "{t. [4096 \<mapsto> 256] t = Some (256::nat)} = {4096::nat}" "{t. [4096::nat \<mapsto> 256] t = Some (512::nat)} = {}" by (auto split: if_splits)
  note e1 = blocked_counts_exact [OF r1, THEN conjunct1, unfolded block_sys.simps]
  note e2 = blocked_counts_exact [OF r2, THEN conjunct1, unfolded block_sys.simps]
  have "p_num_blocked ?b 256 = 1" "p_num_blocked ?b 512 = 0" using e1 [of 256] e1 [of 512] unfolding c by simp_all
  moreover have "p_num_blocked h' 256 = 0" "p_num_blocked h' 512 = 0" using e2 [of 256] e2 [of 512] by simp_all
  moreover have "t_pool h' 4096 = 512" using h'(2) w by (simp add: awaken_frame_def)
  ultimately show ?thesis using h'(1) by blast
qed

end
