(* ===== verification/Thread_Keys.thy ===== *)
theory Thread_Keys
  imports Thread_Api
begin

section \<open>Thread-specific data\<close>

text \<open>
  Keys of \<^verbatim>\<open>src/src/thread.cpp\<close>: a key denotes the same slot of every thread, two keys never the same
  one, a slot keeps the last value written through its key, and when a thread ends the values that are
  left are handed to the destructors of their keys.
\<close>


subsection \<open>Slots\<close>

definition slot :: "ptr list \<Rightarrow> nat \<Rightarrow> ptr" where
  "slot ks i = (if i < length ks then ks ! i else nullptr)"

lemma slot_resize [simp]: "slot (resize n ks) i = slot ks i"
  by (simp add: slot_def resize_def nth_append)

lemma slot_update: "slot ((if i \<ge> length ks then resize (i + 1) ks else ks)[i := v]) j = (if j = i then v else slot ks j)"
  by (auto simp: slot_def resize_def nth_append nth_list_update)

lemma get_specific_slot:
  "is_obj t \<Longrightarrow> is_obj k \<Longrightarrow> ABT_thread_get_specific t k h = (Inr (slot (t_keys h t) (k_id h k)), h)"
  by (simp add: ABT_thread_get_specific_def with_thread_def with_key_def slot_def)

lemma set_specific_slots:
  assumes "is_obj t" "is_obj k"
  shows "\<exists>ks. ABT_thread_set_specific t k v h = (Inr (), h\<lparr>t_keys := (t_keys h)(t := ks)\<rparr>) \<and>
    slot ks = (slot (t_keys h t))(k_id h k := v)"
  by (rule exI [of _ "(if k_id h k \<ge> length (t_keys h t) then resize (k_id h k + 1) (t_keys h t) else t_keys h t)[k_id h k := v]"])
     (use assms in \<open>simp add: ABT_thread_set_specific_def with_thread_def with_key_def Let_def slot_update [simplified] fun_eq_iff\<close>)

lemma set_all_slots:
  assumes "\<forall>(t, k, v)\<in>set ws. is_obj t \<and> is_obj k"
  shows "let h' = fold (\<lambda>(t, k, v) s. snd (ABT_thread_set_specific t k v s)) ws h
    in k_id h' = k_id h \<and> slot (t_keys h' t) i =
      (case map_of (rev (map (\<lambda>(t, k, v). ((t, k_id h k), v)) ws)) (t, i) of Some v \<Rightarrow> v | None \<Rightarrow> slot (t_keys h t) i)"
  using assms
proof (induction ws rule: rev_induct)
  case Nil
  then show ?case by simp
next
  case (snoc w ws)
  obtain u k v where w: "w = (u, k, v)" by (cases w)
  let ?h = "fold (\<lambda>(t, k, v) s. snd (ABT_thread_set_specific t k v s)) ws h"
  from snoc.prems w have "is_obj u" "is_obj k" by auto
  from set_specific_slots [OF this, of v ?h] obtain ks where
    ks: "ABT_thread_set_specific u k v ?h = (Inr (), ?h\<lparr>t_keys := (t_keys ?h)(u := ks)\<rparr>)"
    "slot ks = (slot (t_keys ?h u))(k_id ?h k := v)" by blast
  from snoc.IH snoc.prems show ?case by (auto simp: w ks Let_def)
qed

lemma key_create_fold:
  assumes "g_initialized h" "distinct (map fst kds)"
  shows "let h' = fold (\<lambda>(k, d) s. snd (ABT_key_create k d s)) kds h
    in g_initialized h' \<and> t_keys h' = t_keys h \<and> g_next_key h' = g_next_key h + length kds \<and>
       (\<forall>i<length kds. k_id h' (fst (kds ! i)) = g_next_key h + i) \<and> 
       (\<forall>j. slot (g_key_dtors h') j = (if g_next_key h \<le> j \<and> j < g_next_key h + length kds
          then snd (kds ! (j - g_next_key h)) else slot (g_key_dtors h) j))"
  using assms
proof (induction kds rule: rev_induct)
  case Nil
  then show ?case by simp
next
  case (snoc w kds)
  obtain k d where w: "w = (k, d)" by (cases w)
  let ?h = "fold (\<lambda>(k, d) s. snd (ABT_key_create k d s)) kds h"
  from snoc have IH: "g_initialized ?h" "t_keys ?h = t_keys h" "g_next_key ?h = g_next_key h + length kds"
    "\<forall>i<length kds. k_id ?h (fst (kds ! i)) = g_next_key h + i"
    "\<forall>j. slot (g_key_dtors ?h) j = (if g_next_key h \<le> j \<and> j < g_next_key h + length kds
          then snd (kds ! (j - g_next_key h)) else slot (g_key_dtors h) j)" by (auto simp: Let_def)
  have "k \<notin> fst ` set kds" using snoc.prems(2) w by simp
  then have "\<forall>i<length kds. fst (kds ! i) \<noteq> k" by (metis image_eqI nth_mem)
  with IH show ?case
    by (auto simp: w ABT_key_create_def Let_def slot_update nth_append less_Suc_eq not_less)
qed

text \<open>
  C24. Keys do not interfere, and a slot holds the last value written: after any number of
  \<^verbatim>\<open>ABT_key_create\<close> calls and any sequence of \<^verbatim>\<open>ABT_thread_set_specific\<close> calls through these keys,
  \<^verbatim>\<open>ABT_thread_get_specific(t, k)\<close> returns the last value written for exactly this thread through
  exactly this key, and null if there was none.
\<close>

theorem keys_last_write:
  assumes "g_initialized h" "\<forall>t. length (t_keys h t) \<le> g_next_key h" "distinct (map fst kds)"
    and ws: "\<forall>(t, k, v)\<in>set ws. is_obj t \<and> is_obj k \<and> k \<in> set (map fst kds)"
    and tk: "is_obj t" "is_obj k" "k \<in> set (map fst kds)"
  shows "let h1 = fold (\<lambda>(k, d) s. snd (ABT_key_create k d s)) kds h;
             h2 = fold (\<lambda>(t, k, v) s. snd (ABT_thread_set_specific t k v s)) ws h1
    in fst (ABT_thread_get_specific t k h2) =
         Inr (case map_of (rev (map (\<lambda>(t, k, v). ((t, k), v)) ws)) (t, k) of Some v \<Rightarrow> v | None \<Rightarrow> nullptr)"
proof -
  define h1 where "h1 = fold (\<lambda>(k, d) s. snd (ABT_key_create k d s)) kds h"
  define h2 where "h2 = fold (\<lambda>(t, k, v) s. snd (ABT_thread_set_specific t k v s)) ws h1"
  have h1: "t_keys h1 = t_keys h" "\<forall>i<length kds. k_id h1 (fst (kds ! i)) = g_next_key h + i"
    using key_create_fold [OF assms(1,3)] by (auto simp: Let_def h1_def)
  have inj: "inj_on (k_id h1) (set (map fst kds))"
  proof (rule inj_onI)
    fix a b assume "a \<in> set (map fst kds)" "b \<in> set (map fst kds)" and eq: "k_id h1 a = k_id h1 b"
    then obtain i j where ij: "a = fst (kds ! i)" "i < length kds" "b = fst (kds ! j)" "j < length kds"
      unfolding in_set_conv_nth by auto
    then have "k_id h1 a = g_next_key h + i" "k_id h1 b = g_next_key h + j" using h1(2) by blast+
    with eq ij show "a = b" by simp
  qed
  obtain i where "i < length kds" "k = fst (kds ! i)" using tk(3) unfolding in_set_conv_nth by auto
  then have ge: "g_next_key h \<le> k_id h1 k" using h1(2) by simp
  have old: "slot (t_keys h1 t) (k_id h1 k) = nullptr"
  proof -
    have "length (t_keys h t) \<le> k_id h1 k" using ge spec [OF assms(2), of t] by simp
    then show ?thesis by (simp add: slot_def h1(1))
  qed
  have mp: "map_of (rev (map (\<lambda>(t, k, v). ((t, k_id h1 k), v)) ws)) (t, k_id h1 k) =
        map_of (rev (map (\<lambda>(t, k, v). ((t, k), v)) ws)) (t, k)"
    using ws
  proof (induction ws rule: rev_induct)
    case (snoc w ws)
    obtain u k' v where w: "w = (u, k', v)" by (cases w)
    have "k_id h1 k = k_id h1 k' \<longleftrightarrow> k = k'" using snoc.prems w by (intro inj_on_eq_iff [OF inj tk(3)]) simp
    then show ?case using snoc by (simp add: w)
  qed simp
  have "\<forall>(t, k, v)\<in>set ws. is_obj t \<and> is_obj k" using ws by auto
  from set_all_slots [OF this, of h1 t "k_id h1 k"] show ?thesis
    unfolding Let_def h1_def [symmetric] h2_def [symmetric] get_specific_slot [OF tk(1,2)] fst_conv mp old by simp
qed

text \<open>Two keys, three writes: the first key of thread 4096 was written twice, the second only for 8192.\<close>

theorem keys_last_write_witness:
  "let h1 = fold (\<lambda>(k, d) s. snd (ABT_key_create k d s)) [(300, 7), (400, 0)] (abt_of heap3);
       h2 = fold (\<lambda>(t, k, v) s. snd (ABT_thread_set_specific t k v s)) [(4096, 300, 1), (8192, 400, 2), (4096, 300, 3)] h1
   in fst (ABT_thread_get_specific 4096 300 h2) = Inr 3 \<and> fst (ABT_thread_get_specific 4096 400 h2) = Inr nullptr"
proof -
  have a: "g_initialized (abt_of heap3)" "\<forall>t. length (t_keys (abt_of heap3) t) \<le> g_next_key (abt_of heap3)"
    by (simp_all add: heap3_more abt_of_def pool_heap.defs abt_heap.defs)
  show ?thesis
    using keys_last_write [OF a, of "[(300, 7), (400, 0)]" "[(4096, 300, 1), (8192, 400, 2), (4096, 300, 3)]" 4096 300]
      keys_last_write [OF a, of "[(300, 7), (400, 0)]" "[(4096, 300, 1), (8192, 400, 2), (4096, 300, 3)]" 4096 400]
    by (simp add: ABTI_is_null_handle_def Let_def del: fold_simps)
qed


subsection \<open>Destructors\<close>

text \<open>The calls a thread with the values \<open>ks\<close> owes the destructors \<open>ds\<close> from slot \<open>i\<close> on.\<close>

definition dtor_calls :: "ptr list \<Rightarrow> ptr list \<Rightarrow> nat \<Rightarrow> (ptr \<times> ptr) list" where
  "dtor_calls ds ks i = filter (\<lambda>(d, v). d \<noteq> nullptr \<and> v \<noteq> nullptr) (map (\<lambda>j. (slot ds j, ks ! j)) [i..<length ks])"

lemma dtor_calls_Cons:
  "i < length ks \<Longrightarrow> dtor_calls ds ks i =
    (if slot ds i \<noteq> nullptr \<and> ks ! i \<noteq> nullptr then (slot ds i, ks ! i) # dtor_calls ds ks (Suc i) else dtor_calls ds ks (Suc i))"
  by (simp add: dtor_calls_def upt_conv_Cons)

lemma dtor_calls_update: "i < j \<Longrightarrow> dtor_calls ds (ks[i := v]) j = dtor_calls ds ks j"
  by (auto simp: dtor_calls_def intro!: arg_cong [where f = "filter _"] map_cong)

text \<open>A function that keeps the registered destructors and does not look at or write the values of keys.\<close>

definition key_blind :: "('a abt \<Rightarrow> 'a abt) \<Rightarrow> bool" where
  "key_blind f \<longleftrightarrow> (\<forall>s K. f (s\<lparr>t_keys := K\<rparr>) = (f s)\<lparr>t_keys := K\<rparr> \<and> g_key_dtors (f s) = g_key_dtors s)"

lemma key_blind_keys: "key_blind f \<Longrightarrow> t_keys (f s) = t_keys s"
proof -
  assume "key_blind f"
  then have "f (s\<lparr>t_keys := t_keys s\<rparr>) = (f s)\<lparr>t_keys := t_keys s\<rparr>" unfolding key_blind_def by blast
  then have "t_keys (f s) = t_keys ((f s)\<lparr>t_keys := t_keys s\<rparr>)" by simp
  then show ?thesis by simp
qed

lemma run_key_destructors_run:
  assumes "\<forall>d v. d \<in> set (g_key_dtors s) \<longrightarrow> key_blind (call_fn E d v)" "i \<le> length (t_keys s t)"
  shows "run_key_destructors E t i s = Some (fold (\<lambda>(d, v). call_fn E d v) (dtor_calls (g_key_dtors s) (t_keys s t) i)
    (s\<lparr>t_keys := (t_keys s)(t := take i (t_keys s t) @ replicate (length (t_keys s t) - i) nullptr)\<rparr>))"
  using assms
proof (induction "length (t_keys s t) - i" arbitrary: i s)
  case 0
  then have "i = length (t_keys s t)" by simp
  then show ?case by (subst run_key_destructors.simps) (simp add: dtor_calls_def)
next
  case (Suc n)
  let ?ks = "t_keys s t" and ?d = "slot (g_key_dtors s) i"
  from Suc.hyps have i: "i < length ?ks" "n = length ?ks - Suc i" by simp_all
  define s2 where "s2 = (if ?ks ! i = nullptr then s
    else let h1 = s\<lparr>t_keys := (t_keys s)(t := ?ks[i := nullptr])\<rparr> in if ?d \<noteq> nullptr then call_fn E ?d (?ks ! i) h1 else h1)"
  have kb: "key_blind (call_fn E ?d (?ks ! i))" if "?d \<noteq> nullptr"
    using Suc.prems(1) that by (auto simp: slot_def split: if_splits)
  have s2: "t_keys s2 = (t_keys s)(t := ?ks[i := nullptr])" "g_key_dtors s2 = g_key_dtors s"
    using kb key_blind_keys [OF kb] list_update_id [of ?ks i]
    by (auto simp: s2_def Let_def key_blind_def simp del: list_update_id)
  let ?z = "s\<lparr>t_keys := (t_keys s)(t := take i ?ks @ replicate (length ?ks - i) nullptr)\<rparr>"
  have step: "run_key_destructors E t i s = run_key_destructors E t (Suc i) s2"
    using i(1) by (subst run_key_destructors.simps) (simp add: s2_def slot_def Let_def)
  have z: "take (Suc i) (?ks[i := nullptr]) @ replicate (length ?ks - Suc i) nullptr = take i ?ks @ replicate (length ?ks - i) nullptr"
  proof -
    have "length ?ks - i = Suc (length ?ks - Suc i)" using i(1) by simp
    then have "replicate (length ?ks - i) nullptr = nullptr # replicate (length ?ks - Suc i) nullptr" by simp
    moreover have "take (Suc i) (?ks[i := nullptr]) = take i ?ks @ [nullptr]" using i(1) by (simp add: take_Suc_conv_app_nth)
    ultimately show ?thesis by simp
  qed
  have "s2\<lparr>t_keys := (t_keys s2)(t := take (Suc i) (?ks[i := nullptr]) @ replicate (length ?ks - Suc i) nullptr)\<rparr> =
      (if ?d \<noteq> nullptr \<and> ?ks ! i \<noteq> nullptr then call_fn E ?d (?ks ! i) ?z else ?z)"
    unfolding z s2(1) using kb by (auto simp: s2_def Let_def key_blind_def)
  moreover have "run_key_destructors E t (Suc i) s2 = Some (fold (\<lambda>(d, v). call_fn E d v)
      (dtor_calls (g_key_dtors s) ?ks (Suc i))
      (s2\<lparr>t_keys := (t_keys s2)(t := take (Suc i) (?ks[i := nullptr]) @ replicate (length ?ks - Suc i) nullptr)\<rparr>))"
    using Suc.hyps(1) [of s2 "Suc i"] Suc.prems(1) i by (simp add: s2 dtor_calls_update)
  ultimately show ?case using i(1) by (simp add: step dtor_calls_Cons)
qed

text \<open>
  C23. At the end of a ULT the destructors run: \<^verbatim>\<open>thread_main\<close> ends, and after the body it calls, in the
  order of the keys and once each, the destructor of every key that has one and for which the thread
  still holds a value, with that value; a destructor sees its slot already cleared and at the end all
  slots are null.  (Destructors here do not use keys themselves.)
\<close>

theorem thread_main_destructors:
  assumes "h1 = call_fn E (t_fn h t) (t_arg h t) h"
    and "\<forall>d v. d \<in> set (g_key_dtors h1) \<longrightarrow> key_blind (call_fn E d v)"
  shows "\<exists>h'. thread_main E t h = Some h' \<and>
    h' = fold (\<lambda>(d, v). call_fn E d v) (dtor_calls (g_key_dtors h1) (t_keys h1 t) 0)
      (h1\<lparr>t_keys := (t_keys h1)(t := replicate (length (t_keys h1 t)) nullptr)\<rparr>) \<and>
    (\<forall>v\<in>set (t_keys h' t). v = nullptr)"
proof -
  let ?z = "h1\<lparr>t_keys := (t_keys h1)(t := replicate (length (t_keys h1 t)) nullptr)\<rparr>"
  have "t_keys (fold (\<lambda>(d, v). call_fn E d v) cs s) = t_keys s" if "\<forall>(d, v)\<in>set cs. key_blind (call_fn E d v)" for cs s
    using that by (induction cs arbitrary: s) (auto simp: key_blind_keys)
  moreover have "\<forall>(d, v)\<in>set (dtor_calls (g_key_dtors h1) (t_keys h1 t) 0). key_blind (call_fn E d v)"
    using assms(2) by (auto simp: dtor_calls_def slot_def split: if_splits)
  ultimately have "t_keys (fold (\<lambda>(d, v). call_fn E d v) (dtor_calls (g_key_dtors h1) (t_keys h1 t) 0) ?z) t =
      replicate (length (t_keys h1 t)) nullptr" by simp
  then show ?thesis
    using run_key_destructors_run [of h1 E 0 t] assms by (simp add: thread_main_def)
qed

text \<open>A thread with the values 11, null and 12; keys 0 and 1 have destructors, 13 and 14, key 2 has none.\<close>

definition keyed :: abt_heap where
  "keyed = (abt_of heap3)\<lparr>t_keys := (\<lambda>_. [])(4096 := [11, nullptr, 12]), g_key_dtors := [13, 14, nullptr]\<rparr>"

theorem thread_main_destructors_witness:
  "let E = env0\<lparr>call_fn := \<lambda>f a s. if f = nullptr then s else s\<lparr>rt_calls := rt_calls s @ [CthSetExitFn f a]\<rparr>\<rparr>
   in map_option (\<lambda>h'. (rt_calls h', t_keys h' 4096)) (thread_main E 4096 (keyed\<lparr>t_fn := \<lambda>_. 5, t_arg := \<lambda>_. 6\<rparr>)) =
      Some ([CthSetExitFn 5 6, CthSetExitFn 13 11], [nullptr, nullptr, nullptr])"
proof -
  let ?E = "env0\<lparr>call_fn := \<lambda>f a s. if f = nullptr then s else s\<lparr>rt_calls := rt_calls s @ [CthSetExitFn f a]\<rparr>\<rparr> :: abt_heap env"
  let ?h = "keyed\<lparr>t_fn := \<lambda>_. 5, t_arg := \<lambda>_. 6\<rparr>"
  have b: "\<forall>d v. d \<in> set (g_key_dtors (call_fn ?E (t_fn ?h 4096) (t_arg ?h 4096) ?h)) \<longrightarrow> key_blind (call_fn ?E d v)"
    by (simp add: key_blind_def)
  have c: "dtor_calls [13, 14, nullptr] [11, nullptr, 12] 0 = [(13, 11)]"
    by (simp add: dtor_calls_def slot_def upt_conv_Cons)
  define h1 where "h1 = call_fn ?E (t_fn ?h 4096) (t_arg ?h 4096) ?h"
  have h1: "g_key_dtors h1 = [13, 14, nullptr]" "t_keys h1 4096 = [11, nullptr, 12]" "rt_calls h1 = [CthSetExitFn 5 6]"
    by (simp_all add: h1_def keyed_def heap3_more)
  from thread_main_destructors [OF h1_def b [folded h1_def]] obtain h' where
    "thread_main ?E 4096 ?h = Some h'"
    "h' = call_fn ?E 13 11 (h1\<lparr>t_keys := (t_keys h1)(4096 := replicate 3 nullptr)\<rparr>)"
    unfolding h1 c by (auto simp: numeral_3_eq_3)
  then show ?thesis unfolding Let_def by (simp add: h1 numeral_3_eq_3)
qed

end
