(* ===== verification/Config.thy ===== *)
theory Config
  imports Runtime
begin

section \<open>Configuration objects\<close>

text \<open>
  \<^verbatim>\<open>ABT_sched_config\<close> (\<^verbatim>\<open>src/src/sched.cpp\<close>) and \<^verbatim>\<open>ABT_pool_config\<close> (\<^verbatim>\<open>src/src/pool.cpp\<close>): typed maps
  from integer keys to values.  Both sets of functions meet the contract \<open>typed_config\<close>, which is
  where the facts about sequences of updates are proved once.

  A variable of the caller that a call reads or writes through an untyped pointer is a \<open>cval\<close>; a
  \<^verbatim>\<open>double\<close> is only copied and is its bit pattern.  Reading a variable as a type it does not have is
  undefined behaviour, \<open>None\<close>.
\<close>

datatype cval = IntV int | DoubleV "64 word" | PtrV ptr

datatype ABT_sched_config_type = ABT_SCHED_CONFIG_INT | ABT_SCHED_CONFIG_DOUBLE | ABT_SCHED_CONFIG_PTR

datatype ABT_pool_config_type = ABT_POOL_CONFIG_INT | ABT_POOL_CONFIG_DOUBLE | ABT_POOL_CONFIG_PTR

record ABTI_sched_config_val =
  sv_type :: ABT_sched_config_type
  sv_i :: int
  sv_d :: "64 word"
  sv_p :: ptr

record ABTI_pool_config_val =
  pv_type :: ABT_pool_config_type
  pv_i :: int
  pv_d :: "64 word"
  pv_p :: ptr

record config_heap =
  sc_vals :: "ptr \<Rightarrow> int \<rightharpoonup> ABTI_sched_config_val"
  pc_vals :: "ptr \<Rightarrow> int \<rightharpoonup> ABTI_pool_config_val"
  cfg_live :: "ptr set"

text \<open>The configuration variables the library predefines.\<close>

definition ABT_sched_config_var_end :: int where "ABT_sched_config_var_end = -1"
definition ABT_sched_config_access :: int where "ABT_sched_config_access = -2"
definition ABT_sched_config_automatic :: int where "ABT_sched_config_automatic = -3"
definition ABT_sched_basic_freq :: int where "ABT_sched_basic_freq = -4"
definition ABT_pool_config_automatic :: int where "ABT_pool_config_automatic = -2"


subsection \<open>Scheduler configurations\<close>

text \<open>Filling in a value \<^verbatim>\<open>v{}\<close> from the caller's variable, by the announced type.\<close>

fun sched_config_val :: "ABT_sched_config_type \<Rightarrow> cval \<Rightarrow> ABTI_sched_config_val option" where
  "sched_config_val ABT_SCHED_CONFIG_INT (IntV i) =
     Some \<lparr>sv_type = ABT_SCHED_CONFIG_INT, sv_i = i, sv_d = 0, sv_p = nullptr\<rparr>"
| "sched_config_val ABT_SCHED_CONFIG_DOUBLE (DoubleV d) =
     Some \<lparr>sv_type = ABT_SCHED_CONFIG_DOUBLE, sv_i = 0, sv_d = d, sv_p = nullptr\<rparr>"
| "sched_config_val ABT_SCHED_CONFIG_PTR (PtrV p) =
     Some \<lparr>sv_type = ABT_SCHED_CONFIG_PTR, sv_i = 0, sv_d = 0, sv_p = p\<rparr>"
| "sched_config_val _ _ = None"

definition sched_config_out :: "ABTI_sched_config_val \<Rightarrow> cval" where
  "sched_config_out v =
     (case sv_type v of ABT_SCHED_CONFIG_INT \<Rightarrow> IntV (sv_i v)
      | ABT_SCHED_CONFIG_DOUBLE \<Rightarrow> DoubleV (sv_d v) | ABT_SCHED_CONFIG_PTR \<Rightarrow> PtrV (sv_p v))"

definition ABT_sched_config_set :: "ptr \<Rightarrow> int \<Rightarrow> ABT_sched_config_type \<Rightarrow> cval option \<Rightarrow> config_heap \<Rightarrow>
    (unit, config_heap) api option" where
  "ABT_sched_config_set config idx type val h =
     (let c = ABTI_obj config
      in if c = nullptr then Some (Inl ABT_ERR_INV_SCHED_CONFIG, h)
         else case val of
           None \<Rightarrow> Some (Inr (), h\<lparr>sc_vals := (sc_vals h)(c := (sc_vals h c)(idx := None))\<rparr>)
         | Some x \<Rightarrow> do { v \<leftarrow> sched_config_val type x;
                        Some (Inr (), h\<lparr>sc_vals := (sc_vals h)(c := (sc_vals h c)(idx := Some v))\<rparr>) })"

definition ABT_sched_config_get :: "ptr \<Rightarrow> int \<Rightarrow> config_heap \<Rightarrow>
    (ABT_sched_config_type \<times> cval, config_heap) api" where
  "ABT_sched_config_get config idx h =
     (let c = ABTI_obj config
      in if c = nullptr then (Inl ABT_ERR_INV_SCHED_CONFIG, h)
         else case sc_vals h c idx of
           None \<Rightarrow> (Inl ABT_ERR_INV_SCHED_CONFIG, h)
         | Some v \<Rightarrow> (Inr (sv_type v, sched_config_out v), h))"

text \<open>
  \<^verbatim>\<open>ABT_sched_config_create\<close>: the variadic list as pairs of a variable (index and type) and a value;
  the loop ends at the first variable with the index of \<^verbatim>\<open>ABT_sched_config_var_end\<close>.  A list without
  the end marker reads past the arguments: \<open>None\<close>.
\<close>

fun sched_config_args :: "((int \<times> ABT_sched_config_type) \<times> cval) list \<Rightarrow>
    (int \<rightharpoonup> ABTI_sched_config_val) \<Rightarrow> (int \<rightharpoonup> ABTI_sched_config_val) option" where
  "sched_config_args [] m = None"
| "sched_config_args (((idx, type), x) # args) m =
     (if idx = ABT_sched_config_var_end then Some m
      else do { v \<leftarrow> sched_config_val type x; sched_config_args args (m(idx := Some v)) })"

definition ABT_sched_config_create :: "ptr \<Rightarrow> ptr \<Rightarrow> ((int \<times> ABT_sched_config_type) \<times> cval) list \<Rightarrow>
    config_heap \<Rightarrow> (ptr, config_heap) api option" where
  "ABT_sched_config_create c config args h =
     (if config = nullptr then Some (Inl ABT_ERR_INV_SCHED_CONFIG, h)
      else do { m \<leftarrow> sched_config_args args Map.empty;
                Some (Inr c, h\<lparr>sc_vals := (sc_vals h)(c := m), cfg_live := insert c (cfg_live h)\<rparr>) })"

text \<open>\<^verbatim>\<open>ABT_sched_config_read\<close>: \<open>dsts\<close> are the caller's variables in order (\<open>None\<close>: a null pointer);
  the result are their contents afterwards.\<close>

definition ABT_sched_config_read :: "ptr \<Rightarrow> cval option list \<Rightarrow> config_heap \<Rightarrow>
    (cval option list, config_heap) api" where
  "ABT_sched_config_read config dsts h =
     (let c = ABTI_obj config
      in if c = nullptr then (Inl ABT_ERR_INV_SCHED_CONFIG, h)
         else (Inr (map (\<lambda>(i, dst). case dst of None \<Rightarrow> None
                  | Some old \<Rightarrow> (case sc_vals h c (int i) of None \<Rightarrow> Some old
                                | Some v \<Rightarrow> Some (sched_config_out v)))
                (enumerate 0 dsts)), h))"

definition ABT_sched_config_free :: "ptr \<Rightarrow> ptr \<Rightarrow> config_heap \<Rightarrow> (ptr, config_heap) api" where
  "ABT_sched_config_free config v h =
     (if config = nullptr then (Inl ABT_ERR_INV_SCHED_CONFIG, h)
      else let c = ABTI_obj v
           in if c = nullptr then (Inl ABT_ERR_INV_SCHED_CONFIG, h)
              else (Inr ABT_SCHED_CONFIG_NULL, h\<lparr>cfg_live := cfg_live h - {c}\<rparr>))"


subsection \<open>Pool configurations\<close>

fun pool_config_val :: "ABT_pool_config_type \<Rightarrow> cval \<Rightarrow> ABTI_pool_config_val option" where
  "pool_config_val ABT_POOL_CONFIG_INT (IntV i) =
     Some \<lparr>pv_type = ABT_POOL_CONFIG_INT, pv_i = i, pv_d = 0, pv_p = nullptr\<rparr>"
| "pool_config_val ABT_POOL_CONFIG_DOUBLE (DoubleV d) =
     Some \<lparr>pv_type = ABT_POOL_CONFIG_DOUBLE, pv_i = 0, pv_d = d, pv_p = nullptr\<rparr>"
| "pool_config_val ABT_POOL_CONFIG_PTR (PtrV p) =
     Some \<lparr>pv_type = ABT_POOL_CONFIG_PTR, pv_i = 0, pv_d = 0, pv_p = p\<rparr>"
| "pool_config_val _ _ = None"

definition pool_config_out :: "ABTI_pool_config_val \<Rightarrow> cval" where
  "pool_config_out v =
     (case pv_type v of ABT_POOL_CONFIG_INT \<Rightarrow> IntV (pv_i v)
      | ABT_POOL_CONFIG_DOUBLE \<Rightarrow> DoubleV (pv_d v) | ABT_POOL_CONFIG_PTR \<Rightarrow> PtrV (pv_p v))"

definition ABT_pool_config_create :: "ptr \<Rightarrow> ptr \<Rightarrow> config_heap \<Rightarrow> (ptr, config_heap) api" where
  "ABT_pool_config_create c config h =
     (if config = nullptr then (Inl ABT_ERR_INV_POOL_CONFIG, h)
      else (Inr c, h\<lparr>pc_vals := (pc_vals h)(c := Map.empty), cfg_live := insert c (cfg_live h)\<rparr>))"

definition ABT_pool_config_free :: "ptr \<Rightarrow> ptr \<Rightarrow> config_heap \<Rightarrow> (ptr, config_heap) api" where
  "ABT_pool_config_free config v h =
     (if config = nullptr then (Inl ABT_ERR_INV_POOL_CONFIG, h)
      else let c = ABTI_obj v
           in if c = nullptr then (Inl ABT_ERR_INV_POOL_CONFIG, h)
              else (Inr ABT_POOL_CONFIG_NULL, h\<lparr>cfg_live := cfg_live h - {c}\<rparr>))"

definition ABT_pool_config_set :: "ptr \<Rightarrow> int \<Rightarrow> ABT_pool_config_type \<Rightarrow> cval option \<Rightarrow> config_heap \<Rightarrow>
    (unit, config_heap) api option" where
  "ABT_pool_config_set config key type val h =
     (let c = ABTI_obj config
      in if c = nullptr then Some (Inl ABT_ERR_INV_POOL_CONFIG, h)
         else case val of
           None \<Rightarrow> Some (Inr (), h\<lparr>pc_vals := (pc_vals h)(c := (pc_vals h c)(key := None))\<rparr>)
         | Some x \<Rightarrow> do { v \<leftarrow> pool_config_val type x;
                        Some (Inr (), h\<lparr>pc_vals := (pc_vals h)(c := (pc_vals h c)(key := Some v))\<rparr>) })"

definition ABT_pool_config_get :: "ptr \<Rightarrow> int \<Rightarrow> config_heap \<Rightarrow>
    (ABT_pool_config_type \<times> cval, config_heap) api" where
  "ABT_pool_config_get config key h =
     (let c = ABTI_obj config
      in if c = nullptr then (Inl ABT_ERR_INV_POOL_CONFIG, h)
         else case pc_vals h c key of
           None \<Rightarrow> (Inl ABT_ERR_INV_POOL_CONFIG, h)
         | Some v \<Rightarrow> (Inr (pv_type v, pool_config_out v), h))"


subsection \<open>The contract of a typed map\<close>

text \<open>
  The two operations a client uses, the type \<open>cty\<close> under which a variable is stored, and the error a
  missing entry gives.  \<open>set_all\<close> performs a list of updates, an update without a value erasing.
\<close>

primrec set_all :: "(int \<Rightarrow> cval option \<Rightarrow> 's \<Rightarrow> 's option) \<Rightarrow> (int \<times> cval option) list \<Rightarrow> 's \<Rightarrow> 's option" where
  "set_all f [] s = Some s"
| "set_all f (u # us) s = do { s1 \<leftarrow> f (fst u) (snd u) s; set_all f us s1 }"

fun last_write :: "(int \<times> cval option) list \<Rightarrow> int \<Rightarrow> cval option option" where
  "last_write [] k = None"
| "last_write ((j, x) # us) k = (case last_write us k of None \<Rightarrow> if j = k then Some x else None | Some y \<Rightarrow> Some y)"

locale typed_config =
  fixes cfg_set :: "ptr \<Rightarrow> int \<Rightarrow> 't \<Rightarrow> cval option \<Rightarrow> 's \<Rightarrow> (unit, 's) api option"
    and cfg_get :: "ptr \<Rightarrow> int \<Rightarrow> 's \<Rightarrow> ('t \<times> cval, 's) api"
    and cty :: "cval \<Rightarrow> 't"
    and bad :: ABT_error
  assumes set_get: "is_obj c \<Longrightarrow>
      \<exists>s'. cfg_set c k (cty v) (Some v) s = Some (Inr (), s') \<and> cfg_get c k s' = (Inr (cty v, v), s')"
    and erase_get: "is_obj c \<Longrightarrow>
      \<exists>s'. cfg_set c k t None s = Some (Inr (), s') \<and> cfg_get c k s' = (Inl bad, s')"
    and set_other: "cfg_set c k t x s = Some (Inr (), s') \<Longrightarrow> is_obj c \<Longrightarrow> c' \<noteq> c \<or> k' \<noteq> k \<Longrightarrow>
      fst (cfg_get c' k' s') = fst (cfg_get c' k' s)"
    and get_pure: "snd (cfg_get c k s) = s"
begin

lemma set_all_get:
  assumes "is_obj c"
  shows "\<exists>s'. set_all (\<lambda>k x s. map_option snd (cfg_set c k (cty (case x of None \<Rightarrow> IntV 0 | Some v \<Rightarrow> v)) x s)) us s = Some s' \<and>
    (\<forall>k. fst (cfg_get c k s') =
       (case last_write us k of None \<Rightarrow> fst (cfg_get c k s) | Some None \<Rightarrow> Inl bad | Some (Some v) \<Rightarrow> Inr (cty v, v)))"
proof (induction us arbitrary: s)
  case Nil
  then show ?case by simp
next
  case (Cons u us)
  obtain k x where u: "u = (k, x)" by force
  let ?t = "cty (case x of None \<Rightarrow> IntV 0 | Some v \<Rightarrow> v)"
  obtain s1 where s1: "cfg_set c k ?t x s = Some (Inr (), s1)"
    "cfg_get c k s1 = ((case x of None \<Rightarrow> Inl bad | Some v \<Rightarrow> Inr (cty v, v)), s1)"
    using set_get [OF assms, of k _ s] erase_get [OF assms, of k ?t s] by (cases x) auto
  have other: "fst (cfg_get c j s1) = fst (cfg_get c j s)" if "j \<noteq> k" for j
    using set_other [OF s1(1) assms] that by blast
  from Cons.IH [of s1] obtain s' where s': "set_all (\<lambda>k x s. map_option snd (cfg_set c k (cty (case x of None \<Rightarrow> IntV 0 | Some v \<Rightarrow> v)) x s)) us s1 = Some s'"
    "\<And>j. fst (cfg_get c j s') = (case last_write us j of None \<Rightarrow> fst (cfg_get c j s1) | Some None \<Rightarrow> Inl bad | Some (Some v) \<Rightarrow> Inr (cty v, v))"
    by blast
  have "fst (cfg_get c j s') = (case last_write (u # us) j of None \<Rightarrow> fst (cfg_get c j s) | Some None \<Rightarrow> Inl bad | Some (Some v) \<Rightarrow> Inr (cty v, v))"
    for j using s'(2) [of j] s1(2) other [of j] u by (cases "j = k") (auto split: option.splits)
  with s'(1) s1(1) u show ?case by auto
qed

end

fun sched_typ :: "cval \<Rightarrow> ABT_sched_config_type" where
  "sched_typ (IntV _) = ABT_SCHED_CONFIG_INT"
| "sched_typ (DoubleV _) = ABT_SCHED_CONFIG_DOUBLE"
| "sched_typ (PtrV _) = ABT_SCHED_CONFIG_PTR"

fun pool_typ :: "cval \<Rightarrow> ABT_pool_config_type" where
  "pool_typ (IntV _) = ABT_POOL_CONFIG_INT"
| "pool_typ (DoubleV _) = ABT_POOL_CONFIG_DOUBLE"
| "pool_typ (PtrV _) = ABT_POOL_CONFIG_PTR"

lemma sched_config_val_typ:
  "\<exists>v. sched_config_val (sched_typ x) x = Some v \<and> sv_type v = sched_typ x \<and> sched_config_out v = x"
  by (cases x) (simp_all add: sched_config_out_def)

lemma pool_config_val_typ:
  "\<exists>v. pool_config_val (pool_typ x) x = Some v \<and> pv_type v = pool_typ x \<and> pool_config_out v = x"
  by (cases x) (simp_all add: pool_config_out_def)

lemma ABTI_obj_nonnull: "is_obj c \<Longrightarrow> ABTI_obj c = c \<and> c \<noteq> nullptr"
  by simp

interpretation sched_config: typed_config ABT_sched_config_set ABT_sched_config_get sched_typ ABT_ERR_INV_SCHED_CONFIG
proof
  fix c k v s
  assume c: "is_obj c"
  obtain w where "sched_config_val (sched_typ v) v = Some w" "sv_type w = sched_typ v" "sched_config_out w = v"
    using sched_config_val_typ by blast
  with ABTI_obj_nonnull [OF c]
  show "\<exists>s'. ABT_sched_config_set c k (sched_typ v) (Some v) s = Some (Inr (), s') \<and> ABT_sched_config_get c k s' = (Inr (sched_typ v, v), s')"
    by (auto simp: ABT_sched_config_set_def ABT_sched_config_get_def Let_def)
next
  fix c k t s
  assume "is_obj c"
  from ABTI_obj_nonnull [OF this] show "\<exists>s'. ABT_sched_config_set c k t None s = Some (Inr (), s') \<and>
      ABT_sched_config_get c k s' = (Inl ABT_ERR_INV_SCHED_CONFIG, s')"
    by (auto simp: ABT_sched_config_set_def ABT_sched_config_get_def Let_def)
next
  fix c k t x s s' c' k'
  assume a: "ABT_sched_config_set c k t x s = Some (Inr (), s')" "is_obj c" "c' \<noteq> c \<or> k' \<noteq> k"
  have "ABTI_obj c' = c \<Longrightarrow> c' = c" using ABTI_obj_nonnull [OF a(2)] by (auto simp: ABTI_obj_def split: if_splits)
  with a ABTI_obj_nonnull [OF a(2)] have "sc_vals s' (ABTI_obj c') k' = sc_vals s (ABTI_obj c') k'"
    by (cases x) (auto simp: ABT_sched_config_set_def Let_def split: bind_splits)
  then show "fst (ABT_sched_config_get c' k' s') = fst (ABT_sched_config_get c' k' s)"
    by (simp add: ABT_sched_config_get_def Let_def split: option.splits)
qed (auto simp: ABT_sched_config_get_def Let_def split: option.splits)

interpretation pool_config: typed_config ABT_pool_config_set ABT_pool_config_get pool_typ ABT_ERR_INV_POOL_CONFIG
proof
  fix c k v s
  assume c: "is_obj c"
  obtain w where "pool_config_val (pool_typ v) v = Some w" "pv_type w = pool_typ v" "pool_config_out w = v"
    using pool_config_val_typ by blast
  with ABTI_obj_nonnull [OF c]
  show "\<exists>s'. ABT_pool_config_set c k (pool_typ v) (Some v) s = Some (Inr (), s') \<and> ABT_pool_config_get c k s' = (Inr (pool_typ v, v), s')"
    by (auto simp: ABT_pool_config_set_def ABT_pool_config_get_def Let_def)
next
  fix c k t s
  assume "is_obj c"
  from ABTI_obj_nonnull [OF this] show "\<exists>s'. ABT_pool_config_set c k t None s = Some (Inr (), s') \<and>
      ABT_pool_config_get c k s' = (Inl ABT_ERR_INV_POOL_CONFIG, s')"
    by (auto simp: ABT_pool_config_set_def ABT_pool_config_get_def Let_def)
next
  fix c k t x s s' c' k'
  assume a: "ABT_pool_config_set c k t x s = Some (Inr (), s')" "is_obj c" "c' \<noteq> c \<or> k' \<noteq> k"
  have "ABTI_obj c' = c \<Longrightarrow> c' = c" using ABTI_obj_nonnull [OF a(2)] by (auto simp: ABTI_obj_def split: if_splits)
  with a ABTI_obj_nonnull [OF a(2)] have "pc_vals s' (ABTI_obj c') k' = pc_vals s (ABTI_obj c') k'"
    by (cases x) (auto simp: ABT_pool_config_set_def Let_def split: bind_splits)
  then show "fst (ABT_pool_config_get c' k' s') = fst (ABT_pool_config_get c' k' s)"
    by (simp add: ABT_pool_config_get_def Let_def split: option.splits)
qed (auto simp: ABT_pool_config_get_def Let_def split: option.splits)


subsection \<open>What configurations guarantee\<close>


definition config0 :: config_heap where
  "config0 = \<lparr>sc_vals = \<lambda>_. Map.empty, pc_vals = \<lambda>_. Map.empty, cfg_live = {}\<rparr>"


text \<open>
  \<^verbatim>\<open>ABT_sched_config_read\<close> reads back what \<^verbatim>\<open>ABT_sched_config_create\<close> stored: with the variables numbered
  \<open>0, 1, 2, ...\<close> in the argument list and the end marker behind them, every non-null destination
  receives the value of its position, and a destination beyond the list is left alone.
\<close>

lemma sched_config_args_numbered:
  "\<exists>m'. sched_config_args (map (\<lambda>(i, v). ((int i, sched_typ v), v)) (enumerate n vs) @ ((-1, t), e) # r) m = Some m' \<and>
    (\<forall>i. m' (int i) = (if n \<le> i \<and> i < n + length vs
       then sched_config_val (sched_typ (vs ! (i - n))) (vs ! (i - n)) else m (int i)))"
proof (induction vs arbitrary: n m)
  case Nil
  then show ?case by (auto simp: ABT_sched_config_var_end_def)
next
  case (Cons v vs)
  obtain w where w: "sched_config_val (sched_typ v) v = Some w" using sched_config_val_typ by blast
  from Cons.IH [of "Suc n" "m(int n := Some w)"] obtain m' where
    m': "sched_config_args (map (\<lambda>(i, v). ((int i, sched_typ v), v)) (enumerate (Suc n) vs) @ ((-1, t), e) # r) (m(int n := Some w)) = Some m'"
    "\<And>i. m' (int i) = (if Suc n \<le> i \<and> i < Suc n + length vs
       then sched_config_val (sched_typ (vs ! (i - Suc n))) (vs ! (i - Suc n)) else (m(int n := Some w)) (int i))" by blast
  have "m' (int i) = (if n \<le> i \<and> i < n + length (v # vs)
       then sched_config_val (sched_typ ((v # vs) ! (i - n))) ((v # vs) ! (i - n)) else m (int i))" for i
    using m'(2) [of i] w by (cases "i = n") (auto simp: nth_Cons' Suc_le_eq)
  with m'(1) w show ?case by (simp add: ABT_sched_config_var_end_def)
qed

lemma sched_config_create_read:
  assumes "is_obj c" "config \<noteq> nullptr"
  shows "\<exists>h'. ABT_sched_config_create c config
      (map (\<lambda>(i, v). ((int i, sched_typ v), v)) (enumerate 0 vs) @ [((-1, ABT_SCHED_CONFIG_INT), IntV 0)]) h = Some (Inr c, h') \<and>
    ABT_sched_config_read c dsts h' =
      (Inr (map (\<lambda>(i, d). if d \<noteq> None \<and> i < length vs then Some (vs ! i) else d) (enumerate 0 dsts)), h')"
proof -
  from sched_config_args_numbered [where n = 0 and vs = vs and t = ABT_SCHED_CONFIG_INT and e = "IntV 0" and r = "[]" and m = Map.empty] obtain m where
    m: "sched_config_args (map (\<lambda>(i, v). ((int i, sched_typ v), v)) (enumerate 0 vs) @ [((-1, ABT_SCHED_CONFIG_INT), IntV 0)]) Map.empty = Some m"
    "\<And>i. m (int i) = (if i < length vs then sched_config_val (sched_typ (vs ! i)) (vs ! i) else None)" by auto
  have out: "map_option sched_config_out (sched_config_val (sched_typ v) v) = Some v" for v
    using sched_config_val_typ [of v] by auto
  let ?h = "h\<lparr>sc_vals := (sc_vals h)(c := m), cfg_live := insert c (cfg_live h)\<rparr>"
  have cr: "ABT_sched_config_create c config
      (map (\<lambda>(i, v). ((int i, sched_typ v), v)) (enumerate 0 vs) @ [((-1, ABT_SCHED_CONFIG_INT), IntV 0)]) h = Some (Inr c, ?h)"
    using m(1) assms(2) by (simp add: ABT_sched_config_create_def)
  have "(case d of None \<Rightarrow> None | Some old \<Rightarrow> (case m (int i) of None \<Rightarrow> Some old | Some v \<Rightarrow> Some (sched_config_out v))) =
      (if d \<noteq> None \<and> i < length vs then Some (vs ! i) else d)" for i d
    using m(2) [of i] out [of "vs ! i"] by (auto split: option.splits)
  then have "ABT_sched_config_read c dsts ?h =
      (Inr (map (\<lambda>(i, d). if d \<noteq> None \<and> i < length vs then Some (vs ! i) else d) (enumerate 0 dsts)), ?h)"
    using ABTI_obj_nonnull [OF assms(1)] by (auto simp: ABT_sched_config_read_def Let_def intro!: map_cong)
  with cr show ?thesis by blast
qed

end
