(* ===== verification/Sched.thy ===== *)
theory Sched
  imports Config Thread_Life
begin

section \<open>Schedulers\<close>

text \<open>
  \<^verbatim>\<open>src/src/sched.cpp\<close> and \<^verbatim>\<open>ABT_pool_add_sched\<close> of \<^verbatim>\<open>pool.cpp\<close>: a scheduler is a list of pools and a
  policy.  It is polled by a PE through \<^verbatim>\<open>ABTI_poll_sched\<close>, or runs as a ULT of a pool
  (\<^verbatim>\<open>stacked_sched_main\<close>).  \<open>s\<close> is the address of a new scheduler and \<open>news\<close> the addresses of the new
  pools that a call may need, in order.  Where an array of pools is passed, its contents are a list
  (\<open>None\<close>: a null pointer), and an array shorter than announced is undefined behaviour, \<open>None\<close>.
\<close>


subsection \<open>Creation and destruction\<close>

text \<open>\<open>c\<close> are the configuration objects (\<open>Config\<close>).\<close>

definition sched_apply_config :: "config_heap \<Rightarrow> ptr \<Rightarrow> ptr \<Rightarrow> 'a abt \<Rightarrow> 'a abt" where
  "sched_apply_config c s config h =
     (let cfg = ABTI_obj config
      in if cfg = nullptr then h
         else let h1 = (case sc_vals c cfg ABT_sched_basic_freq of None \<Rightarrow> h
                | Some v \<Rightarrow> if sv_type v = ABT_SCHED_CONFIG_INT \<and> sv_i v > 0
                    then h\<lparr>s_event_freq := (s_event_freq h)(s := sv_i v)\<rparr> else h)
              in case sc_vals c cfg ABT_sched_config_automatic of None \<Rightarrow> h1
                | Some v \<Rightarrow> if sv_type v = ABT_SCHED_CONFIG_INT
                    then h1\<lparr>s_automatic := (s_automatic h1)(s := (sv_i v \<noteq> 0))\<rparr> else h1)"

primrec create_pools :: "ABT_pool_kind \<Rightarrow> ptr list \<Rightarrow> 'a abt \<Rightarrow> 'a abt" where
  "create_pools kind [] h = h"
| "create_pools kind (p # ps) h = create_pools kind ps (ABTI_pool_create_builtin p kind ABT_POOL_ACCESS_MPMC True h)"

text \<open>The loop over the caller's array: a null handle is replaced by a new pool, also in the array.\<close>

fun take_pools :: "ABT_pool_kind \<Rightarrow> ptr list \<Rightarrow> ptr list \<Rightarrow> 'a abt \<Rightarrow> ptr list \<times> 'a abt" where
  "take_pools kind [] news h = ([], h)"
| "take_pools kind (v # vs) news h =
     (if ABTI_obj v \<noteq> nullptr
      then let (ps, h1) = take_pools kind vs news h in (ABTI_obj v # ps, h1)
      else let (ps, h1) = take_pools kind vs (tl news) (ABTI_pool_create_builtin (hd news) kind ABT_POOL_ACCESS_MPMC True h)
           in (hd news # ps, h1))"

definition inc_scheds :: "ptr list \<Rightarrow> 'a abt \<Rightarrow> 'a abt" where
  "inc_scheds ps = fold (\<lambda>p h. h\<lparr>p_num_scheds := (p_num_scheds h)(p := p_num_scheds h p + 1)\<rparr>) ps"

definition sched_new :: "ptr \<Rightarrow> ABT_sched_predef \<Rightarrow> 'a abt \<Rightarrow> 'a abt" where
  "sched_new s predef h =
     h\<lparr>live := insert s (live h), s_predef := (s_predef h)(s := predef), s_user_def := (s_user_def h)(s := False),
       s_runner := (s_runner h)(s := nullptr), s_config := (s_config h)(s := ABT_SCHED_CONFIG_NULL),
       s_automatic := (s_automatic h)(s := True), s_event_freq := (s_event_freq h)(s := 50),
       s_used_by := (s_used_by h)(s := nullptr), s_data := (s_data h)(s := nullptr),
       s_req_finish := (s_req_finish h)(s := False), s_req_exit := (s_req_exit h)(s := False),
       s_in_pool := (s_in_pool h)(s := False)\<rparr>"

text \<open>The result is the scheduler, the contents of the array afterwards are \<open>s_pools\<close> of it.\<close>

definition ABTI_sched_create_predef :: "ptr \<Rightarrow> ptr list \<Rightarrow> int \<Rightarrow> int \<Rightarrow> ptr list option \<Rightarrow> 'a abt \<Rightarrow>
    (ptr, 'a abt) api option" where
  "ABTI_sched_create_predef s news predef num_pools pools h =
     (case ABT_sched_predef_of predef of None \<Rightarrow> Some (Inl ABT_ERR_INV_SCHED_PREDEF, h)
      | Some pr \<Rightarrow>
        if num_pools < 0 then Some (Inl ABT_ERR_INV_ARG, h)
        else let h1 = sched_new s pr h;
                 kind = (if pr = ABT_SCHED_BASIC_WAIT then ABT_POOL_FIFO_WAIT else ABT_POOL_FIFO);
                 n = (if pr = ABT_SCHED_PRIO then 3 else 1)
             in case pools of
                  None \<Rightarrow> let ps = take n news; h2 = create_pools kind ps h1
                          in Some (Inr s, inc_scheds ps (h2\<lparr>s_pools := (s_pools h2)(s := ps)\<rparr>))
                | Some arr \<Rightarrow>
                    if length arr < nat num_pools then None
                    else let (ps, h2) = take_pools kind (take (nat num_pools) arr) news h1
                         in Some (Inr s, inc_scheds ps (h2\<lparr>s_pools := (s_pools h2)(s := ps)\<rparr>)))"

primrec release_pools :: "'a abt_env \<Rightarrow> ptr list \<Rightarrow> 'a abt \<Rightarrow> 'a abt" where
  "release_pools E [] h = h"
| "release_pools E (p # ps) h =
     (let left = p_num_scheds h p - 1;
          h1 = h\<lparr>p_num_scheds := (p_num_scheds h)(p := left)\<rparr>;
          h2 = (if left = 0 \<and> p_automatic h1 p \<and> pool_size E p h1 = 0 \<and> p_num_blocked h1 p = 0
                then ABTI_pool_destroy E p h1 else h1)
      in release_pools E ps h2)"

definition ABTI_sched_destroy :: "'a abt_env \<Rightarrow> ptr \<Rightarrow> 'a abt \<Rightarrow> 'a abt" where
  "ABTI_sched_destroy E s h =
     (let h1 = (if s_user_def h s \<and> sd_free (s_def h s) \<noteq> nullptr
                then call_s_free E (sd_free (s_def h s)) (ABTI_sched_handle s) h else h);
          h2 = release_pools E (s_pools h1 s) h1
      in h2\<lparr>live := live h2 - {s}\<rparr>)"


subsection \<open>Polling\<close>

definition ABTI_pool_index :: "ptr \<Rightarrow> ptr \<Rightarrow> 'a abt \<Rightarrow> nat" where
  "ABTI_pool_index s p h = length (takeWhile (\<lambda>q. q \<noteq> p) (s_pools h s))"

text \<open>The first unit that a pop of one of the pools, in order, yields.\<close>

primrec pop_first :: "'a abt_env \<Rightarrow> ptr list \<Rightarrow> 'a abt \<Rightarrow> (ptr \<times> 'a abt) option" where
  "pop_first E [] h = Some (nullptr, h)"
| "pop_first E (p # ps) h =
     do { (t, h1) \<leftarrow> pool_pop E p h; if t \<noteq> nullptr then Some (t, h1) else pop_first E ps h1 }"

definition ABTI_sched_pop_by_policy :: "'a abt_env \<Rightarrow> ptr \<Rightarrow> 'a abt \<Rightarrow> (ptr \<times> 'a abt) option" where
  "ABTI_sched_pop_by_policy E s h =
     (let n = length (s_pools h s)
      in if n = 0 then Some (nullptr, h)
         else if s_predef h s = ABT_SCHED_RANDWS \<and> n > 1
         then do { (t, h1) \<leftarrow> pool_pop E (s_pools h s ! 0) h;
                   if t \<noteq> nullptr then Some (t, h1)
                   else pool_pop E (s_pools h1 s ! (1 + random_value E h1 mod (n - 1))) h1 }
         else pop_first E (s_pools h s) h)"

definition ABTI_poll_sched :: "'a abt_env \<Rightarrow> ptr \<Rightarrow> 'a abt \<Rightarrow> (nat \<times> 'a abt) option" where
  "ABTI_poll_sched E s h =
     do { (t, h1) \<leftarrow> (if tls_held h \<noteq> nullptr
            then let hi = ABTI_pool_index s (t_pool h (tls_held h)) h
                 in do { (t, h1) \<leftarrow> pop_first E (take hi (s_pools h s)) h;
                         Some (if t = nullptr then (tls_held h1, h1\<lparr>tls_held := nullptr\<rparr>) else (t, h1)) }
            else ABTI_sched_pop_by_policy E s h);
          if t = nullptr then Some (0, h1)
          else do { h2 \<leftarrow> ABTI_pool_run_thread E t ((rt CsdReleaseIdle h1)\<lparr>tls_last_chain := 0\<rparr>);
                    Some (1 + tls_last_chain h2, h2) } }"


subsection \<open>Stackable schedulers\<close>

definition sched_has_unit :: "'a abt_env \<Rightarrow> ptr \<Rightarrow> 'a abt \<Rightarrow> bool" where
  "sched_has_unit E s h \<longleftrightarrow>
     (\<exists>p\<in>set (s_pools h s). pool_size E p h > 0 \<or>
        ((p_access h p = ABT_POOL_ACCESS_PRIV \<or> p_num_scheds h p = 1) \<and> p_num_blocked h p > 0))"

primrec add_sleepers :: "ptr list \<Rightarrow> nat \<Rightarrow> 'a abt \<Rightarrow> 'a abt option" where
  "add_sleepers [] r h = Some h"
| "add_sleepers (p # ps) r h = do { h1 \<leftarrow> add_sleeper p r h; add_sleepers ps r h1 }"

primrec remove_sleepers :: "ptr list \<Rightarrow> nat \<Rightarrow> 'a abt \<Rightarrow> 'a abt option" where
  "remove_sleepers [] r h = Some h"
| "remove_sleepers (p # ps) r h = do { h1 \<leftarrow> remove_sleeper p r h; remove_sleepers ps r h1 }"

partial_function (option) stacked_loop :: "'a abt_env \<Rightarrow> ptr \<Rightarrow> 'a abt \<Rightarrow> 'a abt option" where
  "stacked_loop E s h =
     (if s_req_exit h s then Some h
      else do { (t, h1) \<leftarrow> ABTI_sched_pop_by_policy E s h;
                if t \<noteq> nullptr then do { h2 \<leftarrow> ABTI_pool_run_thread E t h1; stacked_loop E s h2 }
                else if \<not> sched_has_unit E s h1 then Some h1
                else do { h2 \<leftarrow> add_sleepers (s_pools h1 s) (nat (CmiMyRank E)) h1;
                          let h3 = (if \<exists>p\<in>set (s_pools h2 s). pool_size E p h2 > 0 then h2 else CsdIdleWait E h2)
                          in do { h4 \<leftarrow> remove_sleepers (s_pools h3 s) (nat (CmiMyRank E)) h3; stacked_loop E s h4 } } })"

definition stacked_sched_main :: "'a abt_env \<Rightarrow> ptr \<Rightarrow> 'a abt \<Rightarrow> 'a abt option" where
  "stacked_sched_main E s h =
     do { h1 \<leftarrow> (if s_user_def h s then Some (call_s_run E (sd_run (s_def h s)) (ABTI_sched_handle s) h)
                else stacked_loop E s h);
          Some (h1\<lparr>s_in_pool := (s_in_pool h1)(s := False)\<rparr>) }"

text \<open>\<open>main_fn\<close> is the address of \<^verbatim>\<open>stacked_sched_main\<close>; \<open>a\<close>, \<open>m\<close> and \<open>cth\<close> are as for creating a thread.\<close>

definition ABTI_sched_add_to_pool :: "'a abt_env \<Rightarrow> 'a abt_env \<Rightarrow> ptr \<Rightarrow> ptr \<Rightarrow> ptr \<Rightarrow> ptr \<Rightarrow> ptr \<Rightarrow> ptr \<Rightarrow> 'a abt \<Rightarrow>
    (unit, 'a abt) api option" where
  "ABTI_sched_add_to_pool E Epe a m cth main_fn s parent h =
     (if s_in_pool h s \<or> s_used_by h s \<noteq> nullptr then Some (Inl ABT_ERR_INV_SCHED, h)
      else do { (r, h1) \<leftarrow> ABTI_thread_create_internal E Epe a m cth (ABTI_pool_handle parent) main_fn s (1024 * 1024)
                            (h\<lparr>s_in_pool := (s_in_pool h)(s := True)\<rparr>);
                case r of Inl e \<Rightarrow> Some (Inl e, h1\<lparr>s_in_pool := (s_in_pool h1)(s := False)\<rparr>)
                | Inr _ \<Rightarrow> Some (Inr (), h1) })"

definition ABT_pool_add_sched :: "'a abt_env \<Rightarrow> 'a abt_env \<Rightarrow> ptr \<Rightarrow> ptr \<Rightarrow> ptr \<Rightarrow> ptr \<Rightarrow> ptr \<Rightarrow> ptr \<Rightarrow> 'a abt \<Rightarrow>
    (unit, 'a abt) api option" where
  "ABT_pool_add_sched E Epe a m cth main_fn pool sched h =
     with_pool_opt pool (\<lambda>p.
       let s = ABTI_obj sched
       in if ABTI_is_null_handle s then Some (Inl ABT_ERR_INV_SCHED, h)
          else ABTI_sched_add_to_pool E Epe a m cth main_fn s p h) h"


subsection \<open>The scheduler API\<close>

definition with_sched :: "ptr \<Rightarrow> (ptr \<Rightarrow> ('b, 's) api) \<Rightarrow> 's \<Rightarrow> ('b, 's) api" where
  "with_sched sched k h =
     (let s = ABTI_obj sched in if ABTI_is_null_handle s then (Inl ABT_ERR_INV_SCHED, h) else k s)"

definition ABT_sched_create_basic :: "config_heap \<Rightarrow> ptr \<Rightarrow> ptr list \<Rightarrow> int \<Rightarrow> int \<Rightarrow> ptr list option \<Rightarrow> ptr \<Rightarrow> ptr \<Rightarrow>
    'a abt \<Rightarrow> (ptr, 'a abt) api option" where
  "ABT_sched_create_basic c s news predef num_pools pools config newsched h =
     (if \<not> g_initialized h then Some (Inl ABT_ERR_UNINITIALIZED, h)
      else if ABTI_is_null_handle newsched then Some (Inl ABT_ERR_INV_ARG, h)
      else do { (r, h1) \<leftarrow> ABTI_sched_create_predef s news predef num_pools pools h;
                case r of Inl e \<Rightarrow> Some (Inl e, h1)
                | Inr s \<Rightarrow> Some (Inr (ABTI_sched_handle s), sched_apply_config c s config h1) })"

definition ABT_sched_create :: "'a abt_env \<Rightarrow> ptr \<Rightarrow> ptr list \<Rightarrow> ptr \<Rightarrow> ABT_sched_def \<Rightarrow> int \<Rightarrow> ptr list option \<Rightarrow> ptr \<Rightarrow> ptr \<Rightarrow>
    'a abt \<Rightarrow> (ptr, 'a abt) api option" where
  "ABT_sched_create E s news def d num_pools pools config newsched h =
     (if \<not> g_initialized h then Some (Inl ABT_ERR_UNINITIALIZED, h)
      else if ABTI_is_null_handle def then Some (Inl ABT_ERR_INV_SCHED, h)
      else if ABTI_is_null_handle newsched then Some (Inl ABT_ERR_INV_ARG, h)
      else if sd_run d = nullptr then Some (Inl ABT_ERR_INV_SCHED, h)
      else do { (r, h1) \<leftarrow> ABTI_sched_create_predef s news 1 num_pools pools h;
                case r of Inl e \<Rightarrow> Some (Inl e, h1)
                | Inr s \<Rightarrow>
                  let h2 = h1\<lparr>s_user_def := (s_user_def h1)(s := True), s_def := (s_def h1)(s := d),
                             s_config := (s_config h1)(s := config), s_runner := (s_runner h1)(s := nullptr),
                             s_automatic := (s_automatic h1)(s := False)\<rparr>;
                      (e, h3) = (if sd_init d \<noteq> nullptr then call_s_init E (sd_init d) (ABTI_sched_handle s) config h2
                                 else (ABT_SUCCESS, h2))
                  in if e \<noteq> ABT_SUCCESS then Some (Inl e, ABTI_sched_destroy E s h3)
                     else Some (Inr (ABTI_sched_handle s), h3) })"

definition ABT_sched_free :: "'a abt_env \<Rightarrow> ptr \<Rightarrow> ptr \<Rightarrow> 'a abt \<Rightarrow> (ptr, 'a abt) api" where
  "ABT_sched_free E sched v h =
     (if \<not> g_initialized h then (Inl ABT_ERR_UNINITIALIZED, h)
      else if ABTI_is_null_handle sched then (Inl ABT_ERR_INV_SCHED, h)
      else with_sched v (\<lambda>s.
        if s_used_by h s \<noteq> nullptr \<or> s_in_pool h s then (Inl ABT_ERR_INV_SCHED, h)
        else (Inr ABT_SCHED_NULL, ABTI_sched_destroy E s h)) h)"

definition ABT_sched_set_data :: "ptr \<Rightarrow> ptr \<Rightarrow> 'a abt \<Rightarrow> (unit, 'a abt) api" where
  "ABT_sched_set_data sched d h = with_sched sched (\<lambda>s. (Inr (), h\<lparr>s_data := (s_data h)(s := d)\<rparr>)) h"

definition ABT_sched_get_data :: "ptr \<Rightarrow> 'a abt \<Rightarrow> (ptr, 'a abt) api" where
  "ABT_sched_get_data sched h = with_sched sched (\<lambda>s. (Inr (s_data h s), h)) h"

definition ABT_sched_get_num_pools :: "ptr \<Rightarrow> 'a abt \<Rightarrow> (int, 'a abt) api" where
  "ABT_sched_get_num_pools sched h = with_sched sched (\<lambda>s. (Inr (int (length (s_pools h s))), h)) h"

definition ABT_sched_get_pools :: "ptr \<Rightarrow> int \<Rightarrow> int \<Rightarrow> 'a abt \<Rightarrow> (ptr list, 'a abt) api" where
  "ABT_sched_get_pools sched max_pools idx h =
     with_sched sched (\<lambda>s.
       if idx < 0 \<or> idx + max_pools > int (length (s_pools h s)) then (Inl ABT_ERR_SCHED, h)
       else (Inr (map ABTI_pool_handle (take (nat max_pools) (drop (nat idx) (s_pools h s)))), h)) h"

definition ABT_sched_get_size :: "'a abt_env \<Rightarrow> ptr \<Rightarrow> 'a abt \<Rightarrow> (nat, 'a abt) api" where
  "ABT_sched_get_size E sched h =
     with_sched sched (\<lambda>s. (Inr (sum_list (map (\<lambda>p. pool_size E p h) (s_pools h s))), h)) h"

definition ABT_sched_get_total_size :: "'a abt_env \<Rightarrow> ptr \<Rightarrow> 'a abt \<Rightarrow> (nat, 'a abt) api" where
  "ABT_sched_get_total_size E sched h =
     with_sched sched (\<lambda>s. (Inr (sum_list (map (\<lambda>p. pool_size E p h +
       (if p_num_blocked h p > 0 then nat (p_num_blocked h p) else 0)) (s_pools h s))), h)) h"

definition ABT_sched_finish :: "ptr \<Rightarrow> 'a abt \<Rightarrow> (unit, 'a abt) api" where
  "ABT_sched_finish sched h = with_sched sched (\<lambda>s. (Inr (), h\<lparr>s_req_finish := (s_req_finish h)(s := True)\<rparr>)) h"

definition ABT_sched_exit :: "ptr \<Rightarrow> 'a abt \<Rightarrow> (unit, 'a abt) api" where
  "ABT_sched_exit sched h = with_sched sched (\<lambda>s. (Inr (), h\<lparr>s_req_exit := (s_req_exit h)(s := True)\<rparr>)) h"

definition ABT_sched_has_to_stop :: "'a abt_env \<Rightarrow> ptr \<Rightarrow> 'a abt \<Rightarrow> (bool, 'a abt) api" where
  "ABT_sched_has_to_stop E sched h =
     with_sched sched (\<lambda>s.
       if s_req_exit h s then (Inr True, h)
       else if s_req_finish h s
       then (Inr (sum_list (map (\<lambda>p. pool_size E p h +
               (if p_num_scheds h p \<le> 1 \<and> p_num_blocked h p > 0 then nat (p_num_blocked h p) else 0)) (s_pools h s)) = 0), h)
       else (Inr False, h)) h"


subsection \<open>The policy\<close>

lemma pop_first_view:
  assumes "pools_view h P L" "set ps \<subseteq> P" "\<forall>p\<in>set ps. \<forall>t\<in>set (L p). \<not> pinned_elsewhere E h t"
  shows "\<exists>h'. (case find (\<lambda>p. L p \<noteq> []) ps of
      None \<Rightarrow> pop_first E ps h = Some (nullptr, h') \<and> pools_view h' P L
    | Some p \<Rightarrow> pop_first E ps h = Some (hd (L p), h') \<and> pools_view h' P (L(p := tl (L p))) \<and> \<not> t_in_pool h' (hd (L p))) \<and> qframe h h'"
  using assms
proof (induction ps arbitrary: h)
  case Nil
  then show ?case by (auto intro!: exI [of _ h])
next
  case (Cons p ps)
  then have p: "p \<in> P" by simp
  from pool_pop_view_frame [OF Cons.prems(1) p, of E] Cons.prems(3) obtain h1 where
    h1: "pool_pop E p h = Some (if L p = [] then nullptr else hd (L p), h1)" "pools_view h1 P (L(p := tl (L p)))"
    "L p \<noteq> [] \<longrightarrow> \<not> t_in_pool h1 (hd (L p))" "qframe h h1" by auto
  show ?case
  proof (cases "L p = []")
    case True
    then have "pools_view h1 P L" using h1(2) by (simp add: fun_upd_idem)
    from Cons.IH [OF this] Cons.prems(2,3) obtain h' where h': "case find (\<lambda>p. L p \<noteq> []) ps of
        None \<Rightarrow> pop_first E ps h1 = Some (nullptr, h') \<and> pools_view h' P L
      | Some p \<Rightarrow> pop_first E ps h1 = Some (hd (L p), h') \<and> pools_view h' P (L(p := tl (L p))) \<and> \<not> t_in_pool h' (hd (L p))" "qframe h1 h'"
      by (auto simp: pinned_qframe [OF h1(4)])
    show ?thesis
      by (rule exI [of _ h']) (use True h1(1) h' qframe_trans [OF h1(4) h'(2)] in \<open>auto split: option.splits\<close>)
  next
    case False
    then have "hd (L p) \<noteq> nullptr"
      using Cons.prems(1) p pools_view_nonnull [OF Cons.prems(1) p] by (auto simp: hd_nonnull)
    then show ?thesis using False h1 by (intro exI [of _ h1]) simp
  qed
qed

text \<open>The pool a scheduler with the pools \<open>ps\<close> takes its next unit from, if \<^verbatim>\<open>random()\<close> yields \<open>r\<close>.\<close>

definition policy_pool :: "ABT_sched_predef \<Rightarrow> ptr list \<Rightarrow> nat \<Rightarrow> (ptr \<Rightarrow> ptr list) \<Rightarrow> ptr option" where
  "policy_pool predef ps r L =
     (if predef = ABT_SCHED_RANDWS \<and> length ps > 1
      then if L (ps ! 0) \<noteq> [] then Some (ps ! 0)
           else let p = ps ! (1 + r mod (length ps - 1)) in if L p \<noteq> [] then Some p else None
      else find (\<lambda>p. L p \<noteq> []) ps)"

lemma policy_index: "length (ps :: ptr list) > 1 \<Longrightarrow> 1 + r mod (length ps - 1) < length ps"
  using mod_less_divisor [of "length ps - 1" r] by linarith

lemma policy_pool_member:
  assumes "policy_pool predef ps r L = Some p"
  shows "p \<in> set ps" "L p \<noteq> []"
  using assms policy_index [of ps r] by (auto simp: policy_pool_def Let_def find_Some_iff intro!: nth_mem split: if_splits)

lemma pop_by_policy_view:
  assumes "pools_view h P L" "set (s_pools h s) \<subseteq> P" "\<forall>p\<in>set (s_pools h s). \<forall>t\<in>set (L p). \<not> pinned_elsewhere E h t"
    "\<forall>h. random_value E h = r"
  shows "\<exists>h'. (case policy_pool (s_predef h s) (s_pools h s) r L of
      None \<Rightarrow> ABTI_sched_pop_by_policy E s h = Some (nullptr, h') \<and> pools_view h' P L
    | Some p \<Rightarrow> ABTI_sched_pop_by_policy E s h = Some (hd (L p), h') \<and> pools_view h' P (L(p := tl (L p))) \<and> \<not> t_in_pool h' (hd (L p))) \<and> qframe h h'"
proof (cases "s_predef h s = ABT_SCHED_RANDWS \<and> length (s_pools h s) > 1")
  case False
  show ?thesis
  proof (cases "s_pools h s = []")
    case True
    then show ?thesis using assms(1) by (intro exI [of _ h]) (simp add: policy_pool_def ABTI_sched_pop_by_policy_def)
  next
    case ne: False
    have "policy_pool (s_predef h s) (s_pools h s) r L = find (\<lambda>p. L p \<noteq> []) (s_pools h s)"
      "ABTI_sched_pop_by_policy E s h = pop_first E (s_pools h s) h"
      using False ne unfolding policy_pool_def ABTI_sched_pop_by_policy_def Let_def by auto
    then show ?thesis using pop_first_view [OF assms(1-3)] by (simp only:)
  qed
next
  case True
  let ?ps = "s_pools h s" and ?i = "1 + r mod (length (s_pools h s) - 1)"
  have ne: "?ps \<noteq> []" using True by auto
  have i: "?i < length ?ps" by (rule policy_index) (use True in simp)
  have mem: "?ps ! 0 \<in> set ?ps" "?ps ! ?i \<in> set ?ps" using True i by (auto intro!: nth_mem)
  then have P: "?ps ! 0 \<in> P" "?ps ! ?i \<in> P" using assms(2) by blast+
  from pool_pop_view_frame [OF assms(1) P(1), of E] assms(3) mem(1) obtain h1 where
    h1: "pool_pop E (?ps ! 0) h = Some (if L (?ps ! 0) = [] then nullptr else hd (L (?ps ! 0)), h1)"
    "pools_view h1 P (L(?ps ! 0 := tl (L (?ps ! 0))))" "L (?ps ! 0) \<noteq> [] \<longrightarrow> \<not> t_in_pool h1 (hd (L (?ps ! 0)))" "qframe h h1" by auto
  show ?thesis
  proof (cases "L (?ps ! 0) = []")
    case False
    then have "hd (L (?ps ! 0)) \<noteq> nullptr" using pools_view_nonnull [OF assms(1) P(1)] by (auto simp: hd_nonnull)
    then show ?thesis using True False h1 ne by (intro exI [of _ h1]) (simp add: policy_pool_def ABTI_sched_pop_by_policy_def Let_def)
  next
    case e: True
    then have v1: "pools_view h1 P L" using h1(2) by (simp add: fun_upd_idem)
    from pool_pop_view_frame [OF v1 P(2), of E] assms(3) mem(2) obtain h2 where
      h2: "pool_pop E (?ps ! ?i) h1 = Some (if L (?ps ! ?i) = [] then nullptr else hd (L (?ps ! ?i)), h2)"
      "pools_view h2 P (L(?ps ! ?i := tl (L (?ps ! ?i))))" "L (?ps ! ?i) \<noteq> [] \<longrightarrow> \<not> t_in_pool h2 (hd (L (?ps ! ?i)))" "qframe h1 h2"
      by (auto simp: pinned_qframe [OF h1(4)])
    have "ABTI_sched_pop_by_policy E s h = pool_pop E (?ps ! ?i) h1"
      using True e h1(1) ne by (simp add: ABTI_sched_pop_by_policy_def assms(4) qframe_abt [OF h1(4)] Let_def)
    moreover have "policy_pool (s_predef h s) ?ps r L = (if L (?ps ! ?i) \<noteq> [] then Some (?ps ! ?i) else None)"
      using True e by (simp add: policy_pool_def Let_def)
    ultimately show ?thesis using h2 qframe_trans [OF h1(4) h2(4)] by (intro exI [of _ h2]) (auto simp: fun_upd_idem)
  qed
qed

text \<open>
  C30. A scheduler takes the oldest unit of the pool its policy names: the first non-empty pool in index
  order, or under \<^verbatim>\<open>ABT_SCHED_RANDWS\<close> with several pools the first pool and otherwise one of the others,
  by the random number, always a pool of the scheduler; it leaves everything else where it is.  It
  reports no work only if the pools it has to look at are empty, which under every other policy means
  that all are.
\<close>

theorem pop_by_policy_order:
  assumes "pools_view h P L" "set (s_pools h s) \<subseteq> P" "\<forall>p\<in>set (s_pools h s). \<forall>t\<in>set (L p). \<not> pinned_elsewhere E h t"
    "\<forall>h. random_value E h = r"
  shows "\<exists>t h'. ABTI_sched_pop_by_policy E s h = Some (t, h') \<and>
    (case policy_pool (s_predef h s) (s_pools h s) r L of
       None \<Rightarrow> t = nullptr \<and> pools_view h' P L
     | Some p \<Rightarrow> t = hd (L p) \<and> t \<noteq> nullptr \<and> p \<in> set (s_pools h s) \<and> L p \<noteq> [] \<and> pools_view h' P (L(p := tl (L p)))) \<and>
    (s_predef h s \<noteq> ABT_SCHED_RANDWS \<longrightarrow> (t = nullptr \<longleftrightarrow> (\<forall>p\<in>set (s_pools h s). L p = [])))"
proof -
  have mem: "p \<in> set (s_pools h s) \<and> L p \<noteq> []" if "policy_pool (s_predef h s) (s_pools h s) r L = Some p" for p
    using policy_pool_member [OF that] by blast
  have nn: "hd (L p) \<noteq> nullptr" if "p \<in> set (s_pools h s)" "L p \<noteq> []" for p
    using pools_view_nonnull [OF assms(1), of p] that assms(2) hd_nonnull [of "L p"] by auto
  have all: "policy_pool (s_predef h s) (s_pools h s) r L = None \<longleftrightarrow> (\<forall>p\<in>set (s_pools h s). L p = [])"
    if "s_predef h s \<noteq> ABT_SCHED_RANDWS" using that by (auto simp: policy_pool_def find_None_iff)
  from pop_by_policy_view [OF assms] obtain h' where h': "case policy_pool (s_predef h s) (s_pools h s) r L of
      None \<Rightarrow> ABTI_sched_pop_by_policy E s h = Some (nullptr, h') \<and> pools_view h' P L
    | Some p \<Rightarrow> ABTI_sched_pop_by_policy E s h = Some (hd (L p), h') \<and> pools_view h' P (L(p := tl (L p))) \<and> \<not> t_in_pool h' (hd (L p))"
    by blast
  show ?thesis
  proof (cases "policy_pool (s_predef h s) (s_pools h s) r L")
    case None
    then show ?thesis using h' all by auto
  next
    case (Some p)
    then show ?thesis using h' all mem [OF Some] nn [of p] by auto
  qed
qed

text \<open>A priority scheduler at 2048 with the pools 256 and 512.\<close>

definition sched_heap :: abt_heap where
  "sched_heap = (abt_of heap3)\<lparr>s_pools := (\<lambda>_. [])(2048 := [256, 512]), s_predef := (\<lambda>_. ABT_SCHED_BASIC)(2048 := ABT_SCHED_PRIO)\<rparr>"

lemma sched_heap_sel:
  "pools_view sched_heap {512, 256} view3" "s_pools sched_heap 2048 = [256, 512]" "s_predef sched_heap 2048 = ABT_SCHED_PRIO"
  "\<not> pinned_elsewhere E sched_heap t"
  using heap3_view by (simp_all add: sched_heap_def pinned_elsewhere_def heap3_flags)

theorem pop_by_policy_order_witness:
  "\<exists>t h'. ABTI_sched_pop_by_policy env0 2048 sched_heap = Some (t, h') \<and> t = 1024 \<and> pools_view h' {512, 256} (view3(256 := [1280]))"
proof -
  have p: "policy_pool ABT_SCHED_PRIO [256, 512] 0 view3 = Some 256" by (simp add: policy_pool_def view3_def)
  have r: "\<forall>h. random_value (env0 :: abt_heap env) h = 0" by (simp add: env0_def)
  show ?thesis
    using pop_by_policy_order [OF sched_heap_sel(1) _ _ r, of 2048]
    by (auto simp: sched_heap_sel p) (auto simp: view3_def)
qed


subsection \<open>A unit parked by a direct switch\<close>

text \<open>
  C9. A parked unit is not lost and does not overtake: while a unit \<open>u\<close> is parked in \<^verbatim>\<open>ABTI_held\<close>, a
  poll of the scheduler runs the oldest unit of the first non-empty pool in front of the pool of \<open>u\<close>
  and keeps \<open>u\<close> parked; if these pools are all empty it runs \<open>u\<close> itself, once, and clears the slot.  No
  queued unit is dropped in either case.
\<close>

theorem poll_sched_held:
  assumes "pools_view h P L" "set (s_pools h s) \<subseteq> P" "\<forall>p\<in>set (s_pools h s). \<forall>t\<in>set (L p). \<not> pinned_elsewhere E h t"
    and u: "tls_held h = u" "u \<noteq> nullptr" and qs: "qs = takeWhile (\<lambda>q. q \<noteq> t_pool h u) (s_pools h s)"
  shows "\<exists>t h1. ABTI_poll_sched E s h =
      do { h2 \<leftarrow> ABTI_pool_run_thread E t ((rt CsdReleaseIdle h1)\<lparr>tls_last_chain := 0\<rparr>); Some (1 + tls_last_chain h2, h2) } \<and>
    (case find (\<lambda>p. L p \<noteq> []) qs of
       None \<Rightarrow> t = u \<and> tls_held h1 = nullptr \<and> pools_view h1 P L
     | Some p \<Rightarrow> t = hd (L p) \<and> tls_held h1 = u \<and> pools_view h1 P (L(p := tl (L p))))"
proof -
  have tk: "take (ABTI_pool_index s (t_pool h u) h) (s_pools h s) = qs"
    unfolding ABTI_pool_index_def qs by (metis takeWhile_eq_take)
  have sub: "set qs \<subseteq> set (s_pools h s)" unfolding qs by (rule set_takeWhileD [THEN conjunct1, THEN subsetI]) 
  have P: "set qs \<subseteq> P" "\<forall>p\<in>set qs. \<forall>t\<in>set (L p). \<not> pinned_elsewhere E h t" using sub assms(2,3) by blast+
  obtain h1 where h1: "case find (\<lambda>p. L p \<noteq> []) qs of
      None \<Rightarrow> pop_first E qs h = Some (nullptr, h1) \<and> pools_view h1 P L
    | Some p \<Rightarrow> pop_first E qs h = Some (hd (L p), h1) \<and> pools_view h1 P (L(p := tl (L p))) \<and> \<not> t_in_pool h1 (hd (L p))" "qframe h h1"
    using pop_first_view [OF assms(1) P] by blast
  have held: "tls_held h1 = u" using u(1) by (simp add: qframe_abt [OF h1(2)])
  show ?thesis
  proof (cases "find (\<lambda>p. L p \<noteq> []) qs")
    case None
    have "ABTI_poll_sched E s h = do { h2 \<leftarrow> ABTI_pool_run_thread E u ((rt CsdReleaseIdle (h1\<lparr>tls_held := nullptr\<rparr>))\<lparr>tls_last_chain := 0\<rparr>);
        Some (1 + tls_last_chain h2, h2) }"
      using u tk h1(1) held None by (simp add: ABTI_poll_sched_def Let_def)
    then show ?thesis using None h1(1) by (intro exI [of _ u] exI [of _ "h1\<lparr>tls_held := nullptr\<rparr>"]) simp
  next
    case (Some p)
    then have "p \<in> P" "L p \<noteq> []" using P(1) by (auto simp: find_Some_iff)
    then have "hd (L p) \<noteq> nullptr" using pools_view_nonnull [OF assms(1)] hd_nonnull [of "L p"] by auto
    then have "ABTI_poll_sched E s h = do { h2 \<leftarrow> ABTI_pool_run_thread E (hd (L p)) ((rt CsdReleaseIdle h1)\<lparr>tls_last_chain := 0\<rparr>);
        Some (1 + tls_last_chain h2, h2) }"
      using u tk h1(1) held Some by (simp add: ABTI_poll_sched_def Let_def)
    then show ?thesis using Some h1(1) held by (intro exI [of _ "hd (L p)"] exI [of _ h1]) simp
  qed
qed

theorem poll_sched_held_witness:
  "\<exists>t h1. ABTI_poll_sched env0 2048 (sched_heap\<lparr>tls_held := 4096, t_pool := (\<lambda>_. nullptr)(4096 := 256)\<rparr>) =
      do { h2 \<leftarrow> ABTI_pool_run_thread env0 t ((rt CsdReleaseIdle h1)\<lparr>tls_last_chain := 0\<rparr>); Some (1 + tls_last_chain h2, h2) } \<and>
     t = 4096 \<and> tls_held h1 = nullptr \<and> pools_view h1 {512, 256} view3"
proof -
  let ?h = "sched_heap\<lparr>tls_held := 4096, t_pool := (\<lambda>_. nullptr)(4096 := 256)\<rparr>"
  have v: "pools_view ?h {512, 256} view3" using sched_heap_sel(1) by simp
  show ?thesis
    using poll_sched_held [OF v, of 2048 env0 4096 "[]"] by (simp add: sched_heap_sel pinned_elsewhere_def heap3_flags sched_heap_def)
qed

end
