(* ===== verification/Sched_Refs.thy ===== *)
theory Sched_Refs
  imports Sched
begin

section \<open>Schedulers and their pools\<close>

text \<open>
  A pool counts the schedulers it belongs to; an automatic pool is freed with the last of them.  This
  theory shows that the count is exact, so no pool is freed under a scheduler that still uses it, and
  that a stacked scheduler drains its pools in the order of its policy and ends.
\<close>


subsection \<open>Counting schedulers\<close>

text \<open>\<open>S\<close> are the existing schedulers.\<close>

definition sched_refs :: "ptr set \<Rightarrow> 'a abt \<Rightarrow> bool" where
  "sched_refs S h \<longleftrightarrow> (\<forall>p. p_num_scheds h p = (\<Sum>s\<in>S. int (count_list (s_pools h s) p))) \<and>
     (\<forall>s\<in>S. s \<in> live h \<and> set (s_pools h s) \<subseteq> live h)"

lemma inc_scheds_eq:
  "inc_scheds ps h = h\<lparr>p_num_scheds := \<lambda>q. p_num_scheds h q + int (count_list ps q)\<rparr>"
  by (induction ps arbitrary: h) (auto simp: inc_scheds_def fun_eq_iff fold_Cons)

lemma create_builtin_sel [simp]:
  fixes h :: "'a abt"
  shows "p_num_scheds (ABTI_pool_create_builtin p k a b h) = (p_num_scheds h)(p := 0)"
    "s_pools (ABTI_pool_create_builtin p k a b h) = s_pools h"
    "live (ABTI_pool_create_builtin p k a b h) = insert p (live h)"
  by (simp_all add: ABTI_pool_create_builtin_def fresh_id_def pool_new_def pool_queue_init_def Let_def)

lemma create_pools_sel:
  "p_num_scheds (create_pools k ps h) = (\<lambda>q. if q \<in> set ps then 0 else p_num_scheds h q)"
  "s_pools (create_pools k ps h) = s_pools h" "live (create_pools k ps h) = live h \<union> set ps"
  by (induction ps arbitrary: h) (auto simp: fun_eq_iff)

text \<open>The pools a new scheduler gets are the given ones and new ones, and no other pool is touched.\<close>

lemma take_pools_sel:
  assumes "take_pools k vs news h = (ps, h')" "length (filter (\<lambda>v. ABTI_is_null_handle v) vs) \<le> length news"
  shows "s_pools h' = s_pools h \<and> live h \<subseteq> live h' \<and> live h' \<subseteq> live h \<union> set news \<and>
    (\<forall>p\<in>set ps. p \<in> set vs \<and> is_obj p \<or> p \<in> set news \<and> p \<in> live h') \<and>
    (\<forall>q. p_num_scheds h' q = p_num_scheds h q \<or> q \<in> set news \<and> p_num_scheds h' q = 0) \<and> length ps = length vs"
  using assms
proof (induction vs arbitrary: news h ps h')
  case Nil
  then show ?case by simp
next
  case (Cons v vs)
  show ?case
  proof (cases "ABTI_is_null_handle v")
    case False
    with Cons.prems obtain qs where qs: "take_pools k vs news h = (qs, h')" "ps = v # qs"
      by (auto simp: ABTI_obj_eq_null_iff Let_def split: prod.splits)
    from Cons.IH [OF qs(1)] Cons.prems(2) False show ?thesis by (auto simp: qs(2))
  next
    case True
    then obtain n ns where news: "news = n # ns" using Cons.prems(2) by (cases news) auto
    let ?h = "ABTI_pool_create_builtin n k ABT_POOL_ACCESS_MPMC True h"
    from Cons.prems True news obtain qs where qs: "take_pools k vs ns ?h = (qs, h')" "ps = n # qs"
      by (auto simp: ABTI_obj_eq_null_iff Let_def split: prod.splits)
    from Cons.IH [OF qs(1)] Cons.prems(2) True news show ?thesis by (auto simp: qs(2) fun_upd_def split: if_splits)
  qed
qed

lemma refs_fresh: "finite S \<Longrightarrow> sched_refs S h \<Longrightarrow> n \<notin> live h \<Longrightarrow> p_num_scheds h n = 0"
  unfolding sched_refs_def by (auto intro!: sum.neutral) (metis count_list_0_iff subsetD)

lemma refs_insert:
  assumes "finite S" "sched_refs S h" "s \<notin> S" "s_pools h2 = s_pools h" "live h \<subseteq> live h2" "s \<in> live h2" "set ps \<subseteq> live h2"
    "\<forall>q. p_num_scheds h2 q = p_num_scheds h q \<or> q \<notin> live h \<and> p_num_scheds h2 q = 0"
  shows "sched_refs (insert s S) (inc_scheds ps (h2\<lparr>s_pools := (s_pools h2)(s := ps)\<rparr>))"
proof -
  have "p_num_scheds h2 q = p_num_scheds h q" for q using assms(8) refs_fresh [OF assms(1,2), of q] by metis
  moreover have "(\<Sum>s'\<in>S. int (count_list (((s_pools h)(s := ps)) s') p)) = (\<Sum>s'\<in>S. int (count_list (s_pools h s') p))" for p
    using assms(3) by (intro sum.cong) auto
  moreover have "\<forall>s'\<in>S. set (s_pools h s') \<subseteq> live h2" "\<forall>s'\<in>S. s' \<in> live h2"
    using assms(2,5) unfolding sched_refs_def by blast+
  ultimately show ?thesis using assms by (auto simp: sched_refs_def inc_scheds_eq)
qed

text \<open>
  C16. A new scheduler is counted by exactly its pools: if the counts of all pools are the numbers of
  occurrences in the schedulers that exist, they are so again after \<^verbatim>\<open>ABTI_sched_create_predef\<close>, whether
  it was given pools, made some for null handles, or made all of them (three for \<^verbatim>\<open>ABT_SCHED_PRIO\<close>,
  otherwise one); every pool of the scheduler exists.  A refused call changes nothing.
\<close>

theorem sched_create_counts:
  assumes "finite S" "sched_refs S h" "s \<notin> S" "\<forall>n\<in>set news. n \<notin> live h" "length news \<ge> 3"
    and given: "\<forall>arr. pools = Some arr \<longrightarrow> (\<forall>v\<in>set arr. is_obj v \<longrightarrow> v \<in> live h) \<and> length arr \<le> length news"
    and run: "ABTI_sched_create_predef s news predef num_pools pools h = Some (r, h')"
  shows "case r of Inl e \<Rightarrow> h' = h
    | Inr s' \<Rightarrow> s' = s \<and> sched_refs (insert s S) h' \<and>
        length (s_pools h' s) = (case pools of Some _ \<Rightarrow> nat num_pools
          | None \<Rightarrow> if ABT_sched_predef_of predef = Some ABT_SCHED_PRIO then 3 else 1)"
proof (cases "ABT_sched_predef_of predef = None \<or> num_pools < 0")
  case True
  then show ?thesis using run by (auto simp: ABTI_sched_create_predef_def split: option.splits if_splits)
next
  case False
  then obtain pr where pr: "ABT_sched_predef_of predef = Some pr" "\<not> num_pools < 0" by auto
  define kind where "kind = (if pr = ABT_SCHED_BASIC_WAIT then ABT_POOL_FIFO_WAIT else ABT_POOL_FIFO)"
  define h1 where "h1 = sched_new s pr h"
  have h1: "p_num_scheds h1 = p_num_scheds h" "s_pools h1 = s_pools h" "live h1 = insert s (live h)"
    by (simp_all add: h1_def sched_new_def)
  obtain ps h2 where e: "r = Inr s" "h' = inc_scheds ps (h2\<lparr>s_pools := (s_pools h2)(s := ps)\<rparr>)"
    and h2: "s_pools h2 = s_pools h" "live h1 \<subseteq> live h2" "set ps \<subseteq> live h2"
      "\<forall>q. p_num_scheds h2 q = p_num_scheds h q \<or> q \<notin> live h \<and> p_num_scheds h2 q = 0"
      "length ps = (case pools of Some _ \<Rightarrow> nat num_pools | None \<Rightarrow> if pr = ABT_SCHED_PRIO then 3 else 1)"
  proof (cases pools)
    case None
    let ?ps = "take (if pr = ABT_SCHED_PRIO then 3 else 1) news"
    have "h' = inc_scheds ?ps ((create_pools kind ?ps h1)\<lparr>s_pools := (s_pools (create_pools kind ?ps h1))(s := ?ps)\<rparr>)" "r = Inr s"
      using run pr None by (simp_all add: ABTI_sched_create_predef_def Let_def h1_def kind_def)
    moreover have "set ?ps \<subseteq> set news" by (rule set_take_subset)
    ultimately show ?thesis using assms(4,5) h1 None by (intro that [of ?ps "create_pools kind ?ps h1"]) (auto simp: create_pools_sel)
  next
    case (Some arr)
    let ?vs = "take (nat num_pools) arr"
    obtain ps h2 where t: "take_pools kind ?vs news h1 = (ps, h2)" by fastforce
    have len: "nat num_pools \<le> length arr" using run pr Some by (auto simp: ABTI_sched_create_predef_def Let_def split: if_splits)
    then have "h' = inc_scheds ps (h2\<lparr>s_pools := (s_pools h2)(s := ps)\<rparr>)" "r = Inr s"
      using run pr Some t by (simp_all add: ABTI_sched_create_predef_def Let_def h1_def kind_def)
    moreover have "length (filter (\<lambda>v. ABTI_is_null_handle v) ?vs) \<le> length news"
      using given Some length_filter_le [of "\<lambda>v. ABTI_is_null_handle v" ?vs] by auto
    note sel = take_pools_sel [OF t this]
    have "set ?vs \<subseteq> set arr" by (rule set_take_subset)
    then have "set ps \<subseteq> live h2" using sel given Some unfolding h1(3) by blast
    moreover have "\<forall>q. p_num_scheds h2 q = p_num_scheds h q \<or> q \<notin> live h \<and> p_num_scheds h2 q = 0"
      using sel assms(4) unfolding h1(1) by blast
    moreover have "length ps = nat num_pools" using sel len by simp
    ultimately show ?thesis using sel Some h1(2) by (intro that [of ps h2]) simp_all
  qed
  have "sched_refs (insert s S) h'" unfolding e(2) using h2 h1(3)
    by (intro refs_insert [OF assms(1-3)]) auto
  then show ?thesis using h2(5) pr(1) by (simp add: e inc_scheds_eq split: option.splits)
qed

lemma refs_heap0: "sched_refs {} (abt_of heap0)" "live heap0 = {}"
  by (simp_all add: sched_refs_def heap0_def)

theorem sched_create_counts_witness:
  "\<exists>h'. ABTI_sched_create_predef 2048 [768, 1024, 1280] 2 0 None (abt_of heap0) = Some (Inr 2048, h') \<and>
     sched_refs {2048} h' \<and> length (s_pools h' 2048) = 3"
proof -
  have pr: "ABT_sched_predef_of 2 = Some ABT_SCHED_PRIO" by (simp add: ABT_sched_predef_of_def)
  obtain h' where h': "ABTI_sched_create_predef 2048 [768, 1024, 1280] 2 0 None (abt_of heap0) = Some (Inr 2048, h')"
    by (simp add: ABTI_sched_create_predef_def pr Let_def)
  show ?thesis
    using sched_create_counts [OF finite.emptyI refs_heap0(1) _ _ _ _ h'] h' by (auto simp: refs_heap0(2) pr)
qed


subsection \<open>Releasing pools\<close>

text \<open>The pools of \<open>ps\<close> that go when a scheduler with these pools is destroyed.\<close>

definition freed_pools :: "'a abt_env \<Rightarrow> ptr list \<Rightarrow> 'a abt \<Rightarrow> ptr set" where
  "freed_pools E ps h = {q \<in> set ps. p_num_scheds h q = int (count_list ps q) \<and> p_automatic h q \<and> pool_size E q h = 0 \<and> p_num_blocked h q = 0}"

lemma pool_size_builtin: "\<not> p_user h p \<Longrightarrow> pool_size E p h = builtin_size p h"
  by (simp add: pool_size_def)

lemma release_pools_eq:
  assumes "\<forall>p\<in>set ps. \<not> p_user h p" "\<forall>p. int (count_list ps p) \<le> p_num_scheds h p"
  shows "release_pools E ps h =
    h\<lparr>p_num_scheds := \<lambda>q. p_num_scheds h q - int (count_list ps q), live := live h - freed_pools E ps h\<rparr>"
  using assms
proof (induction ps arbitrary: h)
  case Nil
  then show ?case by (simp add: freed_pools_def)
next
  case (Cons p ps)
  define F where "F = (if p_num_scheds h p = 1 \<and> p_automatic h p \<and> pool_size E p h = 0 \<and> p_num_blocked h p = 0 then {p} else {})"
  define h2 where "h2 = h\<lparr>p_num_scheds := (p_num_scheds h)(p := p_num_scheds h p - 1), live := live h - F\<rparr>"
  have u: "\<forall>q\<in>set (p # ps). \<not> p_user h2 q" using Cons.prems(1) by (simp add: h2_def)
  have le: "\<forall>q. int (count_list ps q) \<le> p_num_scheds h2 q"
  proof
    fix q show "int (count_list ps q) \<le> p_num_scheds h2 q" using spec [OF Cons.prems(2), of q] by (auto simp: h2_def)
  qed
  have sz: "pool_size E q h2 = pool_size E q h" if "q \<in> set (p # ps)" for q
  proof -
    have "\<not> p_user h2 q" "\<not> p_user h q" using that u Cons.prems(1) by blast+
    then show ?thesis by (simp add: pool_size_builtin) (simp add: builtin_size_def h2_def)
  qed
  have step: "release_pools E (p # ps) h = release_pools E ps h2"
  proof -
    have "live h - {} = live h" by simp
    moreover have "pool_size E p (h\<lparr>p_num_scheds := (p_num_scheds h)(p := p_num_scheds h p - 1)\<rparr>) = pool_size E p h"
      using Cons.prems(1) by (simp add: pool_size_builtin builtin_size_def)
    ultimately show ?thesis using Cons.prems(1)
      by (auto simp: Let_def h2_def F_def ABTI_pool_destroy_def)
  qed
  have c: "count_list ps p = 0 \<longleftrightarrow> p \<notin> set ps" by (simp add: count_list_0_iff)
  have fr: "F \<union> freed_pools E ps h2 = freed_pools E (p # ps) h"
  proof (rule set_eqI)
    fix q
    have h2: "p_automatic h2 = p_automatic h" "p_num_blocked h2 = p_num_blocked h"
      "p_num_scheds h2 = (p_num_scheds h)(p := p_num_scheds h p - 1)" by (simp_all add: h2_def)
    show "q \<in> F \<union> freed_pools E ps h2 \<longleftrightarrow> q \<in> freed_pools E (p # ps) h"
    proof (cases "q = p")
      case True
      have "int (count_list ps p) = 0" if "p_num_scheds h p = 1" using that spec [OF Cons.prems(2), of p] by simp
      then show ?thesis using True sz [of p] c by (auto simp: freed_pools_def F_def h2)
    next
      case False
      then show ?thesis using sz [of q] by (auto simp: freed_pools_def F_def h2)
    qed
  qed
  have "live h2 - freed_pools E ps h2 = live h - freed_pools E (p # ps) h" unfolding fr [symmetric] by (auto simp: h2_def)
  moreover have "release_pools E ps h2 = h2\<lparr>p_num_scheds := \<lambda>q. p_num_scheds h2 q - int (count_list ps q), live := live h2 - freed_pools E ps h2\<rparr>"
    using u le by (intro Cons.IH) simp_all
  ultimately have "release_pools E (p # ps) h =
      h2\<lparr>p_num_scheds := \<lambda>q. p_num_scheds h2 q - int (count_list ps q), live := live h - freed_pools E (p # ps) h\<rparr>"
    unfolding step by (simp only:)
  moreover have "(\<lambda>q. p_num_scheds h2 q - int (count_list ps q)) = (\<lambda>q. p_num_scheds h q - int (count_list (p # ps) q))"
    by (auto simp: h2_def)
  ultimately show ?case by (simp add: h2_def)
qed


lemma count_other:
  assumes "finite S" "sched_refs S h" "s \<in> S"
  shows "p_num_scheds h q = int (count_list (s_pools h s) q) + (\<Sum>s'\<in>S - {s}. int (count_list (s_pools h s') q))"
    "p_num_scheds h q = int (count_list (s_pools h s) q) \<longleftrightarrow> (\<forall>s'\<in>S - {s}. q \<notin> set (s_pools h s'))"
proof -
  show 1: "p_num_scheds h q = int (count_list (s_pools h s) q) + (\<Sum>s'\<in>S - {s}. int (count_list (s_pools h s') q))"
    using assms(2) sum.remove [OF assms(1,3), of "\<lambda>s. int (count_list (s_pools h s) q)"] by (simp add: sched_refs_def)
  have "(\<Sum>s'\<in>S - {s}. int (count_list (s_pools h s') q)) = 0 \<longleftrightarrow> (\<forall>s'\<in>S - {s}. int (count_list (s_pools h s') q) = 0)"
    using assms(1) by (intro sum_nonneg_eq_0_iff) auto
  then show "p_num_scheds h q = int (count_list (s_pools h s) q) \<longleftrightarrow> (\<forall>s'\<in>S - {s}. q \<notin> set (s_pools h s'))"
    unfolding 1 by (simp add: count_list_0_iff)
qed

text \<open>
  C15. No pool is freed under a scheduler that uses it, and automatic pools go with their last scheduler:
  \<^verbatim>\<open>ABTI_sched_destroy\<close> keeps the counts exact for the remaining schedulers, which all keep their pools,
  and of the pools of the destroyed scheduler it frees exactly those that belong to no other scheduler,
  are automatic, hold no unit, and to which no blocked ULT belongs.
\<close>

theorem sched_destroy_counts:
  assumes "finite S" "sched_refs S h" "s \<in> S" "\<forall>p\<in>set (s_pools h s). \<not> p_user h p"
    and "\<not> s_user_def h s \<or> sd_free (s_def h s) = nullptr" "\<forall>s'\<in>S. s \<notin> set (s_pools h s')"
    and ps: "\<forall>s'\<in>S. s' \<notin> set (s_pools h s)"
  shows "let h' = ABTI_sched_destroy E s h
    in sched_refs (S - {s}) h' \<and>
       live h - live h' = {s} \<union> {p \<in> set (s_pools h s). (\<forall>s'\<in>S - {s}. p \<notin> set (s_pools h s')) \<and> p_automatic h p \<and>
         pool_size E p h = 0 \<and> p_num_blocked h p = 0}"
proof -
  let ?ps = "s_pools h s" and ?F = "freed_pools E (s_pools h s) h"
  note c = count_other [OF assms(1-3)]
  have "\<forall>p. int (count_list ?ps p) \<le> p_num_scheds h p" unfolding c(1) by (simp add: sum_nonneg)
  from release_pools_eq [OF assms(4) this, of E] have d: "ABTI_sched_destroy E s h =
      h\<lparr>p_num_scheds := \<lambda>q. p_num_scheds h q - int (count_list ?ps q), live := live h - ?F - {s}\<rparr>"
    using assms(5) by (auto simp: ABTI_sched_destroy_def Let_def)
  have F: "?F = {p \<in> set ?ps. (\<forall>s'\<in>S - {s}. p \<notin> set (s_pools h s')) \<and> p_automatic h p \<and> pool_size E p h = 0 \<and> p_num_blocked h p = 0}"
    unfolding freed_pools_def c(2) ..
  have L: "\<forall>s'\<in>S. s' \<in> live h \<and> set (s_pools h s') \<subseteq> live h" using assms(2) by (simp add: sched_refs_def)
  have "\<forall>s'\<in>S - {s}. s' \<in> live h - ?F - {s} \<and> set (s_pools h s') \<subseteq> live h - ?F - {s}"
    using L assms(6) ps unfolding F by blast
  then have "sched_refs (S - {s}) (ABTI_sched_destroy E s h)" unfolding d sched_refs_def using c(1) by simp
  moreover have "live h - (live h - ?F - {s}) = {s} \<union> ?F" using L assms(3) unfolding F by blast
  ultimately show ?thesis unfolding Let_def F [symmetric] by (simp add: d)
qed

text \<open>Two schedulers share pool 1024; the one that also has pool 768 is destroyed.\<close>

definition two_scheds :: abt_heap where
  "two_scheds = (abt_of heap0)\<lparr>s_pools := (\<lambda>_. [])(2048 := [768, 1024], 4096 := [1024]),
     p_num_scheds := (\<lambda>_. 0)(768 := 1, 1024 := 2), p_automatic := (\<lambda>_. True), live := {768, 1024, 2048, 4096}\<rparr>"

lemma two_scheds_refs: "sched_refs {2048, 4096} two_scheds"
  by (simp add: sched_refs_def two_scheds_def)

theorem sched_destroy_counts_witness:
  "let h' = ABTI_sched_destroy env0 2048 two_scheds in sched_refs {4096} h' \<and> live two_scheds - live h' = {768, 2048}"
proof -
  have b: "pool_size env0 768 two_scheds = 0" "pool_size env0 1024 two_scheds = 0" "\<not> p_user two_scheds 768" "\<not> p_user two_scheds 1024"
    "\<not> s_user_def two_scheds 2048" "s_pools two_scheds 2048 = [768, 1024]" "s_pools two_scheds 4096 = [1024]"
    "p_automatic two_scheds 768" "p_num_blocked two_scheds 768 = 0"
    by (simp_all add: two_scheds_def pool_size_def builtin_size_def heap0_def abt_of_def pool_heap.defs abt_heap.defs)
  have e: "{2048, 4096} - {2048::nat} = {4096}" by auto
  have "let h' = ABTI_sched_destroy env0 2048 two_scheds
    in sched_refs ({2048, 4096} - {2048}) h' \<and>
       live two_scheds - live h' = {2048} \<union> {p \<in> set (s_pools two_scheds 2048). (\<forall>s'\<in>{2048, 4096} - {2048}. p \<notin> set (s_pools two_scheds s')) \<and>
         p_automatic two_scheds p \<and> pool_size env0 p two_scheds = 0 \<and> p_num_blocked two_scheds p = 0}"
    by (rule sched_destroy_counts [OF _ two_scheds_refs]) (simp_all add: b)
  moreover have "{p \<in> set [768, 1024]. (\<forall>s'\<in>{4096}. p \<notin> set (s_pools two_scheds s')) \<and> p_automatic two_scheds p \<and>
      pool_size env0 p two_scheds = 0 \<and> p_num_blocked two_scheds p = 0} = {768}" using b by auto
  ultimately show ?thesis unfolding e b Let_def by auto
qed


subsection \<open>A stacked scheduler drains its pools\<close>

text \<open>
  Tasklets of built-in pools, named or detached, that nobody waits for and whose bodies only change the
  application's state, by \<open>eff\<close>.
\<close>

definition local_task :: "'a abt_env \<Rightarrow> (ptr \<Rightarrow> 'a \<Rightarrow> 'a) \<Rightarrow> 'a abt \<Rightarrow> ptr \<Rightarrow> bool" where
  "local_task E eff h t \<longleftrightarrow> t_cth h t = nullptr \<and> (\<forall>s. call_fn E (t_fn h t) (t_arg h t) s = abt_heap.more_update (eff t) s) \<and>
     t_joiners h t = [] \<and> t_type h t \<in> {ABTI_THREAD_NAMED, ABTI_THREAD_DETACHED} \<and> (t_pool h t = nullptr \<or> \<not> p_user h (t_pool h t))"

text \<open>What decides whether a scheduler has work, apart from the queues.\<close>

definition sched_part :: "'a abt \<Rightarrow> _" where
  "sched_part h = (s_pools h, s_predef h, s_req_exit h, p_num_blocked h, p_num_scheds h, p_access h)"

lemma run_local_task:
  assumes "t_cth h t = nullptr" "\<forall>s. call_fn E (t_fn h t) (t_arg h t) s = abt_heap.more_update (eff t) s"
  shows "\<exists>x q z. ABTI_pool_run_thread E t h =
    ABTI_thread_terminated E t (abt_heap.more_update (eff t) (h\<lparr>t_last_xstream := x, t_parent := q\<rparr>)\<lparr>t_tstate := z\<rparr>)"
  using assms by (simp add: ABTI_pool_run_thread_def Let_def) blast

lemma run_tasklet_frame:
  assumes "local_task E eff h t" "pools_view h P L"
  shows "\<exists>h'. ABTI_pool_run_thread E t h = Some h' \<and> abt_heap.more h' = eff t (abt_heap.more h) \<and> pools_view h' P L \<and>
    t_terminated h' = (t_terminated h)(t := True) \<and> live h' = live h - (if t_type h t = ABTI_THREAD_DETACHED then {t} else {}) \<and>
    sched_part h' = sched_part h \<and> t_type h' = t_type h \<and> (\<forall>u. local_task E eff h u \<longrightarrow> local_task E eff h' u)"
proof -
  from run_local_task [of h t E eff] assms(1) obtain x q z where run: "ABTI_pool_run_thread E t h =
      ABTI_thread_terminated E t (abt_heap.more_update (eff t) (h\<lparr>t_last_xstream := x, t_parent := q\<rparr>)\<lparr>t_tstate := z\<rparr>)"
    by (auto simp: local_task_def)
  define g where "g = abt_heap.more_update (eff t) (h\<lparr>t_last_xstream := x, t_parent := q\<rparr>)
    \<lparr>t_tstate := z, t_terminated := (t_terminated h)(t := True), t_joiners := (t_joiners h)(t := [])\<rparr>"
  define h' where "h' = (if t_type h t = ABTI_THREAD_DETACHED then ABTI_thread_release t (ABTI_pool_disassociate E t g) else g)"
  have "ABTI_pool_run_thread E t h = Some h'" using assms(1) by (simp add: run ABTI_thread_terminated_def local_task_def g_def h'_def Let_def)
  moreover have d: "ABTI_pool_disassociate E t g = g\<lparr>t_unit := (t_unit g)(t := ABT_UNIT_NULL), t_pool := (t_pool g)(t := nullptr)\<rparr>"
    using assms(1) by (auto simp: ABTI_pool_disassociate_def local_task_def g_def Let_def)
  have v: "pools_view g P L" "abt_heap.more g = eff t (abt_heap.more h)" "t_terminated g = (t_terminated h)(t := True)" "live g = live h"
    "sched_part g = sched_part h" "t_type g = t_type h" using assms(2) by (simp_all add: g_def sched_part_def)
  have l: "local_task E eff g u" if "local_task E eff h u" for u using that by (simp add: g_def local_task_def)
  have "abt_heap.more h' = eff t (abt_heap.more h)" "t_terminated h' = (t_terminated h)(t := True)" "t_type h' = t_type h"
    "live h' = live h - (if t_type h t = ABTI_THREAD_DETACHED then {t} else {})" "pools_view h' P L"
    using v by (simp_all add: h'_def d ABTI_thread_release_def Let_def)
  moreover have "sched_part h' = sched_part h" using v(5) by (simp add: h'_def d ABTI_thread_release_def Let_def sched_part_def)
  moreover have "local_task E eff h' u" if "local_task E eff h u" for u
    using l [OF that] by (simp add: h'_def d ABTI_thread_release_def Let_def local_task_def)
  ultimately show ?thesis by blast
qed

lemma concat_first:
  assumes "find (\<lambda>p. L p \<noteq> []) ps = Some p" "distinct ps"
  shows "concat (map L ps) = hd (L p) # concat (map (L(p := tl (L p))) ps)"
  using assms
proof (induction ps)
  case (Cons q ps)
  show ?case
  proof (cases "L q = []")
    case True
    then show ?thesis using Cons by (auto split: if_splits)
  next
    case False
    then have "q = p" "p \<notin> set ps" using Cons.prems by auto
    moreover have "map (L(p := tl (L p))) ps = map L ps" using calculation by (intro map_cong) auto
    ultimately show ?thesis using False by (cases "L p") (simp_all del: fun_upd_apply, simp)
  qed
qed simp

lemma pop_in_order:
  assumes "pools_view h P L" "set (s_pools h s) \<subseteq> P" "\<forall>t\<in>set (concat (map L (s_pools h s))). local_task E eff h t"
    "s_predef h s \<noteq> ABT_SCHED_RANDWS \<or> length (s_pools h s) \<le> 1"
  shows "\<exists>h'. (case find (\<lambda>p. L p \<noteq> []) (s_pools h s) of
      None \<Rightarrow> ABTI_sched_pop_by_policy E s h = Some (nullptr, h') \<and> pools_view h' P L
    | Some p \<Rightarrow> ABTI_sched_pop_by_policy E s h = Some (hd (L p), h') \<and> pools_view h' P (L(p := tl (L p)))) \<and> qframe h h'"
proof (cases "s_pools h s = []")
  case False
  then have "ABTI_sched_pop_by_policy E s h = pop_first E (s_pools h s) h"
    using assms(4) by (auto simp: ABTI_sched_pop_by_policy_def Let_def)
  moreover have "\<forall>p\<in>set (s_pools h s). \<forall>t\<in>set (L p). \<not> pinned_elsewhere E h t"
    using assms(3) by (force simp: local_task_def pinned_elsewhere_def)
  ultimately show ?thesis using pop_first_view [OF assms(1,2), of E] by (auto split: option.splits)
qed (use assms(1) in \<open>auto simp: ABTI_sched_pop_by_policy_def\<close>)

definition idle_pools :: "ptr \<Rightarrow> 'a abt \<Rightarrow> bool" where
  "idle_pools s h \<longleftrightarrow> (\<forall>p\<in>set (s_pools h s). p_access h p = ABT_POOL_ACCESS_PRIV \<or> p_num_scheds h p = 1 \<longrightarrow> p_num_blocked h p \<le> 0)"

lemma stacked_loop_drains:
  assumes "pools_view h P L" "set (s_pools h s) \<subseteq> P" "distinct (s_pools h s)" "s_predef h s \<noteq> ABT_SCHED_RANDWS \<or> length (s_pools h s) \<le> 1"
    "\<not> s_req_exit h s" "idle_pools s h" "\<forall>t\<in>set (concat (map L (s_pools h s))). local_task E eff h t"
  shows "\<exists>h' L'. stacked_loop E s h = Some h' \<and> abt_heap.more h' = fold eff (concat (map L (s_pools h s))) (abt_heap.more h) \<and>
    pools_view h' P L' \<and> (\<forall>p\<in>set (s_pools h s). L' p = []) \<and> (\<forall>p. p \<notin> set (s_pools h s) \<longrightarrow> L' p = L p) \<and>
    (\<forall>t. t_terminated h' t = (t_terminated h t \<or> t \<in> set (concat (map L (s_pools h s))))) \<and>
    live h' = live h - {t \<in> set (concat (map L (s_pools h s))). t_type h t = ABTI_THREAD_DETACHED}"
  using assms
proof (induction "concat (map L (s_pools h s))" arbitrary: h L)
  case Nil
  let ?ps = "s_pools h s"
  have e: "\<forall>p\<in>set ?ps. L p = []" using Nil.hyps by auto
  then have "find (\<lambda>p. L p \<noteq> []) ?ps = None" by (simp add: find_None_iff)
  with pop_in_order [OF Nil.prems(1,2,7,4)] obtain h1 where
    h1: "ABTI_sched_pop_by_policy E s h = Some (nullptr, h1)" "pools_view h1 P L" "qframe h h1" by auto
  note q = qframe_abt [OF h1(3)] qframe_sel [OF h1(3)]
  have "pool_size E p h1 = 0" if "p \<in> set ?ps" for p
    using that e pools_view_size [OF h1(2), of p E] Nil.prems(2) by auto
  then have "\<not> sched_has_unit E s h1" using Nil.prems(6) by (auto simp: sched_has_unit_def idle_pools_def q)
  then have "stacked_loop E s h = Some h1" using Nil.prems(5) h1(1) by (subst stacked_loop.simps) simp
  then show ?case using h1(2) e unfolding Nil.hyps [symmetric] by (intro exI [of _ h1] exI [of _ L]) (simp add: q)
next
  case (Cons t ts)
  let ?ps = "s_pools h s"
  obtain p where p: "find (\<lambda>p. L p \<noteq> []) ?ps = Some p"
  proof (cases "find (\<lambda>p. L p \<noteq> []) ?ps")
    case None
    then have "concat (map L ?ps) = []" by (auto simp: find_None_iff)
    then show ?thesis using Cons.hyps(2) by (metis list.distinct(1))
  qed
  with pop_in_order [OF Cons.prems(1,2,7,4)] obtain h1 where
    h1: "ABTI_sched_pop_by_policy E s h = Some (hd (L p), h1)" "pools_view h1 P (L(p := tl (L p)))" "qframe h h1" by auto
  note q = qframe_abt [OF h1(3)] qframe_sel [OF h1(3)]
  have c: "concat (map L ?ps) = hd (L p) # concat (map (L(p := tl (L p))) ?ps)" by (rule concat_first [OF p Cons.prems(3)])
  then have t: "t = hd (L p)" "ts = concat (map (L(p := tl (L p))) ?ps)" using Cons.hyps(2) by simp_all
  have lt: "local_task E eff h1 u = local_task E eff h u" for u by (simp add: local_task_def q)
  have "local_task E eff h1 t" using Cons.prems(7) Cons.hyps(2) [symmetric] lt by simp
  from run_tasklet_frame [OF this h1(2)] obtain h2 where run: "ABTI_pool_run_thread E t h1 = Some h2" and
    f2: "abt_heap.more h2 = eff t (abt_heap.more h)" "pools_view h2 P (L(p := tl (L p)))" "t_terminated h2 = (t_terminated h)(t := True)"
      "live h2 = live h - (if t_type h t = ABTI_THREAD_DETACHED then {t} else {})" "sched_part h2 = sched_part h1" "t_type h2 = t_type h"
      "\<forall>u. local_task E eff h1 u \<longrightarrow> local_task E eff h2 u" unfolding q by blast
  have s2: "s_pools h2 = s_pools h" "s_predef h2 = s_predef h" "s_req_exit h2 = s_req_exit h" "idle_pools s h2 = idle_pools s h"
    using f2(5) by (simp_all add: sched_part_def idle_pools_def q)
  have lts: "\<forall>u\<in>set ts. local_task E eff h2 u" using Cons.prems(7) Cons.hyps(2) [symmetric] f2(7) lt by simp
  have "p \<in> P" "L p \<noteq> []" using p Cons.prems(2) by (auto simp: find_Some_iff)
  then have "t \<noteq> nullptr" using hd_nonnull [OF pools_view_nonnull [OF Cons.prems(1)]] unfolding t(1) by blast
  then have step: "stacked_loop E s h = stacked_loop E s h2"
    using Cons.prems(5) h1(1) run by (subst stacked_loop.simps) (simp add: t(1))
  have "\<exists>h' L'. stacked_loop E s h2 = Some h' \<and> abt_heap.more h' = fold eff (concat (map (L(p := tl (L p))) (s_pools h2 s))) (abt_heap.more h2) \<and>
    pools_view h' P L' \<and> (\<forall>p\<in>set (s_pools h2 s). L' p = []) \<and> (\<forall>q. q \<notin> set (s_pools h2 s) \<longrightarrow> L' q = (L(p := tl (L p))) q) \<and>
    (\<forall>u. t_terminated h' u = (t_terminated h2 u \<or> u \<in> set (concat (map (L(p := tl (L p))) (s_pools h2 s))))) \<and>
    live h' = live h2 - {u \<in> set (concat (map (L(p := tl (L p))) (s_pools h2 s))). t_type h2 u = ABTI_THREAD_DETACHED}"
    using Cons.prems lts f2(2) by (intro Cons.hyps(1)) (simp_all add: s2 t(2) del: fun_upd_apply)
  then obtain h' L' where h': "stacked_loop E s h2 = Some h'" "abt_heap.more h' = fold eff ts (eff t (abt_heap.more h))" "pools_view h' P L'"
    "\<forall>p\<in>set ?ps. L' p = []" "\<forall>q. q \<notin> set ?ps \<longrightarrow> L' q = (L(p := tl (L p))) q" "\<forall>u. t_terminated h' u = (t_terminated h2 u \<or> u \<in> set ts)"
    "live h' = live h2 - {u \<in> set ts. t_type h2 u = ABTI_THREAD_DETACHED}"
    unfolding s2 f2(1) t(2) [symmetric] by blast
  have "live h' = live h - {u \<in> set (t # ts). t_type h u = ABTI_THREAD_DETACHED}" using h'(7) by (auto simp: f2(4,6))
  moreover have "p \<in> set ?ps" using p by (auto simp: find_Some_iff)
  ultimately show ?case
    by (intro exI [of _ h'] exI [of _ L']) (use h'(1-6) step in \<open>auto simp: Cons.hyps(2) [symmetric] f2(3)\<close>)
qed

text \<open>
  C14. A stacked scheduler finishes its work.  A user-defined one runs the user's function, once.  A predefined
  one that has been asked to exit returns at once and runs nothing.  Otherwise, for a scheduler that
  searches its pools in order (every policy but random work stealing from several pools): if its pools
  hold only tasklets, named or detached, that nobody waits for and that create no further work, and no
  blocked ULT counts for it, \<^verbatim>\<open>stacked_sched_main\<close> ends; it has run every tasklet of its pools
  exactly once, pool after pool in index order and each pool from the oldest on, all are terminated, the
  descriptors of exactly the detached ones are freed, the pools are empty and other pools untouched.  In
  each case the scheduler is no longer marked as a unit of a pool.
\<close>

theorem stacked_sched_drains:
  assumes "pools_view h P L" "set (s_pools h s) \<subseteq> P" "distinct (s_pools h s)" "s_predef h s \<noteq> ABT_SCHED_RANDWS \<or> length (s_pools h s) \<le> 1"
    "idle_pools s h" "\<forall>t\<in>set (concat (map L (s_pools h s))). local_task E eff h t"
  shows "\<exists>h'. stacked_sched_main E s h = Some h' \<and> \<not> s_in_pool h' s \<and>
    (if s_user_def h s
     then \<exists>h1. h1 = call_s_run E (sd_run (s_def h s)) (ABTI_sched_handle s) h \<and> h' = h1\<lparr>s_in_pool := (s_in_pool h1)(s := False)\<rparr>
     else if s_req_exit h s then h' = h\<lparr>s_in_pool := (s_in_pool h)(s := False)\<rparr>
     else abt_heap.more h' = fold eff (concat (map L (s_pools h s))) (abt_heap.more h) \<and>
       (\<exists>L'. pools_view h' P L' \<and> (\<forall>p\<in>set (s_pools h s). L' p = []) \<and> (\<forall>p. p \<notin> set (s_pools h s) \<longrightarrow> L' p = L p)) \<and>
       (\<forall>t. t_terminated h' t = (t_terminated h t \<or> t \<in> set (concat (map L (s_pools h s))))) \<and>
       live h' = live h - {t \<in> set (concat (map L (s_pools h s))). t_type h t = ABTI_THREAD_DETACHED})"
proof (cases "s_user_def h s \<or> s_req_exit h s")
  case True
  then show ?thesis by (auto simp: stacked_sched_main_def stacked_loop.simps)
next
  case False
  with stacked_loop_drains [OF assms(1-4) _ assms(5,6)] obtain h' L' where
    h': "stacked_loop E s h = Some h'" "abt_heap.more h' = fold eff (concat (map L (s_pools h s))) (abt_heap.more h)" "pools_view h' P L'"
    "\<forall>p\<in>set (s_pools h s). L' p = []" "\<forall>p. p \<notin> set (s_pools h s) \<longrightarrow> L' p = L p"
    "\<forall>t. t_terminated h' t = (t_terminated h t \<or> t \<in> set (concat (map L (s_pools h s))))"
    "live h' = live h - {t \<in> set (concat (map L (s_pools h s))). t_type h t = ABTI_THREAD_DETACHED}" by blast
  have "\<exists>L'. pools_view h' P L' \<and> (\<forall>p\<in>set (s_pools h s). L' p = []) \<and> (\<forall>p. p \<notin> set (s_pools h s) \<longrightarrow> L' p = L p)" using h'(3-5) by blast
  then show ?thesis using False h'(1,2,6,7)
    by (intro exI [of _ "h'\<lparr>s_in_pool := (s_in_pool h')(s := False)\<rparr>"]) (simp add: stacked_sched_main_def)
qed

text \<open>The scheduler of \<open>sched_heap\<close> as a unit of a pool; its tasklets append their address to a trace.\<close>

definition stack_heap :: "ptr list abt_heap_scheme" where
  "stack_heap = abt_heap.extend (abt_heap.truncate (sched_heap\<lparr>s_in_pool := \<lambda>_. True, t_arg := \<lambda>t. t\<rparr>)) []"

lemma stack_heap_view: "pools_view stack_heap {512, 256} view3"
proof -
  let ?h = "sched_heap\<lparr>s_in_pool := \<lambda>_. True, t_arg := \<lambda>t. t\<rparr>"
  have "mpsc stack_heap = mpsc ?h" "dll stack_heap = dll ?h"
    by (simp_all add: fun_eq_iff stack_heap_def abt_heap.defs mpsc_def mpsc_chain_def dll_def)
  moreover have "p_user stack_heap = p_user ?h" "p_single_consumer stack_heap = p_single_consumer ?h" "p_count stack_heap = p_count ?h"
    "t_removed stack_heap = t_removed ?h" by (simp_all add: stack_heap_def abt_heap.defs)
  moreover have "pools_view ?h {512, 256} view3" using sched_heap_sel(1) by simp
  ultimately show ?thesis unfolding pools_view_def pools_rep_def pool_linked_def by (simp only:)
qed

theorem stacked_sched_drains_witness:
  "let E = env0\<lparr>call_fn := \<lambda>_ a. abt_heap.more_update (\<lambda>tr. tr @ [a])\<rparr>
   in \<exists>h'. stacked_sched_main E 2048 stack_heap = Some h' \<and> abt_heap.more h' = [1024, 1280, 1536] \<and> t_terminated h' 1536 \<and> \<not> s_in_pool h' 2048"
proof -
  let ?E = "env0\<lparr>call_fn := \<lambda>_ a. abt_heap.more_update (\<lambda>tr. tr @ [a])\<rparr> :: ptr list abt_heap_scheme env"
  have s: "s_pools stack_heap 2048 = [256, 512]" "s_predef stack_heap 2048 = ABT_SCHED_PRIO" "\<not> s_req_exit stack_heap 2048"
    "p_num_blocked stack_heap = (\<lambda>_. 0)" "\<not> s_user_def stack_heap 2048" "abt_heap.more stack_heap = []"
    by (simp_all add: stack_heap_def sched_heap_def abt_heap.defs abt_of_def pool_heap.defs heap3_more)
  have c: "concat (map view3 [256, 512]) = [1024, 1280, 1536]" by (simp add: view3_def)
  have l: "local_task ?E (\<lambda>t tr. tr @ [t]) stack_heap t" for t
    by (simp add: local_task_def stack_heap_def sched_heap_def abt_heap.defs abt_of_def pool_heap.defs heap3_more heap3_flags)
  show ?thesis
    using stacked_sched_drains [OF stack_heap_view, of 2048 ?E "\<lambda>t tr. tr @ [t]"] l
    by (auto simp: s c idle_pools_def) (simp_all add: view3_def)
qed

end
