(* ===== verification/Xstream.thy ===== *)
theory Xstream
  imports Sched_Refs
begin

section \<open>Execution streams\<close>

text \<open>
  \<^verbatim>\<open>src/src/xstream.cpp\<close>: an execution stream is a leased PE.  The slot table \<open>g_xstreams\<close> maps ranks to
  streams; leasing takes a free slot, the lease handler runs on the PE, the idle hook gives the lease
  back once a join was requested and the pools are drained, the release handler completes the join.
  Messages to a PE are entries of \<open>rt_calls\<close>; their handlers are definitions that the PE runs.  \<open>x\<close> is
  the address of a new stream, \<open>cth\<close> of a new Converse thread, \<open>m\<close> of a new thread descriptor.
  The affinity of the process and of a PE thread are asked from the operating system: \<open>allowed\<close> is the
  answer of \<^verbatim>\<open>sched_getaffinity\<close> and \<open>osaff t\<close> that of \<^verbatim>\<open>pthread_getaffinity_np\<close> for the thread \<open>t\<close>
  (\<open>None\<close>: the call fails).  \<open>na\<close> is the build switch \<^verbatim>\<open>ABTI_AFFINITY_NA\<close>.
\<close>


subsection \<open>Yield to next\<close>

definition park :: "ptr \<Rightarrow> 'a abt \<Rightarrow> 'a abt" where
  "park t h = h\<lparr>tls_held := t, stat_parked := stat_parked h + 1\<rparr>"

text \<open>The condition under which the suspending thread \<open>me\<close> pops the next unit itself.\<close>

definition direct_ok :: "ptr \<Rightarrow> 'a abt \<Rightarrow> bool" where
  "direct_ok me h \<longleftrightarrow>
     (let xs = tls_xstream h; s = x_main_sched h xs
      in g_direct_burst h \<noteq> 0 \<and> me \<noteq> nullptr \<and> xs \<noteq> nullptr \<and> s \<noteq> nullptr \<and> \<not> s_user_def h s \<and>
         tls_held h = nullptr \<and> tls_direct_count h < g_direct_burst h \<and> \<not> x_finishing h xs \<and> \<not> s_req_exit h s)"

definition choose_scheduler :: "'a abt_env \<Rightarrow> 'a abt \<Rightarrow> ptr \<times> 'a abt" where
  "choose_scheduler E h =
     (CthGetSchedulingThread E,
      h\<lparr>stat_to_sched := stat_to_sched h + 1, tls_last_chain := tls_direct_count h, tls_direct_count := 0\<rparr>)"

text \<open>What becomes of the popped unit \<open>t\<close>: park what must not be switched to, else claim it and switch.\<close>

definition choose_popped :: "'a abt_env \<Rightarrow> ptr \<Rightarrow> ptr \<Rightarrow> ptr \<Rightarrow> 'a abt \<Rightarrow> (ptr \<times> 'a abt) option" where
  "choose_popped E me xs t h =
     (let s = x_main_sched h xs;
          (t, h) = (if t \<noteq> nullptr \<and> tls_yielding h \<and> t_pool h t \<noteq> t_pool h me \<and>
                       ABTI_pool_index s (t_pool h me) h < ABTI_pool_index s (t_pool h t) h
                    then (nullptr, park t h) else (t, h));
          (t, h) = (if t \<noteq> nullptr \<and> t_cth h t \<noteq> nullptr \<and> CthIsPeMainThread E (t_cth h t)
                    then (nullptr, park t h) else (t, h))
      in if t \<noteq> nullptr
         then if t_cth h t \<noteq> nullptr
              then let (ok, h) = CthClaimReady E (t_cth h t) h
                   in if \<not> ok then None
                      else Some (t_cth h t, h\<lparr>tls_direct_count := tls_direct_count h + 1, stat_direct := stat_direct h + 1,
                             t_last_xstream := (t_last_xstream h)(t := xs), t_parent := (t_parent h)(t := nullptr)\<rparr>)
              else Some (choose_scheduler E (park t h))
         else Some (choose_scheduler E (if tls_held h = nullptr then h\<lparr>stat_empty := stat_empty h + 1\<rparr> else h)))"

definition ABTI_choose_fn :: "'a abt_env \<Rightarrow> 'a abt \<Rightarrow> (ptr \<times> 'a abt) option" where
  "ABTI_choose_fn E h =
     (let me = cth_userdata h (CthSelf E); xs = tls_xstream h
      in if me \<noteq> nullptr \<and> t_parent h me \<noteq> nullptr then Some (t_parent h me, h)
         else if direct_ok me h
         then do { (t, h1) \<leftarrow> ABTI_sched_pop_by_policy E (x_main_sched h xs) h; choose_popped E me xs t h1 }
         else Some (choose_scheduler E h))"


subsection \<open>Leases\<close>

definition ABTI_xstream_release :: "'a abt_env \<Rightarrow> ptr \<Rightarrow> 'a abt \<Rightarrow> 'a abt" where
  "ABTI_xstream_release E xs h =
     (let rank = CmiMyRank E;
          h1 = rt (CsdSetSleepOnIdle True) (h\<lparr>tls_xstream := nullptr\<rparr>);
          h2 = rt (CsdSchedTableDefault rank) h1
      in rt (ReleaseMsg rank xs) h2)"

text \<open>\<open>m\<close> is a new thread descriptor; the wrapper of the runner is deleted when its loop returns.\<close>

definition sched_runner :: "'a abt_env \<Rightarrow> ptr \<Rightarrow> ptr \<Rightarrow> 'a abt \<Rightarrow> 'a abt" where
  "sched_runner E m s h =
     (let h1 = h\<lparr>tls_runner := CthSelf E\<rparr>;
          (me, h2) = ABTI_thread_wrap_runner m (CthSelf E) (if s_pools h1 s = [] then nullptr else s_pools h1 s ! 0) h1;
          h3 = call_s_run E (sd_run (s_def h2 s)) (ABTI_sched_handle s) h2;
          h4 = h3\<lparr>tls_runner := nullptr, s_runner := (s_runner h3)(s := nullptr)\<rparr>;
          xs = tls_xstream h4;
          h5 = h4\<lparr>cth_userdata := (cth_userdata h4)(CthSelf E := nullptr), live := live h4 - {me}\<rparr>
      in if xs \<noteq> nullptr \<and> x_main_sched h5 xs = s then ABTI_xstream_release E xs h5 else h5)"

definition ABTI_start_runner :: "ptr \<Rightarrow> ptr \<Rightarrow> 'a abt \<Rightarrow> 'a abt" where
  "ABTI_start_runner cth s h =
     (let h1 = rt (CthCreate cth (1024 * 1024)) h
      in rt (CthAwaken cth) (h1\<lparr>s_runner := (s_runner h1)(s := cth)\<rparr>))"

definition lease_handler :: "'a abt_env \<Rightarrow> ptr \<Rightarrow> ptr \<Rightarrow> 'a abt \<Rightarrow> 'a abt" where
  "lease_handler E cth xs h =
     (let h1 = h\<lparr>tls_xstream := xs, x_thread := (x_thread h)(xs := pthread_self E),
                x_thread_known := (x_thread_known h)(xs := True),
                x_state := (x_state h)(xs := ABT_XSTREAM_STATE_RUNNING)\<rparr>;
          h2 = rt (CsdSetSleepOnIdle False) h1;
          h3 = (if x_cpubind h2 xs \<ge> 0 then rt (CmiSetCPUAffinity (x_cpubind h2 xs)) h2 else h2)
      in if s_user_def h3 (x_main_sched h3 xs) then ABTI_start_runner cth (x_main_sched h3 xs) h3 else h3)"

definition affinity_handler :: "int \<Rightarrow> 'a abt \<Rightarrow> 'a abt" where
  "affinity_handler cpuid h = (if cpuid \<ge> 0 then rt (CmiSetCPUAffinity cpuid) h else h)"

text \<open>
  \<^verbatim>\<open>ABTI_register_handlers\<close>: \<open>vs\<close> are the four indices \<^verbatim>\<open>CmiRegisterHandler\<close> returned on this PE.  The
  first PE records an index, every other PE must have got the same.
\<close>

definition record_handler :: "nat \<Rightarrow> int \<Rightarrow> 'a abt \<Rightarrow> 'a abt option" where
  "record_handler i v h =
     (if g_handlers h ! i = -1 then Some (h\<lparr>g_handlers := (g_handlers h)[i := v]\<rparr>)
      else if g_handlers h ! i \<noteq> v then None else Some h)"

definition ABTI_register_handlers :: "int \<Rightarrow> int \<Rightarrow> int \<Rightarrow> int \<Rightarrow> 'a abt \<Rightarrow> 'a abt option" where
  "ABTI_register_handlers l a r rl h =
     do { h1 \<leftarrow> record_handler 0 l h; h2 \<leftarrow> record_handler 1 a h1;
          h3 \<leftarrow> record_handler 2 r h2; record_handler 3 rl h3 }"

definition pools_drained :: "'a abt_env \<Rightarrow> ptr \<Rightarrow> 'a abt \<Rightarrow> bool" where
  "pools_drained E s h \<longleftrightarrow> tls_held h = nullptr \<and>
     (\<forall>p\<in>set (s_pools h s). pool_size E p h = 0 \<and> \<not> (p_num_scheds h p \<le> 1 \<and> p_num_blocked h p \<noteq> 0))"

definition release_handler :: "'a abt_env \<Rightarrow> ptr \<Rightarrow> 'a abt \<Rightarrow> 'a abt option" where
  "release_handler E xs h =
     (let joiners = x_joiners h xs;
          h1 = h\<lparr>s_used_by := (s_used_by h)(x_main_sched h xs := nullptr),
                x_state := (x_state h)(xs := ABT_XSTREAM_STATE_TERMINATED),
                x_finished := (x_finished h)(xs := True), x_joiners := (x_joiners h)(xs := [])\<rparr>
      in awaken_all E joiners h1)"

text \<open>
  The body of the idle hook for a scheduler of the kind \<^verbatim>\<open>ABT_SCHED_BASIC_WAIT\<close>: block on the first
  pool.  Times count nanoseconds.
\<close>

definition idle_pop :: "'a abt_env \<Rightarrow> ptr \<Rightarrow> 'a abt \<Rightarrow> (ptr \<times> 'a abt) option" where
  "idle_pop E p0 h =
     (if p_user h p0 \<and> p_pop_timedwait (p_def h p0) \<noteq> nullptr
      then pool_pop_timedwait E p0 (CmiWallTimer E + 2000000) h
      else if tls_held h \<noteq> nullptr then Some (tls_held h, h\<lparr>tls_held := nullptr\<rparr>)
      else do { h1 \<leftarrow> add_sleeper p0 (nat (CmiMyRank E)) h;
                (t, h2) \<leftarrow> pool_pop E p0 h1;
                (t, h3) \<leftarrow> (if t = nullptr then pool_pop E p0 (CsdIdleWait E h2) else Some (t, h2));
                h4 \<leftarrow> remove_sleeper p0 (nat (CmiMyRank E)) h3;
                Some (t, h4) })"

definition ABTI_xstream_idle_hook :: "'a abt_env \<Rightarrow> 'a abt \<Rightarrow> 'a abt option" where
  "ABTI_xstream_idle_hook E h =
     (let xs = tls_xstream h; s = x_main_sched h xs
      in if xs = nullptr then Some h
         else if s_user_def h s then Some h
         else if x_finishing h xs \<and> pools_drained E s h then Some (ABTI_xstream_release E xs h)
         else if s_predef h s = ABT_SCHED_BASIC_WAIT \<and> s_pools h s \<noteq> []
         then do { (t, h1) \<leftarrow> idle_pop E (s_pools h s ! 0) h;
                   if t \<noteq> nullptr then ABTI_pool_run_thread E t (rt CsdReleaseIdle h1) else Some h1 }
         else Some (rt Nanosleep h))"

definition ABTI_xstream_install :: "ptr \<Rightarrow> 'a abt \<Rightarrow> 'a abt" where
  "ABTI_xstream_install xs h =
     (let h1 = rt (LeaseMsg (x_rank h xs) xs) h; s = x_main_sched h1 xs
      in if s_user_def h1 s then rt (CsdSchedTableInstall (x_rank h1 xs) None) h1
         else rt (CsdSchedTableInstall (x_rank h1 xs) (Some s)) h1)"

definition xstream_new :: "ptr \<Rightarrow> int \<Rightarrow> ptr \<Rightarrow> bool \<Rightarrow> 'a abt \<Rightarrow> 'a abt" where
  "xstream_new x rank sched primary h =
     h\<lparr>live := insert x (live h), x_rank := (x_rank h)(x := rank),
       x_state := (x_state h)(x := ABT_XSTREAM_STATE_RUNNING), x_main_sched := (x_main_sched h)(x := sched),
       x_primary := (x_primary h)(x := primary), x_cpubind := (x_cpubind h)(x := -1),
       x_affinity := (x_affinity h)(x := []), x_thread := (x_thread h)(x := 0),
       x_thread_known := (x_thread_known h)(x := False), x_finishing := (x_finishing h)(x := False),
       x_finished := (x_finished h)(x := False), x_joiners := (x_joiners h)(x := []),
       s_used_by := (s_used_by h)(sched := x), g_xstreams := (g_xstreams h)[nat rank := x]\<rparr>"

definition lease_rank :: "int \<Rightarrow> 'a abt \<Rightarrow> int option" where
  "lease_rank want_rank h =
     (if want_rank < 0 then find (\<lambda>r. g_xstreams h ! nat r = nullptr) [1..g_num_pes h - 1]
      else if want_rank \<le> 0 \<or> want_rank \<ge> g_num_pes h \<or> g_xstreams h ! nat want_rank \<noteq> nullptr then None
      else Some want_rank)"

definition ABTI_xstream_lease :: "ptr \<Rightarrow> ptr \<Rightarrow> int \<Rightarrow> 'a abt \<Rightarrow> (ptr, 'a abt) api" where
  "ABTI_xstream_lease x sched want_rank h =
     (case lease_rank want_rank h of None \<Rightarrow> (Inl ABT_ERR_INV_XSTREAM_RANK, h)
      | Some rank \<Rightarrow> (Inr x, xstream_new x rank sched False h))"


subsection \<open>Joining\<close>

partial_function (option) xstream_join_spin :: "'a abt_env \<Rightarrow> ptr \<Rightarrow> 'a abt \<Rightarrow> 'a abt option" where
  "xstream_join_spin E x h = (if x_finished h x then Some h else xstream_join_spin E x (sched_yield E h))"

definition xstream_join_impl :: "'a abt_env \<Rightarrow> ptr \<Rightarrow> 'a abt \<Rightarrow> (unit, 'a abt) api option" where
  "xstream_join_impl E x h =
     (if x_primary h x then Some (Inl ABT_ERR_INV_XSTREAM, h)
      else if tls_xstream h = x \<and> CmiIsPeThread E then Some (Inl ABT_ERR_INV_XSTREAM, h)
      else if x_finished h x then Some (Inr (), h)
      else let h1 = h\<lparr>x_finishing := (x_finishing h)(x := True)\<rparr>;
               s = x_main_sched h1 x;
               h2 = (if s \<noteq> nullptr then h1\<lparr>s_req_finish := (s_req_finish h1)(s := True)\<rparr> else h1);
               self = ABTI_self_thread E h2
           in if ABTI_can_block h2 self
              then let h3 = others_during_wait E h2
                   in if x_finished h3 x then Some (Inr (), h3)
                      else let h4 = h3\<lparr>x_joiners := (x_joiners h3)(x := x_joiners h3 x @ [t_cth h3 self])\<rparr>
                           in Some (Inr (), ABTI_thread_block E self h4)
              else do { h3 \<leftarrow> xstream_join_spin E x h2; Some (Inr (), h3) })"


subsection \<open>The stream API\<close>

definition with_xstream :: "ptr \<Rightarrow> (ptr \<Rightarrow> ('b, 's) api) \<Rightarrow> 's \<Rightarrow> ('b, 's) api" where
  "with_xstream xstream k h =
     (let x = ABTI_obj xstream in if ABTI_is_null_handle x then (Inl ABT_ERR_INV_XSTREAM, h) else k x)"

definition with_xstream_opt :: "ptr \<Rightarrow> (ptr \<Rightarrow> ('b, 's) api option) \<Rightarrow> 's \<Rightarrow> ('b, 's) api option" where
  "with_xstream_opt xstream k h =
     (let x = ABTI_obj xstream in if ABTI_is_null_handle x then Some (Inl ABT_ERR_INV_XSTREAM, h) else k x)"

text \<open>
  The part \<^verbatim>\<open>ABT_xstream_create\<close> and \<^verbatim>\<open>ABT_xstream_create_with_rank\<close> share: take the given scheduler or
  make a default one (at \<open>s\<close>, with the pools \<open>news\<close>), lease and install.
\<close>

definition lease_and_install :: "ptr \<Rightarrow> ptr \<Rightarrow> int \<Rightarrow> 'a abt \<Rightarrow> (ptr, 'a abt) api" where
  "lease_and_install x s want_rank h =
     (case ABTI_xstream_lease x s want_rank h of (Inl e, h1) \<Rightarrow> (Inl e, h1)
      | (Inr xs, h1) \<Rightarrow> (Inr (ABTI_xstream_handle xs), ABTI_xstream_install xs h1))"

definition xstream_create_any :: "ptr \<Rightarrow> ptr \<Rightarrow> ptr list \<Rightarrow> ptr \<Rightarrow> int \<Rightarrow> 'a abt \<Rightarrow> (ptr, 'a abt) api option" where
  "xstream_create_any x s news sched want_rank h =
     (let sc = ABTI_obj sched
      in if sc = nullptr
         then do { (r, h1) \<leftarrow> ABTI_sched_create_predef s news 0 0 None h;
                   case r of Inl e \<Rightarrow> Some (Inl e, h1) | Inr s1 \<Rightarrow> Some (lease_and_install x s1 want_rank h1) }
         else if s_used_by h sc \<noteq> nullptr then Some (Inl ABT_ERR_INV_SCHED, h)
         else Some (lease_and_install x sc want_rank h))"

definition ABT_xstream_create :: "ptr \<Rightarrow> ptr \<Rightarrow> ptr list \<Rightarrow> ptr \<Rightarrow> ptr \<Rightarrow> 'a abt \<Rightarrow> (ptr, 'a abt) api option" where
  "ABT_xstream_create x s news sched newxstream h =
     (if \<not> g_initialized h then Some (Inl ABT_ERR_UNINITIALIZED, h)
      else if ABTI_is_null_handle newxstream then Some (Inl ABT_ERR_INV_ARG, h)
      else xstream_create_any x s news sched (-1) h)"

definition ABT_xstream_create_basic :: "ptr \<Rightarrow> ptr \<Rightarrow> ptr list \<Rightarrow> int \<Rightarrow> int \<Rightarrow> ptr list option \<Rightarrow> ptr \<Rightarrow> ptr \<Rightarrow> 'a abt \<Rightarrow>
    (ptr, 'a abt) api option" where
  "ABT_xstream_create_basic x s news predef num_pools pools config newxstream h =
     (if \<not> g_initialized h then Some (Inl ABT_ERR_UNINITIALIZED, h)
      else do { (r, h1) \<leftarrow> ABTI_sched_create_predef s news predef num_pools pools h;
                case r of Inl e \<Rightarrow> Some (Inl e, h1)
                | Inr s1 \<Rightarrow> ABT_xstream_create x s1 [] (ABTI_sched_handle s1) newxstream h1 })"

definition ABT_xstream_create_with_rank :: "ptr \<Rightarrow> ptr \<Rightarrow> ptr list \<Rightarrow> ptr \<Rightarrow> int \<Rightarrow> 'a abt \<Rightarrow> (ptr, 'a abt) api option" where
  "ABT_xstream_create_with_rank x s news sched rank h =
     (if \<not> g_initialized h then Some (Inl ABT_ERR_UNINITIALIZED, h)
      else xstream_create_any x s news sched rank h)"

definition ABT_xstream_join :: "'a abt_env \<Rightarrow> ptr \<Rightarrow> 'a abt \<Rightarrow> (unit, 'a abt) api option" where
  "ABT_xstream_join E xstream h =
     (if \<not> g_initialized h then Some (Inl ABT_ERR_UNINITIALIZED, h)
      else with_xstream_opt xstream (\<lambda>x. xstream_join_impl E x h) h)"

text \<open>\<open>xstream\<close> is the address of the caller's variable, \<open>v\<close> its value; the output is its new value.\<close>

definition xstream_delete :: "'a abt_env \<Rightarrow> ptr \<Rightarrow> 'a abt \<Rightarrow> 'a abt" where
  "xstream_delete E x h =
     (let s = x_main_sched h x;
          h1 = (if s \<noteq> nullptr \<and> s_automatic h s then ABTI_sched_destroy E s h else h)
      in h1\<lparr>g_xstreams := (g_xstreams h1)[nat (x_rank h1 x) := nullptr], live := live h1 - {x}\<rparr>)"

definition ABT_xstream_free :: "'a abt_env \<Rightarrow> ptr \<Rightarrow> ptr \<Rightarrow> 'a abt \<Rightarrow> (ptr, 'a abt) api option" where
  "ABT_xstream_free E xstream v h =
     (if \<not> g_initialized h then Some (Inl ABT_ERR_UNINITIALIZED, h)
      else if ABTI_is_null_handle xstream then Some (Inl ABT_ERR_INV_XSTREAM, h)
      else with_xstream_opt v (\<lambda>x.
        do { (r, h1) \<leftarrow> xstream_join_impl E x h;
             case r of Inl e \<Rightarrow> Some (Inl e, h1) | Inr _ \<Rightarrow> Some (Inr ABT_XSTREAM_NULL, xstream_delete E x h1) }) h)"

definition ABT_xstream_self :: "'a abt_env \<Rightarrow> ptr \<Rightarrow> 'a abt \<Rightarrow> (ABT_error \<times> ptr option) option" where
  "ABT_xstream_self E xstream h =
     (let w = (if xstream \<noteq> nullptr then Some ABT_XSTREAM_NULL else None)
      in if \<not> g_initialized h then Some (ABT_ERR_UNINITIALIZED, w) else ABT_self_get_xstream E xstream h)"

definition ABT_xstream_self_rank :: "'a abt_env \<Rightarrow> 'a abt \<Rightarrow> (int, 'a abt) api" where
  "ABT_xstream_self_rank E h = ABT_self_get_xstream_rank E h"

definition ABT_xstream_get_rank :: "ptr \<Rightarrow> 'a abt \<Rightarrow> (int, 'a abt) api" where
  "ABT_xstream_get_rank xstream h = with_xstream xstream (\<lambda>x. (Inr (x_rank h x), h)) h"

text \<open>Replacing the main scheduler, in the steps of the source: links, table and runner, caller, old scheduler.\<close>

definition main_sched_links :: "ptr \<Rightarrow> ptr \<Rightarrow> 'a abt \<Rightarrow> 'a abt" where
  "main_sched_links x s h =
     (let old = x_main_sched h x;
          h1 = h\<lparr>x_main_sched := (x_main_sched h)(x := s), s_used_by := (s_used_by h)(s := x)\<rparr>
      in if old \<noteq> nullptr then h1\<lparr>s_used_by := (s_used_by h1)(old := nullptr)\<rparr> else h1)"

definition main_sched_switch :: "'a abt_env \<Rightarrow> ptr \<Rightarrow> ptr \<Rightarrow> ptr \<Rightarrow> ptr \<Rightarrow> 'a abt \<Rightarrow> 'a abt" where
  "main_sched_switch E cth x s old h =
     (let exit_old = (\<lambda>h. if old \<noteq> nullptr \<and> s_user_def h old
                          then h\<lparr>s_req_exit := (s_req_exit h)(old := True)\<rparr> else h)
      in if s_user_def h s
         then let h1 = exit_old (rt (CsdSchedTableInstall (x_rank h x) None) h)
              in if CmiIsPeThread E \<and> CmiMyRank E = x_rank h1 x then ABTI_start_runner cth s h1
                 else rt (LeaseMsg (x_rank h1 x) x) h1
         else let h1 = exit_old h in rt (CsdSchedTableInstall (x_rank h1 x) (Some s)) h1)"

definition main_sched_move_caller :: "'a abt_env \<Rightarrow> ptr \<Rightarrow> ptr \<Rightarrow> 'a abt \<Rightarrow> 'a abt option" where
  "main_sched_move_caller E s old h =
     (let self = ABTI_self_thread E h
      in if self \<noteq> nullptr \<and> old \<noteq> nullptr \<and> s_pools h s \<noteq> [] \<and> t_pool h self \<in> set (s_pools h old)
         then ABTI_pool_associate E self (s_pools h s ! 0) h else Some h)"

definition ABT_xstream_set_main_sched :: "'a abt_env \<Rightarrow> ptr \<Rightarrow> ptr \<Rightarrow> ptr \<Rightarrow> 'a abt \<Rightarrow> (unit, 'a abt) api option" where
  "ABT_xstream_set_main_sched E cth xstream sched h =
     (if \<not> g_initialized h then Some (Inl ABT_ERR_UNINITIALIZED, h)
      else with_xstream_opt xstream (\<lambda>x.
        let s = ABTI_obj sched; old = x_main_sched h x
        in if ABTI_is_null_handle s then Some (Inl ABT_ERR_INV_SCHED, h)
           else if s_used_by h s \<noteq> nullptr \<and> s_used_by h s \<noteq> x then Some (Inl ABT_ERR_INV_SCHED, h)
           else if old = s then Some (Inr (), h)
           else do { h1 \<leftarrow> main_sched_move_caller E s old (main_sched_switch E cth x s old (main_sched_links x s h));
                     Some (Inr (), if old \<noteq> nullptr \<and> s_automatic h1 old then ABTI_sched_destroy E old h1 else h1) }) h)"

definition ABT_xstream_set_main_sched_basic :: "'a abt_env \<Rightarrow> ptr \<Rightarrow> ptr \<Rightarrow> ptr list \<Rightarrow> ptr \<Rightarrow> int \<Rightarrow> int \<Rightarrow> ptr list option \<Rightarrow>
    'a abt \<Rightarrow> (unit, 'a abt) api option" where
  "ABT_xstream_set_main_sched_basic E cth s news xstream predef num_pools pools h =
     do { (r, h1) \<leftarrow> ABTI_sched_create_predef s news predef num_pools pools h;
          case r of Inl e \<Rightarrow> Some (Inl e, h1)
          | Inr s1 \<Rightarrow> ABT_xstream_set_main_sched E cth xstream (ABTI_sched_handle s1) h1 }"

definition ABT_xstream_get_main_sched :: "ptr \<Rightarrow> 'a abt \<Rightarrow> (ptr, 'a abt) api" where
  "ABT_xstream_get_main_sched xstream h = with_xstream xstream (\<lambda>x. (Inr (ABTI_sched_handle (x_main_sched h x)), h)) h"

text \<open>The output is what is written to the caller's array, from its start.\<close>

definition ABT_xstream_get_main_pools :: "ptr \<Rightarrow> int \<Rightarrow> 'a abt \<Rightarrow> (ptr list, 'a abt) api option" where
  "ABT_xstream_get_main_pools xstream max_pools h =
     with_xstream_opt xstream (\<lambda>x.
       if x_main_sched h x = nullptr then None
       else Some (Inr (map ABTI_pool_handle (take (nat max_pools) (s_pools h (x_main_sched h x)))), h)) h"

definition ABT_xstream_get_state :: "ptr \<Rightarrow> 'a abt \<Rightarrow> (ABT_xstream_state, 'a abt) api" where
  "ABT_xstream_get_state xstream h = with_xstream xstream (\<lambda>x. (Inr (x_state h x), h)) h"

definition ABT_xstream_equal :: "ptr \<Rightarrow> ptr \<Rightarrow> 'a abt \<Rightarrow> (bool, 'a abt) api" where
  "ABT_xstream_equal xstream1 xstream2 h = (Inr (xstream1 = xstream2), h)"

definition ABT_xstream_get_num :: "'a abt \<Rightarrow> (int, 'a abt) api" where
  "ABT_xstream_get_num h =
     (if \<not> g_initialized h then (Inl ABT_ERR_UNINITIALIZED, h)
      else (Inr (int (length (filter (\<lambda>x. x \<noteq> nullptr) (g_xstreams h)))), h))"

definition ABT_xstream_is_primary :: "ptr \<Rightarrow> 'a abt \<Rightarrow> (bool, 'a abt) api" where
  "ABT_xstream_is_primary xstream h = with_xstream xstream (\<lambda>x. (Inr (x_primary h x), h)) h"

definition ABT_xstream_check_events :: "'a abt_env \<Rightarrow> ptr \<Rightarrow> 'a abt \<Rightarrow> (unit, 'a abt) api" where
  "ABT_xstream_check_events E sched h =
     (Inr (), if CmiIsPeThread E \<and> tls_runner h \<noteq> nullptr \<and> tls_runner h = CthSelf E then rt CsdSchedulePoll h else h)"


subsection \<open>Binding to CPUs\<close>

definition CPU_SETSIZE :: int where "CPU_SETSIZE = 1024"

definition cpu_usable :: "int set option \<Rightarrow> int \<Rightarrow> bool" where
  "cpu_usable allowed c \<longleftrightarrow> 0 \<le> c \<and> c < CPU_SETSIZE \<and> (case allowed of None \<Rightarrow> False | Some A \<Rightarrow> c \<in> A)"

definition ABT_xstream_set_cpubind :: "bool \<Rightarrow> int set option \<Rightarrow> ptr \<Rightarrow> int \<Rightarrow> 'a abt \<Rightarrow> (unit, 'a abt) api" where
  "ABT_xstream_set_cpubind na allowed xstream cpuid h =
     with_xstream xstream (\<lambda>x.
       if na then (Inl ABT_ERR_FEATURE_NA, h)
       else if \<not> cpu_usable allowed cpuid then (Inl ABT_ERR_OTHER, h)
       else let h1 = h\<lparr>x_cpubind := (x_cpubind h)(x := cpuid)\<rparr>
            in (Inr (), rt (AffinityMsg (x_rank h1 x) x cpuid) h1)) h"

text \<open>The thread whose affinity is asked: recorded by the lease, else by the PE, else the caller itself.\<close>

definition xstream_pthread :: "'a abt_env \<Rightarrow> ptr \<Rightarrow> 'a abt \<Rightarrow> nat option" where
  "xstream_pthread E x h =
     (if x_thread_known h x then Some (x_thread h x)
      else if 0 \<le> x_rank h x \<and> x_rank h x < g_num_pes h \<and> g_pe_thread_known h ! nat (x_rank h x)
      then Some (g_pe_threads h ! nat (x_rank h x))
      else if CmiIsPeThread E \<and> CmiMyRank E = x_rank h x then Some (pthread_self E) else None)"

definition ABTI_xstream_os_affinity :: "bool \<Rightarrow> (nat \<Rightarrow> int set option) \<Rightarrow> 'a abt_env \<Rightarrow> ptr \<Rightarrow> 'a abt \<Rightarrow> ABT_error + int list" where
  "ABTI_xstream_os_affinity na osaff E x h =
     (if na then Inl ABT_ERR_FEATURE_NA
      else case xstream_pthread E x h of None \<Rightarrow> Inl ABT_ERR_FEATURE_NA
      | Some t \<Rightarrow> (case osaff t of None \<Rightarrow> Inl ABT_ERR_FEATURE_NA
        | Some A \<Rightarrow> let out = filter (\<lambda>c. c \<in> A) [0..CPU_SETSIZE - 1]
                    in if out = [] then Inl ABT_ERR_FEATURE_NA else Inr out))"

definition ABT_xstream_get_cpubind :: "bool \<Rightarrow> (nat \<Rightarrow> int set option) \<Rightarrow> 'a abt_env \<Rightarrow> ptr \<Rightarrow> 'a abt \<Rightarrow> (int, 'a abt) api" where
  "ABT_xstream_get_cpubind na osaff E xstream h =
     with_xstream xstream (\<lambda>x.
       if na then (Inl ABT_ERR_FEATURE_NA, h)
       else if x_cpubind h x \<ge> 0 then (Inr (x_cpubind h x), h)
       else (case ABTI_xstream_os_affinity na osaff E x h of Inl e \<Rightarrow> (Inl e, h) | Inr cpus \<Rightarrow> (Inr (cpus ! 0), h))) h"

text \<open>\<open>cpuids\<close> are the contents of the caller's array; an array shorter than \<open>num_cpuids\<close> is \<open>None\<close>.\<close>

definition ABT_xstream_set_affinity :: "bool \<Rightarrow> int set option \<Rightarrow> ptr \<Rightarrow> int \<Rightarrow> int list \<Rightarrow> 'a abt \<Rightarrow> (unit, 'a abt) api option" where
  "ABT_xstream_set_affinity na allowed xstream num_cpuids cpuids h =
     with_xstream_opt xstream (\<lambda>x.
       if na then Some (Inl ABT_ERR_FEATURE_NA, h)
       else if length cpuids < nat num_cpuids then None
       else let cs = take (nat num_cpuids) cpuids;
                h1 = h\<lparr>x_affinity := (x_affinity h)(x := cs)\<rparr>
            in if num_cpuids > 0
               then case find (cpu_usable allowed) cs of
                      Some c \<Rightarrow> Some (ABT_xstream_set_cpubind na allowed xstream c h1)
                    | None \<Rightarrow> Some (ABT_xstream_set_cpubind na allowed xstream (cs ! 0) h1)
               else Some (Inr (), h1)) h"

text \<open>The output: what is written to the array, and the number of CPUs.\<close>

definition ABT_xstream_get_affinity :: "bool \<Rightarrow> (nat \<Rightarrow> int set option) \<Rightarrow> 'a abt_env \<Rightarrow> ptr \<Rightarrow> int \<Rightarrow> 'a abt \<Rightarrow>
    (int list \<times> int, 'a abt) api" where
  "ABT_xstream_get_affinity na osaff E xstream max_cpuids h =
     with_xstream xstream (\<lambda>x.
       if na then (Inl ABT_ERR_FEATURE_NA, h)
       else case (if x_affinity h x \<noteq> [] then Inr (x_affinity h x) else ABTI_xstream_os_affinity na osaff E x h) of
              Inl e \<Rightarrow> (Inl e, h)
            | Inr cpus \<Rightarrow> (Inr (take (nat max_cpuids) cpus, int (length cpus)), h)) h"

definition ABT_xstream_run_unit :: "'a abt_env \<Rightarrow> ptr \<Rightarrow> ptr \<Rightarrow> 'a abt \<Rightarrow> (unit, 'a abt) api option" where
  "ABT_xstream_run_unit E unit pool h =
     (case ABT_unit_get_thread unit h of (Inl e, h1) \<Rightarrow> Some (Inl e, h1)
      | (Inr th, h1) \<Rightarrow>
        let t = ABTI_obj th
        in if ABTI_is_null_handle t then Some (Inl ABT_ERR_INV_UNIT, h1)
           else do { h2 \<leftarrow> ABTI_pool_run_thread E t h1; Some (Inr (), h2) })"

end
