(* ===== verification/Xstream_Life.thy ===== *)
theory Xstream_Life
  imports Xstream
begin

section \<open>The life of an execution stream\<close>

text \<open>
  Which PE a stream gets, the consistency of the slot table, ranks and schedulers over every sequence
  of creations, scheduler changes, completed joins and frees; that a suspending thread which switches
  to the next unit itself loses none; and when the idle hook gives a PE back.
\<close>


subsection \<open>Ranks\<close>

lemma find_upto:
  "find P [a..b] = Some r \<Longrightarrow> a \<le> r \<and> r \<le> b \<and> P r \<and> (\<forall>q. a \<le> q \<and> q < r \<longrightarrow> \<not> P q)"
proof (induction a b rule: upto.induct)
  case (1 a b)
  show ?case
  proof (cases "a \<le> b \<and> \<not> P a")
    case True
    then have "find P [a + 1..b] = Some r" using "1.prems" by (simp add: upto_rec1)
    with 1 True have ih: "a + 1 \<le> r \<and> r \<le> b \<and> P r \<and> (\<forall>q. a + 1 \<le> q \<and> q < r \<longrightarrow> \<not> P q)" by blast
    moreover have "a \<le> q \<longleftrightarrow> q = a \<or> a + 1 \<le> q" for q by linarith
    ultimately show ?thesis using True by auto
  qed (use "1.prems" in \<open>cases "a \<le> b"; auto simp: upto_rec1 split: if_splits\<close>)
qed

lemma find_upto_None: "find P [a..b] = None \<longleftrightarrow> (\<forall>q. a \<le> q \<and> q \<le> b \<longrightarrow> \<not> P q)"
  by (auto simp: find_None_iff)

lemma filter_update_length:
  "i < length xs \<Longrightarrow> length (filter P (xs[i := y])) + (if P (xs ! i) then 1 else 0) = length (filter P xs) + (if P y then 1 else 0)"
proof (induction xs arbitrary: i)
  case (Cons x xs)
  then show ?case by (cases i) (simp_all split: if_splits)
qed simp

text \<open>
  C18. A lease takes a PE in range and never one in use: the rank of the new stream is at least 1 (PE 0 is
  the primary's) and below the number of PEs, its slot was free, it is the wanted rank if one was
  named and otherwise the lowest free one; exactly this slot changes and the number of streams grows
  by one.  The call fails, without changing anything, only if the wanted rank is 0, out of range or
  taken, or if every PE but the primary's is taken.
\<close>

theorem lease_rank_bounds:
  assumes "length (g_xstreams h) = nat (g_num_pes h)" "is_obj x" "g_initialized h"
  shows "case ABTI_xstream_lease x s w h of
      (Inr x', h') \<Rightarrow> x' = x \<and> (\<exists>r. x_rank h' x = r \<and> 1 \<le> r \<and> r < g_num_pes h \<and> g_xstreams h ! nat r = nullptr \<and>
        g_xstreams h' = (g_xstreams h)[nat r := x] \<and> (w \<ge> 0 \<longrightarrow> r = w) \<and>
        (w < 0 \<longrightarrow> (\<forall>q. 1 \<le> q \<and> q < r \<longrightarrow> g_xstreams h ! nat q \<noteq> nullptr))) \<and>
        (\<exists>n. ABT_xstream_get_num h = (Inr n, h) \<and> ABT_xstream_get_num h' = (Inr (n + 1), h'))
    | (Inl e, h') \<Rightarrow> e = ABT_ERR_INV_XSTREAM_RANK \<and> h' = h \<and>
        (if w < 0 then \<forall>q. 1 \<le> q \<and> q < g_num_pes h \<longrightarrow> g_xstreams h ! nat q \<noteq> nullptr
         else w = 0 \<or> w \<ge> g_num_pes h \<or> g_xstreams h ! nat w \<noteq> nullptr)"
proof (cases "lease_rank w h")
  case None
  then show ?thesis by (auto simp: ABTI_xstream_lease_def lease_rank_def find_upto_None split: if_splits)
next
  case (Some r)
  then have r: "1 \<le> r" "r < g_num_pes h" "g_xstreams h ! nat r = nullptr" "w \<ge> 0 \<longrightarrow> r = w"
    "w < 0 \<longrightarrow> (\<forall>q. 1 \<le> q \<and> q < r \<longrightarrow> g_xstreams h ! nat q \<noteq> nullptr)"
    by (auto simp: lease_rank_def dest!: find_upto split: if_splits)
  have "nat r < length (g_xstreams h)" using assms(1) r by simp
  from filter_update_length [OF this, of "\<lambda>x. x \<noteq> nullptr" x]
  have "length (filter (\<lambda>x. x \<noteq> nullptr) ((g_xstreams h)[nat r := x])) = length (filter (\<lambda>x. x \<noteq> nullptr) (g_xstreams h)) + 1"
    using r(3) assms(2) by simp
  then show ?thesis using Some r assms(3)
    by (simp add: ABTI_xstream_lease_def xstream_new_def ABT_xstream_get_num_def)
qed

theorem lease_rank_bounds_witness:
  "ABTI_xstream_lease 4096 2048 (-1) ((abt_of heap3)\<lparr>g_xstreams := [768, 1024, nullptr, nullptr]\<rparr>) =
     (Inr 4096, xstream_new 4096 2 2048 False ((abt_of heap3)\<lparr>g_xstreams := [768, 1024, nullptr, nullptr]\<rparr>)) \<and>
   (\<exists>r. x_rank (snd (ABTI_xstream_lease 4096 2048 (-1) ((abt_of heap3)\<lparr>g_xstreams := [768, 1024, nullptr, nullptr]\<rparr>))) 4096 = r \<and> 1 \<le> r \<and> r < 4)"
proof -
  let ?h = "(abt_of heap3)\<lparr>g_xstreams := [768, 1024, nullptr, nullptr]\<rparr>"
  have n: "g_num_pes ?h = 4" by (simp add: abt_of_def pool_heap.defs abt_heap.defs)
  have l: "ABTI_xstream_lease 4096 2048 (-1) ?h = (Inr 4096, xstream_new 4096 2 2048 False ?h)"
    unfolding ABTI_xstream_lease_def lease_rank_def n by (simp add: upto_rec1)
  have "length (g_xstreams ?h) = nat (g_num_pes ?h)" unfolding n by simp
  from lease_rank_bounds [OF this, where x = 4096 and s = 2048 and w = "-1"] show ?thesis
    unfolding l n by (auto simp: heap3_more ABTI_is_null_handle_def)
qed


subsection \<open>Streams, ranks and schedulers stay consistent\<close>

text \<open>The fields that tie streams to slots and schedulers, and what foreign code must leave alone.\<close>

definition stream_part :: "'a abt \<Rightarrow> _" where
  "stream_part h = (g_xstreams h, g_num_pes h, x_rank h, x_main_sched h, x_finished h, x_primary h, s_used_by h)"

definition callbacks_keep :: "'a abt_env \<Rightarrow> bool" where
  "callbacks_keep E \<longleftrightarrow>
     (\<forall>f a h. stream_part (call_s_free E f a h) = stream_part h \<and> stream_part (call_p_free E f a h) = stream_part h \<and>
        stream_part (call_u_free E f a h) = stream_part h \<and> stream_part (snd (call_u_create E f a h)) = stream_part h) \<and>
     (\<forall>j h b h'. CthAwakenIfBlocked E j h = Some (b, h') \<longrightarrow> stream_part h' = stream_part h)"

text \<open>
  The slots: a stream in slot \<open>r\<close> has the rank \<open>r\<close>, and the primary is the one in slot 0.  The schedulers:
  the main scheduler of a stream that has not finished names this stream.
\<close>

definition slots_wf :: "'a abt \<Rightarrow> bool" where
  "slots_wf h \<longleftrightarrow>
     length (g_xstreams h) = nat (g_num_pes h) \<and>
     (\<forall>r<length (g_xstreams h). let x = g_xstreams h ! r in
        x \<noteq> nullptr \<longrightarrow> x_rank h x = int r \<and> (x_primary h x \<longleftrightarrow> r = 0))"

definition running :: "'a abt \<Rightarrow> ptr set" where
  "running h = {x \<in> set (g_xstreams h). x \<noteq> nullptr \<and> \<not> x_finished h x}"

definition scheds_wf :: "'a abt \<Rightarrow> bool" where
  "scheds_wf h \<longleftrightarrow> (\<forall>x\<in>running h. x_main_sched h x \<noteq> nullptr \<and> s_used_by h (x_main_sched h x) = x)"

lemma streams_cong:
  assumes "stream_part h' = stream_part h"
  shows "slots_wf h' = slots_wf h" "scheds_wf h' = scheds_wf h"
  using assms by (simp_all add: stream_part_def slots_wf_def scheds_wf_def running_def)

lemma stream_part_sel [simp]:
  "stream_part (h\<lparr>live := a\<rparr>) = stream_part h" "stream_part (h\<lparr>p_num_scheds := b\<rparr>) = stream_part h"
  "stream_part (h\<lparr>t_unit := c\<rparr>) = stream_part h" "stream_part (h\<lparr>t_pool := d\<rparr>) = stream_part h"
  "stream_part (h\<lparr>g_units := e\<rparr>) = stream_part h" "stream_part (h\<lparr>s_pools := f\<rparr>) = stream_part h"
  "stream_part (h\<lparr>s_req_exit := g\<rparr>) = stream_part h" "stream_part (h\<lparr>s_runner := i\<rparr>) = stream_part h"
  "stream_part (h\<lparr>x_state := j\<rparr>) = stream_part h" "stream_part (h\<lparr>x_joiners := k\<rparr>) = stream_part h"
  "stream_part (rt l h) = stream_part h"
  by (simp_all add: stream_part_def)

lemma pool_destroy_part: "callbacks_keep E \<Longrightarrow> stream_part (ABTI_pool_destroy E p h) = stream_part h"
  by (simp add: ABTI_pool_destroy_def callbacks_keep_def Let_def)

lemma release_pools_part: "callbacks_keep E \<Longrightarrow> stream_part (release_pools E ps h) = stream_part h"
  by (induction ps arbitrary: h) (auto simp: Let_def pool_destroy_part)

lemma sched_destroy_part: "callbacks_keep E \<Longrightarrow> stream_part (ABTI_sched_destroy E s h) = stream_part h"
  by (simp add: ABTI_sched_destroy_def Let_def release_pools_part) (simp add: callbacks_keep_def)

lemma disassociate_part: "callbacks_keep E \<Longrightarrow> stream_part (ABTI_pool_disassociate E t h) = stream_part h"
  by (simp add: ABTI_pool_disassociate_def Let_def) (simp add: callbacks_keep_def)

lemma associate_part:
  assumes "callbacks_keep E" "ABTI_pool_associate E t p h = Some h'"
  shows "stream_part h' = stream_part h"
proof -
  have "stream_part h3 = stream_part h2" if "call_u_create E f a h2 = (u, h3)" for f a h2 u h3
    using assms(1) that unfolding callbacks_keep_def by (metis snd_conv)
  then show ?thesis using assms(2) disassociate_part [OF assms(1), of t h]
    by (auto simp: ABTI_pool_associate_def Let_def split: if_splits prod.splits)
qed

lemma awaken_all_part: "callbacks_keep E \<Longrightarrow> awaken_all E js h = Some h' \<Longrightarrow> stream_part h' = stream_part h"
proof (induction js arbitrary: h)
  case (Cons j js)
  from Cons.prems(2) obtain b h1 where h1: "CthAwakenIfBlocked E j h = Some (b, h1)" "awaken_all E js h1 = Some h'"
    by (auto split: bind_splits)
  have "stream_part h1 = stream_part h" using Cons.prems(1) h1(1) unfolding callbacks_keep_def by blast
  then show ?case using Cons.IH [OF Cons.prems(1) h1(2)] by simp
qed simp

lemma create_builtin_part: "stream_part (ABTI_pool_create_builtin p k a b h) = stream_part h"
  by (simp add: ABTI_pool_create_builtin_def fresh_id_def pool_new_def pool_queue_init_def Let_def stream_part_def)

lemma create_pools_part: "stream_part (create_pools k ps h) = stream_part h"
  by (induction ps arbitrary: h) (simp_all add: create_builtin_part)

lemma sched_create_default:
  "ABTI_sched_create_predef s news 0 0 None h = Some (r, h') \<Longrightarrow>
   r = Inr s \<and> stream_part h' = stream_part (h\<lparr>s_used_by := (s_used_by h)(s := nullptr)\<rparr>)"
  by (auto simp: ABTI_sched_create_predef_def ABT_sched_predef_of_def Let_def inc_scheds_eq create_pools_part)
     (simp add: sched_new_def stream_part_def)

text \<open>
  The steps that change the part, each by the PE whose environment is \<open>E\<close>: create a stream (at a new
  address, with a scheduler at a new address if none is given), create a scheduler, replace the main
  scheduler of a stream, release a PE (the release handler), free a stream that has been joined, and
  anything that leaves the part alone.  A new address is not that of a scheduler which a running stream has.
  With \<open>strict\<close>, a stream that has finished is neither given another scheduler nor released again once
  another stream has taken over its scheduler; without it, the steps are all those of the code.
\<close>

definition sched_kept :: "'a abt \<Rightarrow> ptr \<Rightarrow> bool" where
  "sched_kept h x \<longleftrightarrow> \<not> x_finished h x \<or> s_used_by h (x_main_sched h x) \<in> {nullptr, x}"

inductive stream_step :: "bool \<Rightarrow> 'a abt \<Rightarrow> 'a abt \<Rightarrow> bool" for strict where
  step_create: "is_obj x \<Longrightarrow> x \<notin> set (g_xstreams h) \<Longrightarrow> is_obj s \<Longrightarrow> s \<notin> x_main_sched h ` running h \<Longrightarrow>
    xstream_create_any x s news sched w h = Some (r, h') \<Longrightarrow> stream_step strict h h'"
| step_new_sched: "s \<notin> x_main_sched h ` running h \<Longrightarrow>
    stream_part h' = stream_part (h\<lparr>s_used_by := (s_used_by h)(s := nullptr)\<rparr>) \<Longrightarrow> stream_step strict h h'"
| step_set_main_sched: "callbacks_keep E \<Longrightarrow> ABTI_obj xstream \<in> set (g_xstreams h) \<Longrightarrow> (strict \<Longrightarrow> sched_kept h (ABTI_obj xstream)) \<Longrightarrow>
    ABT_xstream_set_main_sched E cth xstream sched h = Some (r, h') \<Longrightarrow> stream_step strict h h'"
| step_release: "callbacks_keep E \<Longrightarrow> x \<in> set (g_xstreams h) \<Longrightarrow> x \<noteq> nullptr \<Longrightarrow> (strict \<Longrightarrow> sched_kept h x) \<Longrightarrow>
    release_handler E x h = Some h' \<Longrightarrow> stream_step strict h h'"
| step_free: "callbacks_keep E \<Longrightarrow> x \<in> set (g_xstreams h) \<Longrightarrow> x \<noteq> nullptr \<Longrightarrow> x_finished h x \<Longrightarrow> \<not> x_primary h x \<Longrightarrow>
    stream_step strict h (xstream_delete E x h)"
| step_other: "stream_part h' = stream_part h \<Longrightarrow> stream_step strict h h'"

text \<open>After \<^verbatim>\<open>ABT_init\<close>: the primary stream is in slot 0, every other slot is free.\<close>

definition stream_init :: "'a abt \<Rightarrow> bool" where
  "stream_init h \<longleftrightarrow> (\<exists>x s. x \<noteq> nullptr \<and> s \<noteq> nullptr \<and> 2 \<le> g_num_pes h \<and>
     g_xstreams h = (replicate (nat (g_num_pes h)) nullptr)[0 := x] \<and> x_rank h x = 0 \<and> x_primary h x \<and> \<not> x_finished h x \<and>
     x_main_sched h x = s \<and> s_used_by h = (\<lambda>_. nullptr)(s := x))"

lemma stream_init_wf: "stream_init h \<Longrightarrow> slots_wf h \<and> scheds_wf h"
  unfolding stream_init_def
proof (elim exE conjE)
  fix x s assume s: "s \<noteq> nullptr" and a: "x \<noteq> nullptr" "2 \<le> g_num_pes h"
    "g_xstreams h = (replicate (nat (g_num_pes h)) nullptr)[0 := x]" "x_rank h x = 0" "x_primary h x" "\<not> x_finished h x"
    "x_main_sched h x = s" "s_used_by h = (\<lambda>_. nullptr)(s := x)"
  have "y = nullptr \<or> y = x" if "y \<in> set (g_xstreams h)" for y
    using that set_update_subset_insert [of "replicate (nat (g_num_pes h)) nullptr" 0 x] unfolding a(3) by auto
  then show "slots_wf h \<and> scheds_wf h" using s a by (auto simp: slots_wf_def scheds_wf_def running_def Let_def nth_list_update)
qed

lemma wf_rank:
  assumes "slots_wf h" "x \<in> set (g_xstreams h)" "x \<noteq> nullptr"
  shows "0 \<le> x_rank h x" "x_rank h x < g_num_pes h" "g_xstreams h ! nat (x_rank h x) = x"
    "nat (x_rank h x) < length (g_xstreams h)" "x_primary h x \<longleftrightarrow> x_rank h x = 0"
proof -
  obtain r where r: "r < length (g_xstreams h)" "g_xstreams h ! r = x" using assms(2) by (auto simp: in_set_conv_nth)
  with assms(1,3) have "x_rank h x = int r" "x_primary h x \<longleftrightarrow> r = 0" "length (g_xstreams h) = nat (g_num_pes h)"
    unfolding slots_wf_def Let_def by auto
  with r show "0 \<le> x_rank h x" "x_rank h x < g_num_pes h" "g_xstreams h ! nat (x_rank h x) = x"
    "nat (x_rank h x) < length (g_xstreams h)" "x_primary h x \<longleftrightarrow> x_rank h x = 0" by auto
qed

lemma wf_slot: "slots_wf h \<Longrightarrow> i < length (g_xstreams h) \<Longrightarrow> g_xstreams h ! i \<noteq> nullptr \<Longrightarrow>
    x_rank h (g_xstreams h ! i) = int i \<and> (x_primary h (g_xstreams h ! i) \<longleftrightarrow> i = 0)"
  by (simp add: slots_wf_def Let_def)

lemma slotsI:
  assumes "length (g_xstreams h) = nat (g_num_pes h)"
    "\<And>i. i < length (g_xstreams h) \<Longrightarrow> g_xstreams h ! i \<noteq> nullptr \<Longrightarrow> x_rank h (g_xstreams h ! i) = int i \<and> (x_primary h (g_xstreams h ! i) \<longleftrightarrow> i = 0)"
  shows "slots_wf h"
  using assms by (simp add: slots_wf_def Let_def)

lemma wf_main: "scheds_wf h \<Longrightarrow> x \<in> running h \<Longrightarrow> x_main_sched h x \<noteq> nullptr \<and> s_used_by h (x_main_sched h x) = x"
  by (simp add: scheds_wf_def)

lemma wf_free: "scheds_wf h \<Longrightarrow> s_used_by h s = nullptr \<Longrightarrow> s \<notin> x_main_sched h ` running h"
  by (auto simp: scheds_wf_def running_def)

text \<open>What each operation does to the part.\<close>

lemma lease_part:
  "lease_and_install x s w h = (r, h') \<Longrightarrow>
   h' = h \<or> (\<exists>k. lease_rank w h = Some k \<and> stream_part h' = stream_part (xstream_new x k s False h))"
  by (auto simp: lease_and_install_def ABTI_xstream_lease_def ABTI_xstream_install_def Let_def split: option.splits)

lemma create_part:
  assumes "xstream_create_any x s news sched w h = Some (r, h')" "is_obj s"
  shows "h' = h \<or> (\<exists>u h1 r1. u \<noteq> nullptr \<and> (if ABTI_obj sched = nullptr then u = s else u = ABTI_obj sched \<and> s_used_by h u = nullptr) \<and>
    stream_part h1 = stream_part (h\<lparr>s_used_by := (s_used_by h)(u := nullptr)\<rparr>) \<and> lease_and_install x u w h1 = (r1, h'))"
proof (cases "ABTI_obj sched = nullptr")
  case False
  show ?thesis
  proof (cases "s_used_by h (ABTI_obj sched) = nullptr")
    case True
    then have "stream_part h = stream_part (h\<lparr>s_used_by := (s_used_by h)(ABTI_obj sched := nullptr)\<rparr>)"
      by (simp add: stream_part_def fun_upd_idem)
    then show ?thesis using assms(1) False True by (intro disjI2 exI [of _ "ABTI_obj sched"] exI [of _ h]) (auto simp: xstream_create_any_def)
  qed (use assms(1) False in \<open>simp add: xstream_create_any_def\<close>)
next
  case True
  then obtain r1 h1 where h1: "ABTI_sched_create_predef s news 0 0 None h = Some (r1, h1)"
    "(case r1 of Inl e \<Rightarrow> Some (Inl e, h1) | Inr s1 \<Rightarrow> Some (lease_and_install x s1 w h1)) = Some (r, h')"
    using assms(1) by (auto simp: xstream_create_any_def split: bind_splits)
  then show ?thesis using sched_create_default [OF h1(1)] True assms(2)
    by (intro disjI2 exI [of _ s] exI [of _ h1]) (auto simp: ABTI_is_null_handle_def)
qed

lemma set_main_sched_part:
  assumes keep: "callbacks_keep E" and run: "ABT_xstream_set_main_sched E cth xstream sched h = Some (r, h')"
  shows "h' = h \<or> (is_obj (ABTI_obj xstream) \<and> is_obj (ABTI_obj sched) \<and> s_used_by h (ABTI_obj sched) \<in> {nullptr, ABTI_obj xstream} \<and>
    x_main_sched h (ABTI_obj xstream) \<noteq> ABTI_obj sched \<and> stream_part h' = stream_part (main_sched_links (ABTI_obj xstream) (ABTI_obj sched) h))"
proof -
  let ?x = "ABTI_obj xstream" and ?s = "ABTI_obj sched" and ?old = "x_main_sched h (ABTI_obj xstream)"
  let ?h1 = "main_sched_links ?x ?s h"
  show ?thesis
  proof (cases "g_initialized h \<and> is_obj ?x \<and> is_obj ?s \<and> (s_used_by h ?s = nullptr \<or> s_used_by h ?s = ?x) \<and> ?old \<noteq> ?s")
    case False
    then show ?thesis using run by (auto simp: ABT_xstream_set_main_sched_def with_xstream_opt_def Let_def split: if_splits)
  next
    case True
    have n: "\<not> (s_used_by h ?s \<noteq> nullptr \<and> s_used_by h ?s \<noteq> ?x)" using True by auto
    have "ABT_xstream_set_main_sched E cth xstream sched h =
        do { h2 \<leftarrow> main_sched_move_caller E ?s ?old (main_sched_switch E cth ?x ?s ?old ?h1);
             Some (Inr (), if ?old \<noteq> nullptr \<and> s_automatic h2 ?old then ABTI_sched_destroy E ?old h2 else h2) }"
      using True unfolding ABT_xstream_set_main_sched_def with_xstream_opt_def Let_def if_not_P [OF n] by simp
    then obtain h2 where h2: "main_sched_move_caller E ?s ?old (main_sched_switch E cth ?x ?s ?old ?h1) = Some h2"
      "h' = (if ?old \<noteq> nullptr \<and> s_automatic h2 ?old then ABTI_sched_destroy E ?old h2 else h2)"
      using run by (cases "main_sched_move_caller E ?s ?old (main_sched_switch E cth ?x ?s ?old ?h1)") simp_all
    have "stream_part (main_sched_switch E cth ?x ?s ?old ?h1) = stream_part ?h1"
      by (simp add: main_sched_switch_def ABTI_start_runner_def Let_def)
    moreover have "stream_part h2 = stream_part (main_sched_switch E cth ?x ?s ?old ?h1)"
      using h2(1) associate_part [OF keep] by (auto simp: main_sched_move_caller_def Let_def split: if_splits)
    ultimately show ?thesis using True h2(2) sched_destroy_part [OF keep] by simp
  qed
qed

lemma release_part:
  assumes "callbacks_keep E" "release_handler E x h = Some h'"
  shows "stream_part h' = stream_part (h\<lparr>s_used_by := (s_used_by h)(x_main_sched h x := nullptr), x_finished := (x_finished h)(x := True)\<rparr>)"
  using awaken_all_part [OF assms(1)] assms(2) by (auto simp: release_handler_def Let_def stream_part_def)

lemma delete_part:
  assumes "callbacks_keep E"
  shows "stream_part (xstream_delete E x h) = stream_part (h\<lparr>g_xstreams := (g_xstreams h)[nat (x_rank h x) := nullptr]\<rparr>)"
  using sched_destroy_part [OF assms, of "x_main_sched h x" h] by (auto simp: xstream_delete_def Let_def stream_part_def)

text \<open>Each operation keeps the slots, and the schedulers if it respects the rule.\<close>

lemma new_slots:
  assumes "slots_wf h" "x \<notin> set (g_xstreams h)" "lease_rank w h = Some k"
  shows "slots_wf (xstream_new x k s False h)"
proof -
  have k: "1 \<le> k" using assms(3) by (auto simp: lease_rank_def dest!: find_upto split: if_splits)
  show ?thesis
  proof (rule slotsI)
    fix i assume "i < length (g_xstreams (xstream_new x k s False h))" "g_xstreams (xstream_new x k s False h) ! i \<noteq> nullptr"
    then show "x_rank (xstream_new x k s False h) (g_xstreams (xstream_new x k s False h) ! i) = int i \<and>
        (x_primary (xstream_new x k s False h) (g_xstreams (xstream_new x k s False h) ! i) \<longleftrightarrow> i = 0)"
      using k assms(2) wf_slot [OF assms(1), of i] nth_mem [of i "g_xstreams h"] by (cases "nat k = i") (auto simp: xstream_new_def)
  qed (use assms(1) in \<open>simp add: slots_wf_def xstream_new_def\<close>)
qed

lemma new_scheds:
  assumes wf: "scheds_wf h" and "x \<notin> set (g_xstreams h)" "s \<noteq> nullptr" "s \<notin> x_main_sched h ` running h"
  shows "scheds_wf (xstream_new x k s False h)"
proof -
  have "y = x \<or> y \<in> running h \<and> y \<noteq> x" if "y \<in> running (xstream_new x k s False h)" for y
    using that set_update_subset_insert [of "g_xstreams h" "nat k" x] assms(2) by (auto simp: running_def xstream_new_def split: if_splits)
  moreover have "x_main_sched h y \<noteq> s" if "y \<in> running h" for y using that assms(4) by blast
  ultimately show ?thesis using wf_main [OF wf] assms(3)
    unfolding scheds_wf_def [of "xstream_new x k s False h"] by (fastforce simp: xstream_new_def)
qed

lemma unused_scheds:
  assumes "scheds_wf h" "s \<notin> x_main_sched h ` running h"
  shows "scheds_wf (h\<lparr>s_used_by := (s_used_by h)(s := nullptr)\<rparr>)"
  using assms by (auto simp: scheds_wf_def running_def)

lemma create_wf:
  assumes "xstream_create_any x s news sched w h = Some (r, h')" "is_obj s" "x \<notin> set (g_xstreams h)" and wf: "slots_wf h"
  shows "slots_wf h' \<and> (scheds_wf h \<and> s \<notin> x_main_sched h ` running h \<longrightarrow> scheds_wf h')"
  using create_part [OF assms(1,2)]
proof (elim disjE exE conjE)
  fix u h1 r1 assume u: "u \<noteq> nullptr" "if ABTI_obj sched = nullptr then u = s else u = ABTI_obj sched \<and> s_used_by h u = nullptr"
    and p: "stream_part h1 = stream_part (h\<lparr>s_used_by := (s_used_by h)(u := nullptr)\<rparr>)" and l: "lease_and_install x u w h1 = (r1, h')"
  have sl: "slots_wf h1" using wf p by (simp add: slots_wf_def stream_part_def)
  have nx: "x \<notin> set (g_xstreams h1)" and run: "x_main_sched h1 ` running h1 = x_main_sched h ` running h"
    using p assms(3) by (simp_all add: stream_part_def running_def)
  have sc: "scheds_wf h1 \<and> u \<notin> x_main_sched h1 ` running h1" if "scheds_wf h \<and> s \<notin> x_main_sched h ` running h"
  proof -
    have "u \<notin> x_main_sched h ` running h" using that u(2) wf_free [of h u] by (auto split: if_splits)
    then show ?thesis using that unused_scheds [of h u] streams_cong(2) [OF p] run by simp
  qed
  from lease_part [OF l] show ?thesis
  proof (elim disjE exE conjE)
    fix k assume k: "lease_rank w h1 = Some k" "stream_part h' = stream_part (xstream_new x k u False h1)"
    show ?thesis using new_slots [OF sl nx k(1)] new_scheds [OF _ nx u(1)] sc streams_cong [OF k(2)] by blast
  qed (use sl sc in blast)
qed (use wf in blast)

lemma links_wf:
  assumes x: "x \<noteq> nullptr" and s: "s \<noteq> nullptr" "s_used_by h s \<in> {nullptr, x}" "x_main_sched h x \<noteq> s"
  shows "slots_wf (main_sched_links x s h) = slots_wf h"
    "scheds_wf h \<Longrightarrow> x \<in> set (g_xstreams h) \<Longrightarrow> sched_kept h x \<Longrightarrow> scheds_wf (main_sched_links x s h)"
proof -
  let ?old = "x_main_sched h x" and ?g = "main_sched_links x s h"
  show "slots_wf ?g = slots_wf h" by (simp add: slots_wf_def main_sched_links_def Let_def)
  assume wf: "scheds_wf h" and m: "x \<in> set (g_xstreams h)" and k: "sched_kept h x"
  have run: "running ?g = running h" by (simp add: running_def main_sched_links_def Let_def)
  have u: "s_used_by h ?old \<in> {nullptr, x}" using k wf_main [OF wf, of x] m x by (auto simp: sched_kept_def running_def)
  show "scheds_wf ?g" unfolding scheds_wf_def run
  proof (intro ballI)
    fix y assume y: "y \<in> running h"
    have sel: "x_main_sched ?g = (x_main_sched h)(x := s)" "s_used_by ?g v = (if v = ?old \<and> ?old \<noteq> nullptr then nullptr else if v = s then x else s_used_by h v)" for v
      by (simp_all add: main_sched_links_def Let_def)
    show "x_main_sched ?g y \<noteq> nullptr \<and> s_used_by ?g (x_main_sched ?g y) = y"
    proof (cases "y = x")
      case False
      have "s_used_by h (x_main_sched h y) = y" "x_main_sched h y \<noteq> nullptr" "y \<noteq> nullptr" using wf_main [OF wf y] y by (simp_all add: running_def)
      then have "x_main_sched h y \<noteq> s" "x_main_sched h y \<noteq> ?old" "x_main_sched h y \<noteq> nullptr" "s_used_by h (x_main_sched h y) = y"
        using u s(2) False by auto
      then show ?thesis using False unfolding sel by simp
    qed (use s in \<open>simp add: sel\<close>)
  qed
qed

lemma set_main_sched_wf:
  assumes "callbacks_keep E" "ABTI_obj xstream \<in> set (g_xstreams h)" "ABT_xstream_set_main_sched E cth xstream sched h = Some (r, h')"
  shows "slots_wf h' = slots_wf h" "scheds_wf h \<Longrightarrow> sched_kept h (ABTI_obj xstream) \<Longrightarrow> scheds_wf h'"
proof -
  let ?x = "ABTI_obj xstream" and ?s = "ABTI_obj sched"
  from set_main_sched_part [OF assms(1,3)]
  have "(slots_wf h' = slots_wf h) \<and> (scheds_wf h \<and> sched_kept h ?x \<longrightarrow> scheds_wf h')"
  proof (elim disjE conjE)
    assume x: "is_obj ?x" "is_obj ?s" and u: "s_used_by h ?s \<in> {nullptr, ?x}" "x_main_sched h ?x \<noteq> ?s"
      and p: "stream_part h' = stream_part (main_sched_links ?x ?s h)"
    have "?x \<noteq> nullptr" "?s \<noteq> nullptr" using x by (auto simp: ABTI_is_null_handle_def)
    from links_wf [OF this u] show ?thesis unfolding streams_cong [OF p] using assms(2) by blast
  qed simp
  then show "slots_wf h' = slots_wf h" "scheds_wf h \<Longrightarrow> sched_kept h ?x \<Longrightarrow> scheds_wf h'" by blast+
qed

lemma release_wf:
  assumes "callbacks_keep E" "release_handler E x h = Some h'" "x \<in> set (g_xstreams h)" "x \<noteq> nullptr"
  shows "slots_wf h' = slots_wf h" "scheds_wf h \<Longrightarrow> sched_kept h x \<Longrightarrow> scheds_wf h'"
proof -
  note p = release_part [OF assms(1,2)]
  show "slots_wf h' = slots_wf h" using streams_cong(1) [OF p] by (simp add: slots_wf_def)
  assume wf: "scheds_wf h" and k: "sched_kept h x"
  have u: "s_used_by h (x_main_sched h x) \<in> {nullptr, x}" using k wf_main [OF wf, of x] assms(3,4) by (auto simp: sched_kept_def running_def)
  show "scheds_wf h'" unfolding streams_cong(2) [OF p] using wf u by (auto simp: scheds_wf_def running_def)
qed

lemma free_wf:
  assumes "callbacks_keep E"
  shows "slots_wf h \<Longrightarrow> slots_wf (xstream_delete E x h)" "scheds_wf h \<Longrightarrow> scheds_wf (xstream_delete E x h)"
proof -
  note p = streams_cong [OF delete_part [OF assms, of x h]]
  have sub: "set ((g_xstreams h)[nat (x_rank h x) := nullptr]) \<subseteq> insert nullptr (set (g_xstreams h))" by (rule set_update_subset_insert)
  let ?g = "h\<lparr>g_xstreams := (g_xstreams h)[nat (x_rank h x) := nullptr]\<rparr>"
  show "slots_wf (xstream_delete E x h)" if wf: "slots_wf h" unfolding p
  proof (rule slotsI)
    fix i assume "i < length (g_xstreams ?g)" "g_xstreams ?g ! i \<noteq> nullptr"
    then show "x_rank ?g (g_xstreams ?g ! i) = int i \<and> (x_primary ?g (g_xstreams ?g ! i) \<longleftrightarrow> i = 0)"
      using wf_slot [OF wf, of i] by (cases "nat (x_rank h x) = i") simp_all
  qed (use wf in \<open>simp add: slots_wf_def\<close>)
  show "scheds_wf h \<Longrightarrow> scheds_wf (xstream_delete E x h)" unfolding p using sub by (auto simp: scheds_wf_def running_def)
qed

lemma stream_step_slots: "slots_wf h \<Longrightarrow> stream_step strict h h' \<Longrightarrow> slots_wf h'"
proof (erule stream_step.cases, goal_cases)
  case 1 then show ?case using create_wf by blast
next
  case 2 then show ?case by (simp add: slots_wf_def stream_part_def)
next
  case 3 then show ?case using set_main_sched_wf(1) by blast
next
  case 4 then show ?case using release_wf(1) by blast
next
  case 5 then show ?case using free_wf(1) by blast
next
  case 6 then show ?case using streams_cong(1) by blast
qed

lemma stream_step_scheds: "slots_wf h \<Longrightarrow> scheds_wf h \<Longrightarrow> stream_step True h h' \<Longrightarrow> scheds_wf h'"
proof (erule stream_step.cases, goal_cases)
  case 1 then show ?case using create_wf by blast
next
  case 2 then show ?case using unused_scheds streams_cong(2) by blast
next
  case 3 then show ?case using set_main_sched_wf(2) by blast
next
  case 4 then show ?case using release_wf(2) by blast
next
  case 5 then show ?case using free_wf(2) by blast
next
  case 6 then show ?case using streams_cong(2) by blast
qed

interpretation slots: transition_system stream_init "stream_step strict" slots_wf for strict
  by unfold_locales (blast intro: stream_step_slots dest: stream_init_wf)+

interpretation scheds: transition_system stream_init "stream_step True" "\<lambda>h. slots_wf h \<and> scheds_wf h"
  by unfold_locales (blast intro: stream_step_slots stream_step_scheds dest: stream_init_wf)+


text \<open>A process with the primary stream 768 (scheduler 2048) creates the stream 4096 with a new scheduler at 2304.\<close>

definition primary_only :: abt_heap where
  "primary_only = (abt_of heap0)\<lparr>g_xstreams := [768, nullptr, nullptr, nullptr], x_primary := (\<lambda>_. False)(768 := True),
     x_main_sched := (\<lambda>_. nullptr)(768 := 2048), s_used_by := (\<lambda>_. nullptr)(2048 := 768)\<rparr>"

lemma primary_only_sel:
  "g_xstreams primary_only = [768, nullptr, nullptr, nullptr]" "g_num_pes primary_only = 4" "x_rank primary_only 768 = 0"
  "x_finished primary_only = (\<lambda>_. False)" "x_main_sched primary_only = (\<lambda>_. nullptr)(768 := 2048)" "x_primary primary_only 768"
  "s_used_by primary_only = (\<lambda>_. nullptr)(2048 := 768)" "g_initialized primary_only" "live primary_only = {}"
  by (simp_all add: primary_only_def abt_of_def pool_heap.defs abt_heap.defs heap0_def)

lemma primary_only_init: "stream_init primary_only"
proof -
  have r: "(replicate (nat 4) nullptr)[0 := 768] = [768, nullptr, nullptr, nullptr]" by (simp add: eval_nat_numeral)
  show ?thesis unfolding stream_init_def primary_only_sel
    by (intro exI [of _ 768] exI [of _ 2048]) (simp only: r primary_only_sel fun_upd_same, simp)
qed



text \<open>The same process, with schedulers of the user's that are not freed automatically.\<close>

definition with_own_scheds :: abt_heap where
  "with_own_scheds = primary_only\<lparr>s_automatic := (\<lambda>_. False), s_pools := (\<lambda>_. [])\<rparr>"

lemma own_scheds_init: "stream_init with_own_scheds"
  using primary_only_init by (simp add: with_own_scheds_def stream_init_def)

definition own_scheds :: "'a abt \<Rightarrow> bool" where
  "own_scheds h \<longleftrightarrow> g_initialized h \<and> s_automatic h = (\<lambda>_. False) \<and> s_pools h = (\<lambda>_. [])"

definition table :: "'a abt \<Rightarrow> _" where
  "table h = (g_xstreams h, g_num_pes h, x_main_sched h, x_finished h, s_used_by h)"

lemma create_given:
  assumes "is_obj x" "is_obj s" "own_scheds h" "table h = (T, n, M, F, U)" "U s = nullptr" "lease_rank w h = Some k"
  shows "\<exists>h'. xstream_create_any x s' news s w h = Some (Inr x, h') \<and> own_scheds h' \<and>
    table h' = (T[nat k := x], n, M(x := s), F(x := False), U(s := x))"
proof -
  let ?h = "ABTI_xstream_install x (xstream_new x k s False h)"
  have o: "own_scheds ?h" using assms(3) by (simp add: own_scheds_def ABTI_xstream_install_def xstream_new_def Let_def)
  have t: "table ?h = (T[nat k := x], n, M(x := s), F(x := False), U(s := x))"
    using assms(4) by (simp add: table_def ABTI_xstream_install_def xstream_new_def Let_def)
  have "s_used_by h s = nullptr" using assms(4,5) by (simp add: table_def)
  then have "xstream_create_any x s' news s w h = Some (Inr x, ?h)"
    using assms(1,2,6) by (auto simp: xstream_create_any_def lease_and_install_def ABTI_xstream_lease_def ABTI_handle_def ABTI_is_null_handle_def)
  with o t show ?thesis by blast
qed

lemma set_given:
  assumes "is_obj x" "is_obj s" "own_scheds h" "table h = (T, n, M, F, U)" "U s = nullptr" "M x \<noteq> s" "M x \<noteq> nullptr"
  shows "\<exists>h'. ABT_xstream_set_main_sched E cth x s h = Some (Inr (), h') \<and> own_scheds h' \<and>
    table h' = (T, n, M(x := s), F, U(s := x, M x := nullptr))"
proof -
  let ?h = "main_sched_switch E cth x s (x_main_sched h x) (main_sched_links x s h)"
  have o: "own_scheds ?h"
    using assms(3) by (simp add: own_scheds_def main_sched_switch_def main_sched_links_def ABTI_start_runner_def Let_def)
  then have m: "main_sched_move_caller E s (x_main_sched h x) ?h = Some ?h" by (simp add: main_sched_move_caller_def own_scheds_def)
  have t: "x_main_sched h = M" "s_used_by h = U" using assms(4) by (simp_all add: table_def)
  have "ABT_xstream_set_main_sched E cth x s h = Some (Inr (), ?h)"
    using assms(1,2,3,5,6) o m by (simp add: ABT_xstream_set_main_sched_def with_xstream_opt_def own_scheds_def t)
  moreover have "table ?h = (T, n, M(x := s), F, U(s := x, M x := nullptr))"
    using assms(4,7) by (auto simp: table_def main_sched_switch_def main_sched_links_def ABTI_start_runner_def Let_def)
  ultimately show ?thesis using o by blast
qed

lemma release_given:
  assumes "own_scheds h" "table h = (T, n, M, F, U)"
  shows "\<exists>h'. release_handler env0 x h = Some h' \<and> own_scheds h' \<and> table h' = (T, n, M, F(x := True), U(M x := nullptr))"
proof -
  have "awaken_all env0 js g = Some g" for js and g :: "'a abt" by (induction js) (simp_all add: env0_def)
  then show ?thesis using assms by (simp add: release_handler_def own_scheds_def table_def Let_def)
qed



subsection \<open>Switching to the next unit loses none\<close>

lemma choose_scheduler_sel [simp]:
  "fst (choose_scheduler E h) = CthGetSchedulingThread E"
  "pools_view (snd (choose_scheduler E h)) P L = pools_view h P L" "tls_held (snd (choose_scheduler E h)) = tls_held h"
  "tls_direct_count (snd (choose_scheduler E h)) = 0" "tls_last_chain (snd (choose_scheduler E h)) = tls_direct_count h"
  by (simp_all add: choose_scheduler_def)

lemma park_sel [simp]:
  "pools_view (park t h) P L = pools_view h P L" "tls_held (park t h) = t" "tls_direct_count (park t h) = tls_direct_count h"
  "t_cth (park t h) = t_cth h"
  by (simp_all add: park_def)

text \<open>What the runtime promises of \<^verbatim>\<open>CthClaimReady\<close>: a queued thread is ready, and claiming it changes nothing of the library.\<close>

definition claim_law :: "'a abt_env \<Rightarrow> bool" where
  "claim_law E \<longleftrightarrow> (\<forall>c s. \<exists>m. CthClaimReady E c s = (True, s\<lparr>abt_heap.more := m\<rparr>))"

lemma choose_popped_unit:
  assumes "t \<noteq> nullptr" "claim_law E"
  shows "\<exists>nxt h'. choose_popped E me xs t h = Some (nxt, h') \<and> (\<forall>P L. pools_view h' P L = pools_view h P L) \<and>
    (t_cth h t \<noteq> nullptr \<and> nxt = t_cth h t \<and> \<not> CthIsPeMainThread E nxt \<and> tls_held h' = tls_held h \<and>
       tls_direct_count h' = tls_direct_count h + 1 \<and>
       (tls_yielding h \<longrightarrow> t_pool h t = t_pool h me \<or>
          ABTI_pool_index (x_main_sched h xs) (t_pool h t) h \<le> ABTI_pool_index (x_main_sched h xs) (t_pool h me) h) \<or>
     nxt = CthGetSchedulingThread E \<and> tls_held h' = t \<and> tls_direct_count h' = 0 \<and> tls_last_chain h' = tls_direct_count h)"
proof -
  let ?s = "x_main_sched h xs"
  let ?lower = "tls_yielding h \<and> t_pool h t \<noteq> t_pool h me \<and> ABTI_pool_index ?s (t_pool h me) h < ABTI_pool_index ?s (t_pool h t) h"
  show ?thesis
  proof (cases "?lower \<or> (t_cth h t \<noteq> nullptr \<and> CthIsPeMainThread E (t_cth h t)) \<or> t_cth h t = nullptr")
    case True
    then have "choose_popped E me xs t h = Some (choose_scheduler E (park t h))"
      using assms(1) by (auto simp: choose_popped_def Let_def)
    then show ?thesis by (intro exI [of _ "fst (choose_scheduler E (park t h))"] exI [of _ "snd (choose_scheduler E (park t h))"]) (simp add: prod_eq_iff)
  next
    case False
    from assms(2) obtain m where m: "CthClaimReady E (t_cth h t) h = (True, h\<lparr>abt_heap.more := m\<rparr>)" unfolding claim_law_def by blast
    let ?h = "h\<lparr>abt_heap.more := m\<rparr>"
    let ?h' = "?h\<lparr>tls_direct_count := tls_direct_count ?h + 1, stat_direct := stat_direct ?h + 1,
      t_last_xstream := (t_last_xstream ?h)(t := xs), t_parent := (t_parent ?h)(t := nullptr)\<rparr>"
    have "choose_popped E me xs t h = Some (t_cth h t, ?h')"
      using False assms(1) m by (auto simp: choose_popped_def Let_def)
    moreover have "pools_view ?h' P L = pools_view h P L" for P L
      by (simp add: pools_view_def pools_rep_def pool_linked_def mpsc_def mpsc_chain_def dll_def)
    ultimately show ?thesis using False by (intro exI [of _ "t_cth h t"] exI [of _ ?h']) auto
  qed
qed

text \<open>
  C17. A suspending thread that may switch to the next unit itself (\<^verbatim>\<open>ABTI_choose_fn\<close>) loses no unit and
  cannot keep the scheduler away: control goes back to the thread that resumed it, if there is one;
  otherwise either no pool changes and the scheduler gets control, or the oldest unit of one of the
  scheduler's pools is taken out and is either switched to or parked for the scheduler, in a slot that
  was empty.  It is switched to only if it has a stack, is no main thread of a PE and, while the caller
  yields, does not come from a pool of lower priority.  The chain of direct switches never exceeds the
  configured length, and the scheduler always starts a new chain.
\<close>

theorem choose_fn_keeps_units:
  assumes "pools_view h P L" "set (s_pools h s) \<subseteq> P" "\<forall>p\<in>set (s_pools h s). \<forall>t\<in>set (L p). \<not> pinned_elsewhere E h t"
    "\<forall>h. random_value E h = r" "claim_law E"
    and s: "s = x_main_sched h (tls_xstream h)" and me: "me = cth_userdata h (CthSelf E)"
  shows "\<exists>nxt h'. ABTI_choose_fn E h = Some (nxt, h') \<and>
    (if me \<noteq> nullptr \<and> t_parent h me \<noteq> nullptr then nxt = t_parent h me \<and> h' = h
     else (nxt = CthGetSchedulingThread E \<and> pools_view h' P L \<and> tls_held h' = tls_held h \<and> tls_direct_count h' = 0 \<or>
       (\<exists>p t. p \<in> set (s_pools h s) \<and> L p \<noteq> [] \<and> t = hd (L p) \<and> pools_view h' P (L(p := tl (L p))) \<and> tls_held h = nullptr \<and>
         (nxt = t_cth h t \<and> nxt \<noteq> nullptr \<and> \<not> CthIsPeMainThread E nxt \<and> tls_held h' = nullptr \<and>
            tls_direct_count h' = tls_direct_count h + 1 \<and> tls_direct_count h' \<le> g_direct_burst h \<and>
            (tls_yielding h \<longrightarrow> t_pool h t = t_pool h me \<or> ABTI_pool_index s (t_pool h t) h \<le> ABTI_pool_index s (t_pool h me) h) \<or>
          nxt = CthGetSchedulingThread E \<and> tls_held h' = t \<and> tls_direct_count h' = 0))))"
proof (cases "(me \<noteq> nullptr \<and> t_parent h me \<noteq> nullptr) \<or> \<not> direct_ok me h")
  case True
  show ?thesis
  proof (cases "me \<noteq> nullptr \<and> t_parent h me \<noteq> nullptr")
    case p: True
    then have "ABTI_choose_fn E h = Some (t_parent h me, h)" unfolding ABTI_choose_fn_def me [symmetric] by simp
    then show ?thesis unfolding if_P [OF p] by blast
  next
    case p: False
    then have "ABTI_choose_fn E h = Some (CthGetSchedulingThread E, snd (choose_scheduler E h))"
      using True unfolding ABTI_choose_fn_def me [symmetric] by (auto simp: prod_eq_iff)
    then show ?thesis using assms(1) unfolding if_not_P [OF p]
      by (intro exI [of _ "CthGetSchedulingThread E"] exI [of _ "snd (choose_scheduler E h)"] conjI disjI1) simp_all
  qed
next
  case False
  then have d: "tls_held h = nullptr" "tls_direct_count h < g_direct_burst h" by (auto simp: direct_ok_def Let_def)
  have run: "ABTI_choose_fn E h = do { (t, h1) \<leftarrow> ABTI_sched_pop_by_policy E s h; choose_popped E me (tls_xstream h) t h1 }"
    using False unfolding ABTI_choose_fn_def me [symmetric] s Let_def by auto
  obtain h1 where h1: "case policy_pool (s_predef h s) (s_pools h s) r L of
      None \<Rightarrow> ABTI_sched_pop_by_policy E s h = Some (nullptr, h1) \<and> pools_view h1 P L
    | Some p \<Rightarrow> ABTI_sched_pop_by_policy E s h = Some (hd (L p), h1) \<and> pools_view h1 P (L(p := tl (L p))) \<and> \<not> t_in_pool h1 (hd (L p))"
    "qframe h h1" using pop_by_policy_view [OF assms(1-4)] by blast
  note f = qframe_sel [OF h1(2)] qframe_abt [OF h1(2)]
  show ?thesis
  proof (cases "policy_pool (s_predef h s) (s_pools h s) r L")
    case None
    then have "ABTI_choose_fn E h = Some (choose_scheduler E (h1\<lparr>stat_empty := stat_empty h1 + 1\<rparr>))"
      using h1(1) d(1) f unfolding run by (simp add: choose_popped_def)
    moreover have np: "\<not> (me \<noteq> nullptr \<and> t_parent h me \<noteq> nullptr)" using False by simp
    ultimately show ?thesis using None h1(1) d(1) f unfolding if_not_P [OF np]
      by (intro exI [of _ "CthGetSchedulingThread E"] exI [of _ "snd (choose_scheduler E (h1\<lparr>stat_empty := stat_empty h1 + 1\<rparr>))"] conjI disjI1)
         (simp_all add: prod_eq_iff)
  next
    case (Some p)
    then have p: "p \<in> set (s_pools h s)" "L p \<noteq> []" by (rule policy_pool_member)+
    then have t: "hd (L p) \<noteq> nullptr" using pools_view_nonnull [OF assms(1), of p] hd_nonnull [of "L p"] assms(2) by auto
    have idx: "ABTI_pool_index u q h1 = ABTI_pool_index u q h" for u q using f by (simp add: ABTI_pool_index_def)
    obtain nxt h' where c: "choose_popped E me (tls_xstream h) (hd (L p)) h1 = Some (nxt, h')"
      "\<forall>P L. pools_view h' P L = pools_view h1 P L"
      "t_cth h1 (hd (L p)) \<noteq> nullptr \<and> nxt = t_cth h1 (hd (L p)) \<and> \<not> CthIsPeMainThread E nxt \<and> tls_held h' = tls_held h1 \<and>
       tls_direct_count h' = tls_direct_count h1 + 1 \<and>
       (tls_yielding h1 \<longrightarrow> t_pool h1 (hd (L p)) = t_pool h1 me \<or>
          ABTI_pool_index (x_main_sched h1 (tls_xstream h)) (t_pool h1 (hd (L p))) h1 \<le>
          ABTI_pool_index (x_main_sched h1 (tls_xstream h)) (t_pool h1 me) h1) \<or>
       nxt = CthGetSchedulingThread E \<and> tls_held h' = hd (L p) \<and> tls_direct_count h' = 0 \<and> tls_last_chain h' = tls_direct_count h1"
      using choose_popped_unit [OF t assms(5), of me "tls_xstream h" h1] by blast
    have "ABTI_choose_fn E h = Some (nxt, h')" using Some h1(1) c(1) unfolding run by simp
    moreover have "pools_view h' P (L(p := tl (L p)))" using c(2) Some h1(1) by simp
    moreover have "\<exists>p t. p \<in> set (s_pools h s) \<and> L p \<noteq> [] \<and> t = hd (L p) \<and> pools_view h' P (L(p := tl (L p))) \<and> tls_held h = nullptr \<and>
         (nxt = t_cth h t \<and> nxt \<noteq> nullptr \<and> \<not> CthIsPeMainThread E nxt \<and> tls_held h' = nullptr \<and>
            tls_direct_count h' = tls_direct_count h + 1 \<and> tls_direct_count h' \<le> g_direct_burst h \<and>
            (tls_yielding h \<longrightarrow> t_pool h t = t_pool h me \<or> ABTI_pool_index s (t_pool h t) h \<le> ABTI_pool_index s (t_pool h me) h) \<or>
          nxt = CthGetSchedulingThread E \<and> tls_held h' = t \<and> tls_direct_count h' = 0)"
      by (intro exI [of _ p] exI [of _ "hd (L p)"] conjI refl; (use p d calculation(2) in simp; fail)?)
         (use c(3) [unfolded f idx s [symmetric]] d in \<open>elim disjE; simp\<close>)
    moreover have np: "\<not> (me \<noteq> nullptr \<and> t_parent h me \<noteq> nullptr)" using False by simp
    ultimately show ?thesis unfolding if_not_P [OF np] by blast
  qed
qed

text \<open>Thread 8192 of PE 0, whose stream 768 runs the scheduler 2048, suspends; the oldest unit of pool 256 has a stack.\<close>

definition switching :: abt_heap where
  "switching = sched_heap\<lparr>tls_xstream := 768, x_main_sched := (\<lambda>_. nullptr)(768 := 2048), cth_userdata := (\<lambda>_. nullptr)(nullptr := 8192),
     t_cth := (\<lambda>_. nullptr)(1024 := 77), t_parent := (\<lambda>_. nullptr)\<rparr>"

theorem choose_fn_keeps_units_witness:
  "\<exists>nxt h'. ABTI_choose_fn env0 switching = Some (nxt, h') \<and> tls_direct_count h' \<le> 16 \<and>
     (pools_view h' {512, 256} view3 \<or> (\<exists>p\<in>{256, 512}. pools_view h' {512, 256} (view3(p := tl (view3 p)))))"
proof -
  have v: "pools_view switching {512, 256} view3" using sched_heap_sel(1) by (simp add: switching_def)
  have sel: "x_main_sched switching (tls_xstream switching) = 2048" "s_pools switching 2048 = [256, 512]" "g_direct_burst switching = 16"
    "t_parent switching 8192 = nullptr" "cth_userdata switching (CthSelf env0) = 8192" "\<not> pinned_elsewhere E switching t" for E t
    by (simp_all add: switching_def sched_heap_def env0_def pinned_elsewhere_def heap3_flags)
       (simp add: abt_of_def pool_heap.defs abt_heap.defs)
  have r: "\<forall>h. random_value (env0 :: abt_heap env) h = 0" by (simp add: env0_def)
  have c: "claim_law (env0 :: abt_heap env)" unfolding claim_law_def
    by (intro allI exI [of _ "()"]) (simp add: env0_def)
  show ?thesis
    using choose_fn_keeps_units [OF v _ _ r c sel(1) [symmetric] refl] by (auto simp: sel)
qed


subsection \<open>When a PE is given back\<close>

lemma release_sel [simp]:
  "tls_xstream (ABTI_xstream_release E xs h) = nullptr" "x_main_sched (ABTI_xstream_release E xs h) = x_main_sched h"
  "x_joiners (ABTI_xstream_release E xs h) = x_joiners h" "pools_view (ABTI_xstream_release E xs h) P L = pools_view h P L"
  "rt_calls (ABTI_xstream_release E xs h) =
     rt_calls h @ [CsdSetSleepOnIdle True, CsdSchedTableDefault (CmiMyRank E), ReleaseMsg (CmiMyRank E) xs]"
  "cth_awaken (ABTI_xstream_release E xs h) = cth_awaken h" "t_removed (ABTI_xstream_release E xs h) = t_removed h"
  "t_in_pool (ABTI_xstream_release E xs h) = t_in_pool h" "t_pool (ABTI_xstream_release E xs h) = t_pool h"
  "t_migrate_to (ABTI_xstream_release E xs h) = t_migrate_to h" "p_user (ABTI_xstream_release E xs h) = p_user h"
  by (simp_all add: ABTI_xstream_release_def Let_def)

text \<open>A scheduler is drained if nothing is parked, its pools are empty and no thread of a pool it has alone is blocked.\<close>

lemma pools_drained_view:
  "pools_view h P L \<Longrightarrow> set (s_pools h s) \<subseteq> P \<Longrightarrow>
   pools_drained E s h \<longleftrightarrow> tls_held h = nullptr \<and>
     (\<forall>p\<in>set (s_pools h s). L p = [] \<and> (p_num_scheds h p \<le> 1 \<longrightarrow> p_num_blocked h p = 0))"
  by (auto simp: pools_drained_def pools_view_size subset_iff)

lemma release_handler_view:
  assumes "pools_view h P L" "awaken_law E" "distinct ws" "x_joiners h x = map c ws"
    "\<forall>u\<in>set ws. cth_awaken h (c u) = Some (Thread_awaken u) \<and> wake_target u h \<in> P \<and> u \<noteq> nullptr \<and> \<not> t_removed h u \<and>
       \<not> t_in_pool h u \<and> (t_pool h u = nullptr \<or> \<not> p_user h (t_pool h u))"
  shows "\<exists>h'. release_handler E x h = Some h' \<and> pools_view h' P (\<lambda>p. L p @ filter (\<lambda>u. wake_target u h = p) ws) \<and>
    x_finished h' x \<and> x_state h' x = ABT_XSTREAM_STATE_TERMINATED \<and> s_used_by h' (x_main_sched h x) = nullptr \<and> x_joiners h' x = []"
proof -
  define h1 where "h1 = h\<lparr>s_used_by := (s_used_by h)(x_main_sched h x := nullptr),
    x_state := (x_state h)(x := ABT_XSTREAM_STATE_TERMINATED), x_finished := (x_finished h)(x := True), x_joiners := (x_joiners h)(x := [])\<rparr>"
  have w: "wake_target u h1 = wake_target u h" for u by (simp add: wake_target_def h1_def)
  have sel: "cth_awaken h1 = cth_awaken h" "t_removed h1 = t_removed h" "t_in_pool h1 = t_in_pool h" "t_pool h1 = t_pool h" "p_user h1 = p_user h"
    by (simp_all add: h1_def)
  have v: "pools_view h1 P L" using assms(1) by (simp add: h1_def)
  from awaken_all_view [OF v assms(2,3), of c] assms(5) obtain h' where
    h': "awaken_all E (map c ws) h1 = Some h'" "pools_view h' P (\<lambda>p. L p @ filter (\<lambda>u. wake_target u h1 = p) ws)"
    "x_finished h' = x_finished h1" "x_state h' = x_state h1" "x_joiners h' = x_joiners h1" "s_used_by h' = s_used_by h1"
    unfolding sel w by blast
  have "release_handler E x h = Some h'" using h'(1) assms(4) by (simp add: release_handler_def h1_def Let_def)
  then show ?thesis using h'(2-) unfolding w by (simp add: h1_def)
qed

text \<open>What the idle hook of a waiting scheduler does: run what is parked, else what the first pool holds, else park the PE.\<close>

definition run_popped :: "'a abt_env \<Rightarrow> ptr \<Rightarrow> 'a abt \<Rightarrow> 'a abt option" where
  "run_popped E t h = (if t \<noteq> nullptr then ABTI_pool_run_thread E t (rt CsdReleaseIdle h) else Some h)"

lemma idle_pop_view:
  assumes v: "pools_view h P L" and p: "p \<in> P" "L p \<noteq> [] \<longrightarrow> \<not> pinned_elsewhere E h (hd (L p))" and held: "tls_held h = nullptr"
    and r: "r = nat (CmiMyRank E)" "length (p_smask h p) = 4" "r < 256"
  shows "\<exists>h1. pools_view h1 P (L(p := tl (L p))) \<and> tls_xstream h1 = tls_xstream h \<and> x_state h1 = x_state h \<and> x_finished h1 = x_finished h \<and>
    (if L p \<noteq> [] then idle_pop E p h = Some (hd (L p), h1) \<and> r \<notin> sleepers (p_smask h1 p)
     else r \<in> sleepers (p_smask h1 p) \<and>
       idle_pop E p h = do { (t, h2) \<leftarrow> pool_pop E p (CsdIdleWait E h1); h3 \<leftarrow> remove_sleeper p r h2; Some (t, h3) })"
proof -
  obtain ms where ms: "smask_or r (p_smask h p) = Some ms" "length ms = 4" "sleepers ms = insert r (sleepers (p_smask h p))"
    using smask_or_sleepers [OF r(2,3)] by blast
  define ha where "ha = h\<lparr>p_smask := (p_smask h)(p := ms), p_nsleepers := (p_nsleepers h)(p := p_nsleepers h p + 1)\<rparr>"
  have a: "add_sleeper p r h = Some ha" "pools_view ha P L" using ms(1) v by (simp_all add: add_sleeper_def ha_def)
  have "L p \<noteq> [] \<Longrightarrow> \<not> pinned_elsewhere E ha (hd (L p))" using p(2) by (simp add: ha_def pinned_elsewhere_def)
  from pool_pop_view_frame [OF a(2) p(1) this] obtain h1 where h1: "pool_pop E p ha = Some (if L p = [] then nullptr else hd (L p), h1)"
    "pools_view h1 P (L(p := tl (L p)))" "qframe ha h1" by blast
  have f: "p_smask h1 p = ms" "tls_xstream h1 = tls_xstream h" "x_state h1 = x_state h" "x_finished h1 = x_finished h"
    using qframe_sel [OF h1(3)] qframe_abt [OF h1(3)] by (simp_all add: ha_def)
  have i: "idle_pop E p h = do { (t, h2) \<leftarrow> pool_pop E p ha;
      (t, h3) \<leftarrow> (if t = nullptr then pool_pop E p (CsdIdleWait E h2) else Some (t, h2)); h4 \<leftarrow> remove_sleeper p r h3; Some (t, h4) }"
    using held a(1) pools_view_builtin [OF v p(1)] by (simp add: idle_pop_def r(1))
  show ?thesis
  proof (cases "L p = []")
    case True
    then have "idle_pop E p h = do { (t, h2) \<leftarrow> pool_pop E p (CsdIdleWait E h1); h3 \<leftarrow> remove_sleeper p r h2; Some (t, h3) }"
      unfolding i using h1(1) by simp
    then show ?thesis using True h1(2) f ms(3) by (intro exI [of _ h1]) simp
  next
    case False
    have t: "hd (L p) \<noteq> nullptr" using hd_nonnull [OF pools_view_nonnull [OF v p(1)] False] .
    obtain ms' where ms': "smask_and_not r ms = Some ms'" "sleepers ms' = sleepers ms - {r}" using smask_and_not_sleepers [OF ms(2) r(3)] by blast
    define hr where "hr = h1\<lparr>p_smask := (p_smask h1)(p := ms'), p_nsleepers := (p_nsleepers h1)(p := p_nsleepers h1 p - 1)\<rparr>"
    have "idle_pop E p h = Some (hd (L p), hr)" unfolding i using h1(1) False t ms'(1) f(1) by (simp add: remove_sleeper_def hr_def)
    then show ?thesis using False h1(2) f ms'(2) by (intro exI [of _ hr]) (simp add: hr_def)
  qed
qed

lemma idle_hook_waits:
  assumes v: "pools_view h P L" and p: "p \<in> P" and x: "tls_xstream h = x"
    and hook: "ABTI_xstream_idle_hook E h = do { (t, h1) \<leftarrow> idle_pop E p h; run_popped E t h1 }"
    and r: "r = nat (CmiMyRank E)" "length (p_smask h p) = 4" "r < 256" "L p \<noteq> [] \<longrightarrow> \<not> pinned_elsewhere E h (hd (L p))"
  shows "if tls_held h \<noteq> nullptr
    then ABTI_xstream_idle_hook E h = ABTI_pool_run_thread E (tls_held h) (rt CsdReleaseIdle (h\<lparr>tls_held := nullptr\<rparr>))
    else \<exists>h1. pools_view h1 P (L(p := tl (L p))) \<and> tls_xstream h1 = x \<and> x_state h1 = x_state h \<and> x_finished h1 = x_finished h \<and>
        (if L p \<noteq> [] then ABTI_xstream_idle_hook E h = ABTI_pool_run_thread E (hd (L p)) (rt CsdReleaseIdle h1)
         else r \<in> sleepers (p_smask h1 p) \<and>
           ABTI_xstream_idle_hook E h = do { (t, h2) \<leftarrow> pool_pop E p (CsdIdleWait E h1); h3 \<leftarrow> remove_sleeper p r h2; run_popped E t h3 })"
proof (cases "tls_held h = nullptr")
  case held: True
  obtain h1 where h1: "pools_view h1 P (L(p := tl (L p)))" "tls_xstream h1 = x" "x_state h1 = x_state h" "x_finished h1 = x_finished h"
    "if L p \<noteq> [] then idle_pop E p h = Some (hd (L p), h1) \<and> r \<notin> sleepers (p_smask h1 p)
     else r \<in> sleepers (p_smask h1 p) \<and>
       idle_pop E p h = do { (t, h2) \<leftarrow> pool_pop E p (CsdIdleWait E h1); h3 \<leftarrow> remove_sleeper p r h2; Some (t, h3) }"
    using idle_pop_view [OF v p r(4) held r(1-3)] x by blast
  show ?thesis
  proof (cases "L p = []")
    case True
    then have "ABTI_xstream_idle_hook E h = do { (t, h2) \<leftarrow> pool_pop E p (CsdIdleWait E h1); h3 \<leftarrow> remove_sleeper p r h2; run_popped E t h3 }"
      unfolding hook using h1(5) by (auto split: option.splits bind_splits)
    then show ?thesis using h1 held True by auto
  next
    case False
    have "hd (L p) \<noteq> nullptr" using hd_nonnull [OF pools_view_nonnull [OF v p] False] .
    then have "ABTI_xstream_idle_hook E h = ABTI_pool_run_thread E (hd (L p)) (rt CsdReleaseIdle h1)"
      unfolding hook using h1(5) False by (simp add: run_popped_def)
    then show ?thesis using h1 held False by auto
  qed
next
  case False
  then have "idle_pop E p h = Some (tls_held h, h\<lparr>tls_held := nullptr\<rparr>)" using pools_view_builtin [OF v p] by (simp add: idle_pop_def)
  then show ?thesis using hook False by (simp add: run_popped_def)
qed

text \<open>
  C19. A joined stream ends, and no stream ends early.  When the PE of a stream with a predefined scheduler
  is idle, its idle hook gives the PE back exactly if a join was requested, nothing is parked, all pools
  of the scheduler are empty and no thread of a pool that belongs to this scheduler alone is blocked.
  It first installs the default table and then sends the release message to itself; the handler of that
  message marks the stream terminated, frees its scheduler for other use and wakes every joiner, each
  once and in order.  Otherwise the stream keeps the PE.  A spinning scheduler only sleeps a moment.  A
  waiting one runs the parked unit, if there is one, or else the oldest unit of its first pool; if this
  pool is empty, it puts the PE on the pool's sleeper mask, waits, and only then pops once more.
\<close>

theorem idle_hook_gives_back:
  assumes v: "pools_view h P L" and law: "awaken_law E" "distinct ws" "x_joiners h x = map c ws"
    "\<forall>u\<in>set ws. cth_awaken h (c u) = Some (Thread_awaken u) \<and> wake_target u h \<in> P \<and> u \<noteq> nullptr \<and> \<not> t_removed h u \<and>
       \<not> t_in_pool h u \<and> (t_pool h u = nullptr \<or> \<not> p_user h (t_pool h u))"
    and x: "tls_xstream h = x" "x \<noteq> nullptr" "x_main_sched h x = s" "\<not> s_user_def h s" "set (s_pools h s) \<subseteq> P"
    and w: "s_predef h s = ABT_SCHED_BASIC_WAIT \<and> s_pools h s \<noteq> [] \<longrightarrow> p = s_pools h s ! 0 \<and> length (p_smask h p) = 4 \<and>
       r = nat (CmiMyRank E) \<and> r < 256 \<and> (L p \<noteq> [] \<longrightarrow> \<not> pinned_elsewhere E h (hd (L p)))"
  shows "if x_finishing h x \<and> tls_held h = nullptr \<and> (\<forall>p\<in>set (s_pools h s). L p = [] \<and> (p_num_scheds h p \<le> 1 \<longrightarrow> p_num_blocked h p = 0))
    then \<exists>h1 h2. ABTI_xstream_idle_hook E h = Some h1 \<and> tls_xstream h1 = nullptr \<and>
        rt_calls h1 = rt_calls h @ [CsdSetSleepOnIdle True, CsdSchedTableDefault (CmiMyRank E), ReleaseMsg (CmiMyRank E) x] \<and>
        release_handler E x h1 = Some h2 \<and> x_finished h2 x \<and> x_state h2 x = ABT_XSTREAM_STATE_TERMINATED \<and>
        s_used_by h2 s = nullptr \<and> x_joiners h2 x = [] \<and> pools_view h2 P (\<lambda>p. L p @ filter (\<lambda>u. wake_target u h = p) ws)
    else if s_predef h s \<noteq> ABT_SCHED_BASIC_WAIT \<or> s_pools h s = [] then ABTI_xstream_idle_hook E h = Some (rt Nanosleep h)
    else if tls_held h \<noteq> nullptr
    then ABTI_xstream_idle_hook E h = ABTI_pool_run_thread E (tls_held h) (rt CsdReleaseIdle (h\<lparr>tls_held := nullptr\<rparr>))
    else \<exists>h1. pools_view h1 P (L(p := tl (L p))) \<and> tls_xstream h1 = x \<and> x_state h1 = x_state h \<and> x_finished h1 = x_finished h \<and>
        (if L p \<noteq> [] then ABTI_xstream_idle_hook E h = ABTI_pool_run_thread E (hd (L p)) (rt CsdReleaseIdle h1)
         else r \<in> sleepers (p_smask h1 p) \<and>
           ABTI_xstream_idle_hook E h = do { (t, h2) \<leftarrow> pool_pop E p (CsdIdleWait E h1); h3 \<leftarrow> remove_sleeper p r h2; run_popped E t h3 })"
proof (cases "x_finishing h x \<and> pools_drained E s h")
  case True
  let ?h = "ABTI_xstream_release E x h"
  have w: "wake_target u ?h = wake_target u h" for u by (simp add: wake_target_def)
  have "\<exists>h'. release_handler E x ?h = Some h' \<and> pools_view h' P (\<lambda>p. L p @ filter (\<lambda>u. wake_target u ?h = p) ws) \<and>
      x_finished h' x \<and> x_state h' x = ABT_XSTREAM_STATE_TERMINATED \<and> s_used_by h' (x_main_sched ?h x) = nullptr \<and> x_joiners h' x = []"
    by (rule release_handler_view [where c = c]) (use v law in \<open>simp_all add: w\<close>)
  moreover have "ABTI_xstream_idle_hook E h = Some ?h" using True x by (simp add: ABTI_xstream_idle_hook_def)
  ultimately show ?thesis using True x unfolding pools_drained_view [OF v x(5)] w by auto
next
  case False
  have nd: "\<not> (x_finishing h x \<and> tls_held h = nullptr \<and> (\<forall>p\<in>set (s_pools h s). L p = [] \<and> (p_num_scheds h p \<le> 1 \<longrightarrow> p_num_blocked h p = 0)))"
    using False unfolding pools_drained_view [OF v x(5)] .
  have nano: "ABTI_xstream_idle_hook E h = Some (rt Nanosleep h)" if "s_predef h s \<noteq> ABT_SCHED_BASIC_WAIT \<or> s_pools h s = []"
    using False x that by (auto simp: ABTI_xstream_idle_hook_def)
  show ?thesis
  proof (cases "s_predef h s \<noteq> ABT_SCHED_BASIC_WAIT \<or> s_pools h s = []")
    case bw: False
    have "ABTI_xstream_idle_hook E h = do { (t, h1) \<leftarrow> idle_pop E p h; run_popped E t h1 }"
      using False x w bw by (auto simp: ABTI_xstream_idle_hook_def run_popped_def)
    moreover have "p \<in> P" using w x(5) bw by (auto simp: subset_iff)
    ultimately show ?thesis using idle_hook_waits [OF v _ x(1), of p E r] w bw unfolding if_not_P [OF nd] if_not_P [OF bw] by blast
  qed (use nano in \<open>unfold if_not_P [OF nd], simp\<close>)
qed

text \<open>Stream 768 with the empty pool 512 has been asked to finish; the joiner is thread 8192 of pool 256.\<close>

definition finishing :: abt_heap where
  "finishing = (abt_of heap2)\<lparr>tls_xstream := 768, x_main_sched := (\<lambda>_. nullptr)(768 := 2048), s_pools := (\<lambda>_. [])(2048 := [512]),
     x_finishing := (\<lambda>_. False)(768 := True), x_joiners := (\<lambda>_. [])(768 := [9]),
     cth_awaken := (\<lambda>_. None)(9 := Some (Thread_awaken 8192)), t_pool := (\<lambda>_. nullptr)(8192 := 256)\<rparr>"

theorem idle_hook_gives_back_witness:
  "\<exists>h1 h2. ABTI_xstream_idle_hook env_awaken finishing = Some h1 \<and> release_handler env_awaken 768 h1 = Some h2 \<and>
     x_finished h2 768 \<and> pools_view h2 {512, 256} ((\<lambda>_. [])(256 := [8192]))"
proof -
  have v: "pools_view finishing {512, 256} (\<lambda>_. [])" using heap2_view by (simp add: finishing_def)
  have sel: "tls_xstream finishing = 768" "x_main_sched finishing 768 = 2048" "s_pools finishing 2048 = [512]" "x_finishing finishing 768"
    "x_joiners finishing 768 = map (\<lambda>_. 9) [8192]" "cth_awaken finishing 9 = Some (Thread_awaken 8192)" "t_pool finishing 8192 = 256"
    "\<not> s_user_def finishing 2048" "tls_held finishing = nullptr" "t_removed finishing = (\<lambda>_. False)" "t_in_pool finishing = (\<lambda>_. False)"
    "t_migrate_to finishing 8192 = nullptr" "p_user finishing 256 = False" "p_num_blocked finishing 512 = 0"
    "s_predef finishing 2048 = ABT_SCHED_DEFAULT"
    by (simp_all add: finishing_def heap2_flags)
       (simp_all add: abt_of_def pool_heap.defs abt_heap.defs heap2_def heap0_def ABTI_pool_create_builtin_def fresh_id_def pool_new_def
          pool_queue_init_def)
  have w: "wake_target 8192 finishing = 256" by (simp add: wake_target_def sel)
  have L: "(\<lambda>p. [] @ filter (\<lambda>u. wake_target u finishing = p) [8192]) = (\<lambda>_. [])(256 := [8192])" by (auto simp: w)
  show ?thesis
    using idle_hook_gives_back [OF v env_awaken_law _ sel(5) _ sel(1) _ sel(2,8), where p = 512 and r = 0] unfolding L by (auto simp: sel w)
qed

end
