(* ===== verification/Init.thy ===== *)
theory Init
  imports Xstream_Life
begin

section \<open>Initialisation and finalisation\<close>

text \<open>
  \<^verbatim>\<open>src/src/init.cpp\<close>: the size of the runtime from the environment, starting and stopping the runtime,
  and the reference-counted \<^verbatim>\<open>ABT_init\<close> and \<^verbatim>\<open>ABT_finalize\<close>.  What the process asks the operating system
  and the runtime is the record \<open>process\<close>: the environment variables, the number of cores, the process
  id, the handler indices \<^verbatim>\<open>CmiRegisterHandler\<close> returns on this PE, and \<^verbatim>\<open>ConverseInit\<close>, which starts the
  other PEs and returns on PE 0.  A C string is a list of characters without its terminating null.
\<close>

record 's process =
  getenv :: "string \<Rightarrow> string option"
  num_cores :: int                     \<comment> \<open>\<^verbatim>\<open>sysconf(_SC_NPROCESSORS_ONLN)\<close>\<close>
  getpid :: int
  handler_indices :: "int \<times> int \<times> int \<times> int"
  converse_init :: "int \<Rightarrow> 's \<Rightarrow> 's"


subsection \<open>Numbers in environment variables\<close>

text \<open>\<^verbatim>\<open>strtol\<close> and \<^verbatim>\<open>strtoul\<close> in base 10: the value and the rest of the string behind the number.\<close>

definition LONG_MAX :: int where "LONG_MAX = 2 ^ 63 - 1"
definition ULONG_MAX :: int where "ULONG_MAX = 2 ^ 64 - 1"

definition is_space :: "char \<Rightarrow> bool" where
  "is_space c \<longleftrightarrow> (let n = of_char c :: nat in n = 32 \<or> (9 \<le> n \<and> n \<le> 13))"

definition is_digit :: "char \<Rightarrow> bool" where
  "is_digit c \<longleftrightarrow> (let n = of_char c :: nat in 48 \<le> n \<and> n \<le> 57)"

definition digits_value :: "string \<Rightarrow> int" where
  "digits_value ds = foldl (\<lambda>v c. 10 * v + (int (of_char c :: nat) - 48)) 0 ds"

text \<open>Sign, digits and rest; no digits: no number was read.\<close>

definition scan_number :: "string \<Rightarrow> (bool \<times> string \<times> string) option" where
  "scan_number s =
     (let s1 = dropWhile is_space s;
          neg = (s1 \<noteq> [] \<and> hd s1 = CHR ''-'');
          s2 = (if s1 \<noteq> [] \<and> (hd s1 = CHR ''-'' \<or> hd s1 = CHR ''+'') then tl s1 else s1);
          ds = takeWhile is_digit s2
      in if ds = [] then None else Some (neg, ds, dropWhile is_digit s2))"

definition strtol :: "string \<Rightarrow> int \<times> string" where
  "strtol s = (case scan_number s of None \<Rightarrow> (0, s)
     | Some (neg, ds, rest) \<Rightarrow>
         (max (- LONG_MAX - 1) (min LONG_MAX (if neg then - digits_value ds else digits_value ds)), rest))"

definition strtoul :: "string \<Rightarrow> int \<times> string" where
  "strtoul s = (case scan_number s of None \<Rightarrow> (0, s)
     | Some (neg, ds, rest) \<Rightarrow>
         (if digits_value ds > ULONG_MAX then ULONG_MAX
          else (if neg then - digits_value ds else digits_value ds) mod (ULONG_MAX + 1), rest))"

definition env_long :: "('s, 'z) process_scheme \<Rightarrow> string \<Rightarrow> int \<Rightarrow> int" where
  "env_long I name dflt =
     (case getenv I name of None \<Rightarrow> dflt
      | Some v \<Rightarrow> if v = [] then dflt
          else let (x, end) = strtol v in if end = [] \<and> x > 0 then x else dflt)"

text \<open>\<^verbatim>\<open>ABTI_num_pes_rule\<close>; \<open>None\<close>: the signed addition \<^verbatim>\<open>maxx + 1\<close> overflows.\<close>

definition ABTI_num_pes_rule :: "('s, 'z) process_scheme \<Rightarrow> int option" where
  "ABTI_num_pes_rule I =
     (let cores = (if num_cores I < 1 then 1 else num_cores I);
          n = env_long I ''ABT_RECONVERSE_NUM_PES'' 0
      in do { n \<leftarrow> (if n \<le> 0
                   then let maxx = env_long I ''ABT_MAX_NUM_XSTREAMS'' 0
                        in if maxx > 0
                           then if maxx = LONG_MAX then None else Some (if maxx + 1 < 16 then 16 else maxx + 1)
                           else Some (if cores < 16 then 16 else if cores > 32 then 32 else cores)
                   else Some n);
              let n = (if n < 2 then 2 else n) in Some (if n > 256 then 256 else n) })"


subsection \<open>The runtime\<close>

definition per_pe_setup :: "('a abt, 'z) process_scheme \<Rightarrow> 'a abt_env \<Rightarrow> 'a abt \<Rightarrow> 'a abt option" where
  "per_pe_setup I E h =
     (let (l, a, r, rl) = handler_indices I; me = nat (CmiMyRank E)
      in do { h1 \<leftarrow> ABTI_register_handlers l a r rl h;
              Some (rt CcdIdleHook (h1\<lparr>g_pe_threads := (g_pe_threads h1)[me := pthread_self E],
                                      g_pe_thread_known := (g_pe_thread_known h1)[me := True]\<rparr>)) })"

text \<open>What a PE other than PE 0 does before it enters the scheduler of the runtime.\<close>

definition startfn :: "('a abt, 'z) process_scheme \<Rightarrow> 'a abt_env \<Rightarrow> 'a abt \<Rightarrow> 'a abt option" where
  "startfn I E h = do { h1 \<leftarrow> per_pe_setup I E h; Some (rt (CsdSetSleepOnIdle True) h1) }"

definition exit_user_scheds :: "ptr list \<Rightarrow> 'a abt \<Rightarrow> 'a abt" where
  "exit_user_scheds xs = fold (\<lambda>x h. if x \<noteq> nullptr \<and> x_main_sched h x \<noteq> nullptr \<and> s_user_def h (x_main_sched h x)
     then h\<lparr>s_req_exit := (s_req_exit h)(x_main_sched h x := True)\<rparr> else h) xs"

definition shutdown_runtime :: "'a abt_env \<Rightarrow> 'a abt \<Rightarrow> 'a abt" where
  "shutdown_runtime E h =
     (if \<not> (runtime_started h \<and> CmiIsPeThread E \<and> CmiMyRank E = 0) then h
      else let h1 = (if g_exists h then exit_user_scheds (g_xstreams h) h else h)
           in (rt ConverseFinalize h1)\<lparr>runtime_started := False\<rparr>)"

definition start_runtime :: "('a abt, 'z) process_scheme \<Rightarrow> 'a abt_env \<Rightarrow> int \<Rightarrow> 'a abt \<Rightarrow> 'a abt option" where
  "start_runtime I E num_pes h =
     do { h1 \<leftarrow> per_pe_setup I E (converse_init I num_pes (rt (ConverseInit num_pes) h));
          let h2 = h1\<lparr>runtime_started := True\<rparr>;
              h3 = (if runtime_pid h2 \<noteq> getpid I then rt Atexit h2 else h2)
          in Some (h3\<lparr>runtime_pid := getpid I\<rparr>) }"


subsection \<open>\<^verbatim>\<open>ABT_init\<close> and \<^verbatim>\<open>ABT_finalize\<close>\<close>

definition ABT_initialized :: "'a abt \<Rightarrow> ABT_error" where
  "ABT_initialized h = (if g_initialized h then ABT_SUCCESS else ABT_ERR_UNINITIALIZED)"

definition yield_to_next :: "('s, 'z) process_scheme \<Rightarrow> nat" where
  "yield_to_next I =
     (case getenv I ''ABT_RECONVERSE_YIELD_TO_NEXT'' of None \<Rightarrow> 16
      | Some v \<Rightarrow> if v = [] then 16 else nat (fst (strtoul v) mod 2 ^ 32))"

text \<open>The new \<^verbatim>\<open>ABTI_global\<close>.\<close>

definition global_new :: "('s, 'z) process_scheme \<Rightarrow> int \<Rightarrow> 'a abt \<Rightarrow> 'a abt" where
  "global_new I n h =
     (let stacksize = nat (env_long I ''ABT_THREAD_STACKSIZE'' (2 * 1024 * 1024))
      in h\<lparr>g_exists := True, g_initialized := False, g_num_pes := n,
           g_default_stacksize := (if stacksize < 16384 then 16384 else stacksize), g_direct_burst := yield_to_next I,
           g_xstreams := replicate (nat n) nullptr, g_pe_threads := replicate (nat n) 0,
           g_pe_thread_known := replicate (nat n) False, g_primary_xstream := nullptr, g_primary_thread := nullptr,
           g_next_id := 1, g_next_key := 0, g_num_user_pools := 0, g_units := Map.empty, g_handlers := [-1, -1, -1, -1]\<rparr>)"

text \<open>A forked child forgets the runtime it inherited; without a runtime, one is started.\<close>

definition init_runtime :: "('a abt, 'z) process_scheme \<Rightarrow> 'a abt_env \<Rightarrow> 'a abt \<Rightarrow> 'a abt option" where
  "init_runtime I E h =
     (let h1 = (if g_exists h \<and> runtime_started h \<and> getpid I \<noteq> runtime_pid h
                then h\<lparr>g_exists := False, runtime_started := False, init_refs := 0\<rparr> else h)
      in if g_exists h1 then Some h1
         else do { n \<leftarrow> ABTI_num_pes_rule I; start_runtime I E n (global_new I n h1) })"

text \<open>The primary stream \<open>x\<close> with its scheduler \<open>s\<close> (and pools from \<open>news\<close>), and the caller as the primary ULT.\<close>

definition init_primary :: "'a abt_env \<Rightarrow> ptr \<Rightarrow> ptr list \<Rightarrow> ptr \<Rightarrow> ptr \<Rightarrow> 'a abt \<Rightarrow> 'a abt option" where
  "init_primary E s news x m h =
     do { (r, h1) \<leftarrow> ABTI_sched_create_predef s news 0 0 None h;
          let h2 = (xstream_new x 0 s True h1)\<lparr>g_primary_xstream := x, tls_xstream := x\<rparr>
          in do { (t, h3) \<leftarrow> ABTI_thread_wrap_primary E m (CthSelf E) (s_pools h2 s ! 0) h2;
                  Some (rt (CsdSetSleepOnIdle False) (rt (CsdSchedTableInstall 0 (Some s)) (h3\<lparr>g_primary_thread := t\<rparr>))) } }"

definition ABT_init :: "('a abt, 'z) process_scheme \<Rightarrow> 'a abt_env \<Rightarrow> ptr \<Rightarrow> ptr list \<Rightarrow> ptr \<Rightarrow> ptr \<Rightarrow> 'a abt \<Rightarrow>
    (unit, 'a abt) api option" where
  "ABT_init I E s news x m h =
     (if g_initialized h then Some (Inr (), h\<lparr>init_refs := init_refs h + 1\<rparr>)
      else do { h1 \<leftarrow> init_runtime I E h;
                h2 \<leftarrow> init_primary E s news x m h1;
                Some (Inr (), h2\<lparr>g_initialized := True, init_refs := 1\<rparr>) })"

text \<open>Work still queued in the primary's pools runs while the primary ULT yields.\<close>

definition finalize_queued :: "'a abt_env \<Rightarrow> ptr \<Rightarrow> 'a abt \<Rightarrow> nat" where
  "finalize_queued E s h = (if tls_held h \<noteq> nullptr then 1 else 0) + sum_list (map (\<lambda>p. pool_size E p h) (s_pools h s))"

partial_function (option) finalize_drain :: "'a abt_env \<Rightarrow> ptr \<Rightarrow> 'a abt \<Rightarrow> 'a abt option" where
  "finalize_drain E x h =
     (if finalize_queued E (x_main_sched h x) h = 0 then Some h else finalize_drain E x (CthYield E h))"

definition finalize_primary :: "'a abt_env \<Rightarrow> ptr \<Rightarrow> ptr \<Rightarrow> 'a abt \<Rightarrow> 'a abt" where
  "finalize_primary E xs pt h =
     (let h1 = h\<lparr>g_initialized := False, cth_awaken := (cth_awaken h)(t_cth h pt := None),
                cth_userdata := (cth_userdata h)(t_cth h pt := nullptr)\<rparr>;
          h2 = ABTI_pool_disassociate E pt h1;
          h3 = h2\<lparr>live := live h2 - {pt}, g_primary_thread := nullptr,
                 s_used_by := (s_used_by h2)(x_main_sched h2 xs := nullptr)\<rparr>;
          h4 = ABTI_sched_destroy E (x_main_sched h3 xs) h3;
          h5 = h4\<lparr>g_xstreams := (g_xstreams h4)[0 := nullptr], g_primary_xstream := nullptr, tls_xstream := nullptr,
                 live := live h4 - {xs}\<rparr>
      in rt (CsdSchedTableDefault 0) h5)"

definition ABT_finalize :: "'a abt_env \<Rightarrow> 'a abt \<Rightarrow> (unit, 'a abt) api option" where
  "ABT_finalize E h =
     (if \<not> g_initialized h then Some (Inl ABT_ERR_UNINITIALIZED, h)
      else if init_refs h > 1 then Some (Inr (), h\<lparr>init_refs := init_refs h - 1\<rparr>)
      else if \<not> CmiIsPeThread E \<or> tls_xstream h \<noteq> g_primary_xstream h then Some (Inl ABT_ERR_INV_XSTREAM, h)
      else if ABTI_self_thread E h \<noteq> g_primary_thread h then Some (Inl ABT_ERR_INV_THREAD, h)
      else if list_ex (\<lambda>r. g_xstreams h ! nat r \<noteq> nullptr) [1..g_num_pes h - 1] then Some (Inl ABT_ERR_INV_XSTREAM, h)
      else let xs = g_primary_xstream h; pt = g_primary_thread h
           in do { h1 \<leftarrow> finalize_drain E xs (h\<lparr>init_refs := 0\<rparr>); Some (Inr (), finalize_primary E xs pt h1) })"

end
