(* ===== verification/Init_Life.thy ===== *)
theory Init_Life
  imports Init
begin

section \<open>Properties of initialisation\<close>

text \<open>
  The bounds of the number of PEs and how it is read from the environment, the round trip of
  initialisation and finalisation, and refused finalisations.
\<close>


subsection \<open>Reading numbers\<close>

text \<open>\<^verbatim>\<open>std::to_string\<close> of a number.\<close>

fun to_string :: "nat \<Rightarrow> string" where
  "to_string n = (if n < 10 then [char_of (48 + n)] else to_string (n div 10) @ [char_of (48 + n mod 10)])"

declare to_string.simps [simp del]

lemma digit_char: "d < 10 \<Longrightarrow> of_char (char_of (48 + d :: nat)) = 48 + d"
  by (simp add: of_char_of)

lemma digit_is_digit: "d < 10 \<Longrightarrow> is_digit (char_of (48 + d :: nat))"
  by (simp add: is_digit_def digit_char Let_def)

lemma to_string_digits: "list_all is_digit (to_string n)" "to_string n \<noteq> []" "digits_value (to_string n) = int n"
proof (induction n rule: to_string.induct)
  case (1 n)
  {
    case 1 show ?case
      by (subst to_string.simps) (use "1.IH" in \<open>auto simp: digit_is_digit\<close>)
  next
    case 2 show ?case by (subst to_string.simps) simp
  next
    case 3 show ?case
    proof (cases "n < 10")
      case True
      then show ?thesis by (subst to_string.simps) (simp add: digits_value_def digit_char)
    next
      case False
      have "digits_value (to_string n) = 10 * digits_value (to_string (n div 10)) + int (n mod 10)"
        using False by (subst to_string.simps) (simp add: digits_value_def digit_char)
      also have "\<dots> = int n" unfolding "1.IH"(3) [OF False] by (metis mult_div_mod_eq of_nat_add of_nat_mult of_nat_numeral)
      finally show ?thesis .
    qed
  }
qed

lemma strtol_to_string:
  assumes "int n \<le> LONG_MAX"
  shows "strtol (to_string n) = (int n, [])"
proof -
  have d: "list_all is_digit (to_string n)" "to_string n \<noteq> []" by (rule to_string_digits)+
  then obtain c cs where c: "to_string n = c # cs" "is_digit c" by (cases "to_string n") auto
  then have "\<not> is_space c" "c \<noteq> CHR ''-''" "c \<noteq> CHR ''+''" by (auto simp: is_digit_def is_space_def Let_def)
  then have "scan_number (to_string n) = Some (False, to_string n, [])"
    using d c(1) by (simp add: scan_number_def Let_def list_all_iff takeWhile_eq_all_conv [THEN iffD2] dropWhile_eq_Nil_conv [THEN iffD2])
  then show ?thesis using assms by (simp add: strtol_def to_string_digits(3) LONG_MAX_def)
qed

lemma env_long_to_string:
  "getenv I name = Some (to_string n) \<Longrightarrow> 0 < n \<Longrightarrow> int n \<le> LONG_MAX \<Longrightarrow> env_long I name dflt = int n"
  by (simp add: env_long_def strtol_to_string to_string_digits(2))

text \<open>
  C34. The number of PEs is always between 2 and 256, whatever the environment holds.  A number of PEs or of
  streams written in decimal is taken as it is, within these bounds: \<^verbatim>\<open>ABT_RECONVERSE_NUM_PES\<close> names the
  PEs themselves, \<^verbatim>\<open>ABT_MAX_NUM_XSTREAMS\<close> the streams besides the primary, at least 15; without either,
  the cores count, between 16 and 32.  The one input without a result is a stream limit that reads as
  the largest \<^verbatim>\<open>long\<close>, where adding one overflows.
\<close>

theorem num_pes_bounds:
  "(case ABTI_num_pes_rule I of Some n \<Rightarrow> 2 \<le> n \<and> n \<le> 256 | None \<Rightarrow> env_long I ''ABT_MAX_NUM_XSTREAMS'' 0 = LONG_MAX) \<and>
   (\<forall>k. getenv I ''ABT_RECONVERSE_NUM_PES'' = Some (to_string k) \<and> 2 \<le> k \<and> k \<le> 256 \<longrightarrow> ABTI_num_pes_rule I = Some (int k)) \<and>
   (\<forall>k. getenv I ''ABT_RECONVERSE_NUM_PES'' = None \<and> getenv I ''ABT_MAX_NUM_XSTREAMS'' = Some (to_string k) \<and> 0 < k \<and> k \<le> 255 \<longrightarrow>
      ABTI_num_pes_rule I = Some (max 16 (int k + 1))) \<and>
   (getenv I ''ABT_RECONVERSE_NUM_PES'' = None \<and> getenv I ''ABT_MAX_NUM_XSTREAMS'' = None \<longrightarrow>
      ABTI_num_pes_rule I = Some (max 16 (min 32 (num_cores I))))"
proof (intro conjI allI impI)
  show "case ABTI_num_pes_rule I of Some n \<Rightarrow> 2 \<le> n \<and> n \<le> 256 | None \<Rightarrow> env_long I ''ABT_MAX_NUM_XSTREAMS'' 0 = LONG_MAX"
    by (auto simp: ABTI_num_pes_rule_def Let_def split: option.splits bind_splits if_splits)
next
  fix k assume k: "getenv I ''ABT_RECONVERSE_NUM_PES'' = Some (to_string k) \<and> 2 \<le> k \<and> k \<le> 256"
  then have "env_long I ''ABT_RECONVERSE_NUM_PES'' 0 = int k" by (intro env_long_to_string) (simp_all add: LONG_MAX_def)
  then show "ABTI_num_pes_rule I = Some (int k)" using k by (simp add: ABTI_num_pes_rule_def Let_def)
next
  fix k assume k: "getenv I ''ABT_RECONVERSE_NUM_PES'' = None \<and> getenv I ''ABT_MAX_NUM_XSTREAMS'' = Some (to_string k) \<and> 0 < k \<and> k \<le> 255"
  then have "env_long I ''ABT_MAX_NUM_XSTREAMS'' 0 = int k" by (intro env_long_to_string) (simp_all add: LONG_MAX_def)
  moreover have "env_long I ''ABT_RECONVERSE_NUM_PES'' 0 = 0" using k by (simp add: env_long_def)
  ultimately show "ABTI_num_pes_rule I = Some (max 16 (int k + 1))" using k by (simp add: ABTI_num_pes_rule_def Let_def LONG_MAX_def)
next
  assume "getenv I ''ABT_RECONVERSE_NUM_PES'' = None \<and> getenv I ''ABT_MAX_NUM_XSTREAMS'' = None"
  then show "ABTI_num_pes_rule I = Some (max 16 (min 32 (num_cores I)))"
    by (auto simp: ABTI_num_pes_rule_def env_long_def Let_def)
qed

lemma num_pes_lower: "ABTI_num_pes_rule I = Some n \<Longrightarrow> 2 \<le> n"
  by (auto simp: ABTI_num_pes_rule_def Let_def split: bind_splits if_splits)

text \<open>An environment that asks for 64 streams.\<close>

definition env64 :: "abt_heap process" where
  "env64 = \<lparr>getenv = [''ABT_MAX_NUM_XSTREAMS'' \<mapsto> ''64''], num_cores = 8, getpid = 1, handler_indices = (1, 2, 3, 4),
     converse_init = (\<lambda>_ s. s)\<rparr>"

theorem num_pes_bounds_witness: "ABTI_num_pes_rule env64 = Some 65 \<and> (\<exists>n. ABTI_num_pes_rule env64 = Some n \<and> 2 \<le> n \<and> n \<le> 256)"
proof -
  have s: "to_string 64 = ''64''" by code_simp
  have "getenv env64 ''ABT_RECONVERSE_NUM_PES'' = None" "getenv env64 ''ABT_MAX_NUM_XSTREAMS'' = Some (to_string 64)"
    by (simp_all add: env64_def s)
  then have "ABTI_num_pes_rule env64 = Some (max 16 (int 64 + 1))"
    using num_pes_bounds [of env64, THEN conjunct2, THEN conjunct2, THEN conjunct1, THEN spec [of _ 64]] by simp
  then show ?thesis by simp
qed


subsection \<open>Initialisation and finalisation\<close>

text \<open>
  What \<^verbatim>\<open>ConverseInit\<close> does to the library's own state: the other PEs record their handler indices and
  threads (\<open>startfn\<close>), nothing else.
\<close>

definition converse_law :: "('a abt, 'z) process_scheme \<Rightarrow> bool" where
  "converse_law I \<longleftrightarrow> (\<forall>n h. \<exists>hs ts ks cs. converse_init I n h =
     h\<lparr>g_handlers := hs, g_pe_threads := ts, g_pe_thread_known := ks, rt_calls := cs\<rparr>)"

text \<open>
  A process without streams: no scheduler is in use, nothing is parked, no tasklet runs, and if a runtime
  was started in this process its slots are all free.
\<close>

definition no_streams :: "('s, 'z) process_scheme \<Rightarrow> 'a abt \<Rightarrow> bool" where
  "no_streams I h \<longleftrightarrow> s_used_by h = (\<lambda>_. nullptr) \<and> tls_held h = nullptr \<and> tls_task h = nullptr \<and>
     (g_exists h \<and> (runtime_started h \<longrightarrow> getpid I = runtime_pid h) \<longrightarrow>
        2 \<le> g_num_pes h \<and> g_xstreams h = replicate (nat (g_num_pes h)) nullptr)"

lemma record_handler_frame:
  "record_handler i v h = Some h' \<Longrightarrow> \<exists>hs. h' = h\<lparr>g_handlers := hs\<rparr>"
  by (auto simp: record_handler_def split: if_splits intro: exI [of _ "g_handlers h"])

lemma register_frame:
  assumes "ABTI_register_handlers l a r rl h = Some h'"
  shows "\<exists>hs. h' = h\<lparr>g_handlers := hs\<rparr>"
proof -
  from assms obtain h1 h2 h3 where "record_handler 0 l h = Some h1" "record_handler 1 a h1 = Some h2" "record_handler 2 r h2 = Some h3"
    "record_handler 3 rl h3 = Some h'" by (auto simp: ABTI_register_handlers_def split: bind_splits)
  from this [THEN record_handler_frame] show ?thesis by auto
qed

lemma per_pe_setup_frame:
  assumes "per_pe_setup I E h = Some h'"
  shows "\<exists>hs ts ks cs. h' = h\<lparr>g_handlers := hs, g_pe_threads := ts, g_pe_thread_known := ks, rt_calls := cs\<rparr>"
proof -
  obtain l a r rl where i: "handler_indices I = (l, a, r, rl)" by (cases "handler_indices I") auto
  from assms obtain h1 where h1: "ABTI_register_handlers l a r rl h = Some h1"
    "h' = rt CcdIdleHook (h1\<lparr>g_pe_threads := (g_pe_threads h1)[nat (CmiMyRank E) := pthread_self E],
                            g_pe_thread_known := (g_pe_thread_known h1)[nat (CmiMyRank E) := True]\<rparr>)"
    by (auto simp: per_pe_setup_def i Let_def split: bind_splits)
  from register_frame [OF h1(1)] obtain hs where "h1 = h\<lparr>g_handlers := hs\<rparr>" by blast
  then show ?thesis unfolding h1(2) rt_def
    by (intro exI [of _ hs] exI [of _ "(g_pe_threads h1)[nat (CmiMyRank E) := pthread_self E]"]
        exI [of _ "(g_pe_thread_known h1)[nat (CmiMyRank E) := True]"] exI [of _ "rt_calls h @ [CcdIdleHook]"]) simp
qed

lemma init_runtime_frame:
  assumes "no_streams I h" "converse_law I" "init_runtime I E h = Some h'"
  shows "2 \<le> g_num_pes h' \<and> g_xstreams h' = replicate (nat (g_num_pes h')) nullptr \<and> s_used_by h' = (\<lambda>_. nullptr) \<and>
    tls_held h' = nullptr \<and> tls_task h' = nullptr \<and> live h' = live h \<and> tls_thread_cache h' = tls_thread_cache h \<and>
    g_exists h' \<and> (runtime_started h' \<longrightarrow> getpid I = runtime_pid h')"
proof -
  define h1 where "h1 = (if g_exists h \<and> runtime_started h \<and> getpid I \<noteq> runtime_pid h
                then h\<lparr>g_exists := False, runtime_started := False, init_refs := 0\<rparr> else h)"
  show ?thesis
  proof (cases "g_exists h1")
    case True
    then have c: "\<not> (g_exists h \<and> runtime_started h \<and> getpid I \<noteq> runtime_pid h)" by (auto simp: h1_def split: if_splits)
    then have e: "h1 = h" unfolding h1_def by (rule if_not_P)
    have "h' = h1" using assms(3) True unfolding init_runtime_def h1_def [symmetric] Let_def by simp
    then have eq: "h' = h" using e by simp
    show ?thesis using c True assms(1) unfolding no_streams_def e eq by blast
  next
    case False
    then have "Option.bind (ABTI_num_pes_rule I) (\<lambda>n. start_runtime I E n (global_new I n h1)) = Some h'"
      using assms(3) unfolding init_runtime_def h1_def [symmetric] Let_def by simp
    then obtain n where n: "ABTI_num_pes_rule I = Some n" "start_runtime I E n (global_new I n h1) = Some h'"
      by (cases "ABTI_num_pes_rule I") auto
    then have "2 \<le> n" using num_pes_lower [OF n(1)] by simp
    define g where "g = rt (ConverseInit n) (global_new I n h1)"
    obtain hs ts ks cs where ci: "converse_init I n g = g\<lparr>g_handlers := hs, g_pe_threads := ts, g_pe_thread_known := ks, rt_calls := cs\<rparr>"
      using assms(2) unfolding converse_law_def by blast
    obtain h2 where h2: "per_pe_setup I E (converse_init I n g) = Some h2"
      "h' = (if runtime_pid h2 \<noteq> getpid I then rt Atexit (h2\<lparr>runtime_started := True\<rparr>) else h2\<lparr>runtime_started := True\<rparr>)\<lparr>runtime_pid := getpid I\<rparr>"
      using n(2) by (auto simp: start_runtime_def g_def [symmetric] Let_def split: bind_splits)
    from per_pe_setup_frame [OF h2(1)] obtain hs' ts' ks' cs' where
      "h2 = g\<lparr>g_handlers := hs', g_pe_threads := ts', g_pe_thread_known := ks', rt_calls := cs'\<rparr>" unfolding ci by auto
    then have "g_num_pes h' = n" "g_xstreams h' = replicate (nat n) nullptr" "s_used_by h' = s_used_by h1" "tls_held h' = tls_held h1"
      "tls_task h' = tls_task h1" "live h' = live h1" "tls_thread_cache h' = tls_thread_cache h1" "g_exists h'" "getpid I = runtime_pid h'"
      unfolding h2(2) g_def global_new_def Let_def by simp_all
    moreover have "s_used_by h1 = s_used_by h" "tls_held h1 = tls_held h" "tls_task h1 = tls_task h" "live h1 = live h"
      "tls_thread_cache h1 = tls_thread_cache h" by (simp_all add: h1_def)
    ultimately show ?thesis using \<open>2 \<le> n\<close> assms(1) by (simp add: no_streams_def)
  qed
qed

text \<open>The process behind the start of the primary: the links of the stream, its scheduler with one new pool, and the caller's descriptor.\<close>

definition primary_up :: "'a abt_env \<Rightarrow> ptr \<Rightarrow> ptr \<Rightarrow> ptr \<Rightarrow> ptr \<Rightarrow> 'a abt \<Rightarrow> bool" where
  "primary_up E s p x t h \<longleftrightarrow>
     x_main_sched h x = s \<and> x_rank h x = 0 \<and> x_primary h x \<and> \<not> x_finished h x \<and> g_primary_xstream h = x \<and> tls_xstream h = x \<and>
     s_pools h s = [p] \<and> \<not> s_user_def h s \<and> \<not> p_user h p \<and> p_automatic h p \<and> p_num_scheds h p = 1 \<and> p_num_blocked h p = 0 \<and>
     p_count h p = 0 \<and> g_primary_thread h = t \<and> t_pool h t = p \<and> cth_userdata h (CthSelf E) = t \<and> tls_held h = nullptr \<and> tls_task h = nullptr"

lemma sched_default_sel:
  fixes h :: "'a abt"
  shows "\<exists>h1. ABTI_sched_create_predef s (p # ps) 0 0 None h = Some (Inr s, h1) \<and> s_pools h1 s = [p] \<and> \<not> s_user_def h1 s \<and>
    \<not> p_user h1 p \<and> p_automatic h1 p \<and> p_num_scheds h1 p = 1 \<and> p_num_blocked h1 p = 0 \<and> p_count h1 p = 0 \<and>
    live h1 = insert p (insert s (live h)) \<and> tls_held h1 = tls_held h \<and> tls_task h1 = tls_task h \<and>
    tls_thread_cache h1 = tls_thread_cache h \<and> s_used_by h1 = (s_used_by h)(s := nullptr) \<and> g_xstreams h1 = g_xstreams h \<and>
    g_num_pes h1 = g_num_pes h \<and> g_default_stacksize h1 = g_default_stacksize h \<and> g_exists h1 = g_exists h \<and> runtime_started h1 = runtime_started h \<and> runtime_pid h1 = runtime_pid h"
  by (simp add: ABTI_sched_create_predef_def ABT_sched_predef_of_def Let_def sched_new_def inc_scheds_def
      ABTI_pool_create_builtin_def fresh_id_def pool_new_def pool_queue_init_def)

lemma init_primary_up:
  fixes h :: "'a abt"
  assumes "tls_held h = nullptr" "tls_task h = nullptr" "t = next_desc m h" "distinct [s, p, x, t]" "p \<noteq> nullptr"
  shows "\<exists>h'. init_primary E s (p # ps) x m h = Some h' \<and> primary_up E s p x t h' \<and> g_xstreams h' = (g_xstreams h)[0 := x] \<and>
    s_used_by h' = (s_used_by h)(s := x) \<and> live h' = {s, p, x, t} \<union> live h \<and> g_num_pes h' = g_num_pes h \<and>
    g_default_stacksize h' = g_default_stacksize h \<and> g_exists h' = g_exists h \<and> runtime_started h' = runtime_started h \<and> runtime_pid h' = runtime_pid h"
proof -
  obtain h1 where h1: "ABTI_sched_create_predef s (p # ps) 0 0 None h = Some (Inr s, h1)" "s_pools h1 s = [p]" "\<not> s_user_def h1 s"
    "\<not> p_user h1 p" "p_automatic h1 p" "p_num_scheds h1 p = 1" "p_num_blocked h1 p = 0" "p_count h1 p = 0"
    "live h1 = insert p (insert s (live h))" "tls_held h1 = tls_held h" "tls_task h1 = tls_task h"
    "tls_thread_cache h1 = tls_thread_cache h" "s_used_by h1 = (s_used_by h)(s := nullptr)" "g_xstreams h1 = g_xstreams h"
    "g_num_pes h1 = g_num_pes h" "g_default_stacksize h1 = g_default_stacksize h" "g_exists h1 = g_exists h" "runtime_started h1 = runtime_started h"
    "runtime_pid h1 = runtime_pid h" using sched_default_sel by blast
  define h2 where "h2 = (xstream_new x 0 s True h1)\<lparr>g_primary_xstream := x, tls_xstream := x\<rparr>"
  have nd: "next_desc m h2 = t" using assms(3) h1(12) by (simp add: h2_def xstream_new_def next_desc_def)
  define h3 where "h3 = thread_fill t (CthSelf E) ABTI_THREAD_PRIMARY nullptr nullptr
      \<lparr>attr_stacksize = 0, attr_stackaddr = nullptr, attr_migratable = True\<rparr>
      (g_next_id (thread_new t (h2\<lparr>tls_thread_cache := butlast (tls_thread_cache h2)\<rparr>))) nullptr nullptr False False
      ((thread_new t (h2\<lparr>tls_thread_cache := butlast (tls_thread_cache h2)\<rparr>))\<lparr>g_next_id := g_next_id (thread_new t (h2\<lparr>tls_thread_cache := butlast (tls_thread_cache h2)\<rparr>)) + 1\<rparr>)"
  have a: "ABTI_pool_associate E t p h3 = Some (h3\<lparr>t_unit := (t_unit h3)(t := ABT_UNIT_NULL), t_pool := (t_pool h3)(t := p)\<rparr>)"
    by (rule associate_new) (use assms(5) h1(4) in \<open>simp_all add: h3_def h2_def xstream_new_def\<close>)
  have w: "ABTI_thread_wrap_primary E m (CthSelf E) p h2 = Some (t, h3\<lparr>t_unit := (t_unit h3)(t := ABT_UNIT_NULL), t_pool := (t_pool h3)(t := p),
      cth_userdata := (cth_userdata h3)(CthSelf E := t), cth_awaken := (cth_awaken h3)(CthSelf E := Some (Thread_awaken t))\<rparr>)"
    unfolding ABTI_thread_wrap_primary_def thread_alloc_eq nd fresh_id_eq Let_def prod.case h3_def [symmetric] a by simp
  have "s_pools h2 s ! 0 = p" "s_pools (xstream_new x 0 s True h1) s ! 0 = p" using h1(2) by (simp_all add: h2_def xstream_new_def)
  then have "init_primary E s (p # ps) x m h = Some (rt (CsdSetSleepOnIdle False) (rt (CsdSchedTableInstall 0 (Some s))
      (h3\<lparr>t_unit := (t_unit h3)(t := ABT_UNIT_NULL), t_pool := (t_pool h3)(t := p),
      cth_userdata := (cth_userdata h3)(CthSelf E := t), cth_awaken := (cth_awaken h3)(CthSelf E := Some (Thread_awaken t)), g_primary_thread := t\<rparr>)))"
    using w unfolding init_primary_def h1(1) Let_def h2_def [symmetric] by (simp add: Let_def h2_def [symmetric])
  then show ?thesis using assms(1,2) h1(2-)
    by (simp add: primary_up_def h3_def h2_def xstream_new_def thread_fill_def thread_new_def thread_queue_init_def Let_def insert_commute)
qed

lemma finalize_primary_up:
  fixes h :: "'a abt"
  assumes up: "primary_up E s p x t h" and E: "CmiIsPeThread E" and h: "g_initialized h" "init_refs h = 1" "distinct [s, p, x, t]"
    and tab: "g_xstreams h = (replicate (nat (g_num_pes h)) nullptr)[0 := x]" "2 \<le> g_num_pes h"
  shows "\<exists>h'. ABT_finalize E h = Some (Inr (), h') \<and> \<not> g_initialized h' \<and> init_refs h' = 0 \<and> tls_xstream h' = nullptr \<and>
    g_primary_xstream h' = nullptr \<and> g_primary_thread h' = nullptr \<and> cth_userdata h' (t_cth h t) = nullptr \<and>
    g_xstreams h' = replicate (nat (g_num_pes h)) nullptr \<and>
    s_used_by h' = (s_used_by h)(s := nullptr) \<and> live h' = live h - {s, p, x, t} \<and> tls_held h' = nullptr \<and> tls_task h' = nullptr \<and>
    g_num_pes h' = g_num_pes h \<and> g_exists h' = g_exists h \<and> runtime_started h' = runtime_started h \<and> runtime_pid h' = runtime_pid h"
proof -
  let ?h = "h\<lparr>init_refs := 0\<rparr>"
  note u = up [unfolded primary_up_def]
  have self: "ABTI_self_thread E h = t" using u E by (simp add: ABTI_self_thread_def)
  have none: "\<not> list_ex (\<lambda>r. g_xstreams h ! nat r \<noteq> nullptr) [1..g_num_pes h - 1]"
    unfolding tab(1) by (auto simp: list_ex_iff nth_list_update)
  have "finalize_queued E (x_main_sched ?h x) ?h = 0" using u by (simp add: finalize_queued_def pool_size_def builtin_size_def)
  then have drain: "finalize_drain E x ?h = Some ?h" by (subst finalize_drain.simps) simp
  have "ABT_finalize E h = Some (Inr (), finalize_primary E x t ?h)"
    using h(1,2) E self none drain u unfolding ABT_finalize_def by simp
  moreover have rep: "((replicate (nat (g_num_pes h)) nullptr)[0 := x])[0 := nullptr] = replicate (nat (g_num_pes h)) nullptr"
    using tab(2) by (simp add: list_update_same_conv)
  define h3 where "h3 = (ABTI_pool_disassociate E t (?h\<lparr>g_initialized := False, cth_awaken := (cth_awaken ?h)(t_cth ?h t := None),
      cth_userdata := (cth_userdata ?h)(t_cth ?h t := nullptr)\<rparr>))\<lparr>live := live h - {t}, g_primary_thread := nullptr,
      s_used_by := (s_used_by h)(s := nullptr)\<rparr>"
  have d: "ABTI_pool_disassociate E t g = g\<lparr>t_unit := (t_unit g)(t := ABT_UNIT_NULL), t_pool := (t_pool g)(t := nullptr)\<rparr>"
    if "t_pool g t = p" "\<not> p_user g p" for g :: "'a abt" using that by (simp add: ABTI_pool_disassociate_def)
  have sd: "ABTI_sched_destroy E s h3 = h3\<lparr>p_num_scheds := (p_num_scheds h)(p := 0), live := live h - {t} - {p} - {s}\<rparr>"
    using u by (simp add: ABTI_sched_destroy_def h3_def d Let_def pool_size_def builtin_size_def ABTI_pool_destroy_def)
  have "finalize_primary E x t ?h = rt (CsdSchedTableDefault 0) ((ABTI_sched_destroy E s h3)\<lparr>g_xstreams := (g_xstreams h)[0 := nullptr],
      g_primary_xstream := nullptr, tls_xstream := nullptr, live := live h - {t} - {p} - {s} - {x}\<rparr>)"
    using u unfolding sd by (simp add: finalize_primary_def h3_def d Let_def ABTI_sched_destroy_def pool_size_def builtin_size_def ABTI_pool_destroy_def)
  ultimately show ?thesis unfolding sd using u tab(1) rep by (simp add: h3_def d) (auto simp: tab)
qed

text \<open>
  C20. Initialisation and finalisation are a round trip.  From a process without streams, \<^verbatim>\<open>ABT_init\<close> sets up
  the primary stream on PE 0, alone in the slot table; any number of further \<^verbatim>\<open>ABT_init\<close> calls only count,
  and as many \<^verbatim>\<open>ABT_finalize\<close> calls only count back; the last \<^verbatim>\<open>ABT_finalize\<close> frees every object that
  \<^verbatim>\<open>ABT_init\<close> made and no other, clears the slot table and leaves a process without streams that can be
  initialised again, also in a child that was forked meanwhile.
\<close>

theorem init_finalize_roundtrip:
  fixes h :: "'a abt"
  assumes "\<not> g_initialized h" "no_streams I h" "converse_law I" "init_runtime I E h = Some hr" "CmiIsPeThread E"
    and "distinct [s, p, x, t]" "t = next_desc m h" "{s, p, x, t} \<inter> live h = {}" "nullptr \<notin> {s, p, x}"
  shows "\<exists>h1 h2. ABT_init I E s (p # ps) x m h = Some (Inr (), h1) \<and> ABT_initialized h1 = ABT_SUCCESS \<and> stream_init h1 \<and>
    (\<forall>n. ((\<lambda>g. snd (the (ABT_init I E s (p # ps) x m g))) ^^ n) h1 = h1\<lparr>init_refs := 1 + int n\<rparr> \<and>
         ((\<lambda>g. snd (the (ABT_finalize E g))) ^^ n) (h1\<lparr>init_refs := 1 + int n\<rparr>) = h1) \<and>
    ABT_finalize E h1 = Some (Inr (), h2) \<and> ABT_initialized h2 = ABT_ERR_UNINITIALIZED \<and> live h2 = live h \<and> no_streams I h2 \<and>
    tls_xstream h2 = nullptr \<and> g_xstreams h2 = replicate (nat (g_num_pes h1)) nullptr \<and> no_streams (I\<lparr>getpid := getpid I + 1\<rparr>) h2"
proof -
  note r = init_runtime_frame [OF assms(2-4)]
  have t: "t = next_desc m hr" using assms(7) r by (simp add: next_desc_def)
  from init_primary_up [of hr t m s p x E ps] r assms(6,9) t obtain g where
    g: "init_primary E s (p # ps) x m hr = Some g" "primary_up E s p x t g" "g_xstreams g = (g_xstreams hr)[0 := x]"
    "s_used_by g = (s_used_by hr)(s := x)" "live g = {s, p, x, t} \<union> live hr" "g_num_pes g = g_num_pes hr"
    "g_exists g = g_exists hr" "runtime_started g = runtime_started hr" "runtime_pid g = runtime_pid hr" by auto
  define h1 where "h1 = g\<lparr>g_initialized := True, init_refs := 1\<rparr>"
  have init: "ABT_init I E s (p # ps) x m h = Some (Inr (), h1)" using assms(1,4) g(1) by (simp add: ABT_init_def h1_def)
  have up: "primary_up E s p x t h1" using g(2) by (simp add: primary_up_def h1_def)
  have tab: "g_xstreams h1 = (replicate (nat (g_num_pes h1)) nullptr)[0 := x]" "2 \<le> g_num_pes h1" using g r by (simp_all add: h1_def)
  have si: "stream_init h1" unfolding stream_init_def
    by (intro exI [of _ x] exI [of _ s]) (use up tab g(4) r assms(9) in \<open>simp add: primary_up_def h1_def\<close>)
  have "init_refs h1 = 1" "g_initialized h1" by (simp_all add: h1_def)
  then have up_n: "((\<lambda>g. snd (the (ABT_init I E s (p # ps) x m g))) ^^ n) h1 = h1\<lparr>init_refs := 1 + int n\<rparr>" for n
    by (induction n) (simp_all add: ABT_init_def)
  have down_n: "((\<lambda>g. snd (the (ABT_finalize E g))) ^^ n) (h1\<lparr>init_refs := 1 + int n\<rparr>) = h1" for n
    by (induction n) (use \<open>init_refs h1 = 1\<close> \<open>g_initialized h1\<close> in \<open>simp_all add: funpow_Suc_right ABT_finalize_def del: funpow.simps(2)\<close>)
  from finalize_primary_up [OF up assms(5) \<open>g_initialized h1\<close> \<open>init_refs h1 = 1\<close> assms(6) tab] obtain h2 where
    h2: "ABT_finalize E h1 = Some (Inr (), h2)" "\<not> g_initialized h2" "tls_xstream h2 = nullptr"
    "g_xstreams h2 = replicate (nat (g_num_pes h1)) nullptr" "s_used_by h2 = (s_used_by h1)(s := nullptr)" "live h2 = live h1 - {s, p, x, t}"
    "tls_held h2 = nullptr" "tls_task h2 = nullptr" "g_num_pes h2 = g_num_pes h1" by blast
  have "live h2 = live h" using h2(6) g(5) r assms(8) by (auto simp: h1_def)
  moreover have "s_used_by h2 = (\<lambda>_. nullptr)" using h2(5) g(4) r by (simp add: h1_def fun_eq_iff)
  then have "no_streams J h2" for J :: "('a abt, 'b) process_scheme" using h2 tab(2) by (simp add: no_streams_def)
  ultimately show ?thesis
    using init si up_n down_n h2 \<open>g_initialized h1\<close> by (intro exI [of _ h1] exI [of _ h2]) (simp add: ABT_initialized_def)
qed

text \<open>A process whose runtime is up and whose library is not initialised; the new objects are at 2048, 256, 768 and 4096.\<close>

definition dormant :: abt_heap where
  "dormant = (abt_of heap0)\<lparr>g_initialized := False\<rparr>"

theorem init_finalize_roundtrip_witness:
  "\<exists>h1 h2. ABT_init env64 env0 2048 [256] 768 4096 dormant = Some (Inr (), h1) \<and> stream_init h1 \<and>
     ABT_finalize env0 h1 = Some (Inr (), h2) \<and> ABT_initialized h2 = ABT_ERR_UNINITIALIZED \<and> live h2 = {}"
proof -
  have sel: "\<not> g_initialized dormant" "g_exists dormant" "runtime_started dormant" "runtime_pid dormant = 1" "g_num_pes dormant = 4"
    "g_xstreams dormant = [nullptr, nullptr, nullptr, nullptr]" "s_used_by dormant = (\<lambda>_. nullptr)" "tls_held dormant = nullptr"
    "tls_task dormant = nullptr" "live dormant = {}" "tls_thread_cache dormant = []"
    by (simp_all add: dormant_def abt_of_def pool_heap.defs abt_heap.defs heap0_def)
  have r: "replicate (nat 4) nullptr = [nullptr, nullptr, nullptr, nullptr]" by (simp add: eval_nat_numeral)
  have n: "no_streams env64 dormant" unfolding no_streams_def sel r by simp
  have c: "converse_law env64" unfolding converse_law_def env64_def
    by (intro allI, rule_tac x = "g_handlers h" in exI, rule_tac x = "g_pe_threads h" in exI, rule_tac x = "g_pe_thread_known h" in exI,
        rule_tac x = "rt_calls h" in exI) simp
  have i: "init_runtime env64 env0 dormant = Some dormant" by (simp add: init_runtime_def sel env64_def)
  have pe: "CmiIsPeThread (env0 :: abt_heap env)" by (simp add: env0_def)
  show ?thesis
    using init_finalize_roundtrip [OF sel(1) n c i pe, of 2048 256 768 4096 4096 "[]"] by (auto simp: sel next_desc_def)
qed

text \<open>
  C36. A refused \<^verbatim>\<open>ABT_finalize\<close> leaves everything as it was, and says why: the library is not initialised; or,
  for the last reference, the caller is not on the primary stream, is not the primary ULT, or a
  secondary stream still exists.  Conversely a last finalisation that is not refused comes from the
  primary ULT on the primary stream when no secondary stream is left.
\<close>

theorem finalize_refused:
  fixes h :: "'a abt"
  assumes "ABT_finalize E h = Some (r, h')"
  shows "case r of
      Inl e \<Rightarrow> h' = h \<and>
        (e = ABT_ERR_UNINITIALIZED \<and> \<not> g_initialized h \<or>
         g_initialized h \<and> init_refs h \<le> 1 \<and>
           (e = ABT_ERR_INV_XSTREAM \<and> (\<not> CmiIsPeThread E \<or> tls_xstream h \<noteq> g_primary_xstream h) \<or>
            e = ABT_ERR_INV_THREAD \<and> ABTI_self_thread E h \<noteq> g_primary_thread h \<or>
            e = ABT_ERR_INV_XSTREAM \<and> (\<exists>q. 1 \<le> q \<and> q < g_num_pes h \<and> g_xstreams h ! nat q \<noteq> nullptr)))
    | Inr _ \<Rightarrow> g_initialized h \<and>
        (if init_refs h > 1 then h' = h\<lparr>init_refs := init_refs h - 1\<rparr>
         else CmiIsPeThread E \<and> tls_xstream h = g_primary_xstream h \<and> ABTI_self_thread E h = g_primary_thread h \<and>
           (\<forall>q. 1 \<le> q \<and> q < g_num_pes h \<longrightarrow> g_xstreams h ! nat q = nullptr))"
  using assms unfolding ABT_finalize_def Let_def by (auto simp: list_ex_iff split: if_splits bind_splits)

theorem finalize_refused_witness:
  "ABT_finalize (env0\<lparr>CmiIsPeThread := False\<rparr>) primary_only = Some (Inl ABT_ERR_INV_XSTREAM, primary_only) \<and>
   init_refs primary_only \<le> 1"
proof -
  have "init_refs primary_only = 1" by (simp add: primary_only_def abt_of_def pool_heap.defs abt_heap.defs)
  then have e: "ABT_finalize (env0\<lparr>CmiIsPeThread := False\<rparr>) primary_only = Some (Inl ABT_ERR_INV_XSTREAM, primary_only)"
    using primary_only_sel(8) by (simp add: ABT_finalize_def)
  show ?thesis using finalize_refused [OF e] e by simp
qed

end
