(* ===== verification/Waitlist.thy ===== *)
theory Waitlist
  imports Thread_Life
begin

section \<open>Wait lists\<close>

text \<open>
  The first part of \<^verbatim>\<open>src/src/sync.cpp\<close>: waiters, the spin lock of a synchronisation object, the linked
  list of its waiters, waking and waiting.  \<open>sync_heap\<close> adds the synchronisation objects to the state of
  the library.  Every mutex, condition variable and eventual has one spin lock and one wait list, so both
  are functions of the address of the object.  A waiter \<open>w\<close> is a record on the stack of the waiting
  thread.  \<open>None\<close> is a loop that never ends.
\<close>

record wait_heap = abt_heap +
  w_thread :: "ptr \<Rightarrow> ptr"              \<comment> \<open>\<^verbatim>\<open>ABTI_waiter\<close>; null for an external thread\<close>
  w_signaled :: "ptr \<Rightarrow> bool"
  w_next :: "ptr \<Rightarrow> ptr"
  slock :: "ptr \<Rightarrow> bool"
  wl_head :: "ptr \<Rightarrow> ptr"                \<comment> \<open>\<^verbatim>\<open>ABTI_waitlist\<close>\<close>
  wl_tail :: "ptr \<Rightarrow> ptr"

record mutex_heap = wait_heap +
  m_attrs :: "ptr \<Rightarrow> 32 word"            \<comment> \<open>bit 0: recursive\<close>
  m_locked :: "ptr \<Rightarrow> bool"
  m_nesting :: "ptr \<Rightarrow> int"
  m_owner :: "ptr \<Rightarrow> 64 word"
  ma_recursive :: "ptr \<Rightarrow> bool"

record cond_heap = mutex_heap +
  c_mutex :: "ptr \<Rightarrow> ptr"                \<comment> \<open>the first mutex used\<close>

record eventual_heap = cond_heap +
  e_ready :: "ptr \<Rightarrow> bool"
  e_nbytes :: "ptr \<Rightarrow> int"
  e_value :: "ptr \<Rightarrow> ptr"                \<comment> \<open>heap buffer when \<open>e_nbytes\<close> is positive\<close>
  buffer :: "ptr \<Rightarrow> 8 word list"         \<comment> \<open>the bytes of the buffer at an address\<close>

record rwlock_heap = eventual_heap +
  r_m :: "ptr \<Rightarrow> ptr"
  r_rd :: "ptr \<Rightarrow> ptr"
  r_wr :: "ptr \<Rightarrow> ptr"
  r_readers :: "ptr \<Rightarrow> int"
  r_writer :: "ptr \<Rightarrow> bool"

record barrier_heap = rwlock_heap +
  b_m :: "ptr \<Rightarrow> ptr"
  b_c :: "ptr \<Rightarrow> ptr"
  b_num :: "ptr \<Rightarrow> 32 word"
  b_waiting :: "ptr \<Rightarrow> 32 word"
  b_generation :: "ptr \<Rightarrow> 64 word"

record sync_heap = barrier_heap +
  f_m :: "ptr \<Rightarrow> ptr"
  f_c :: "ptr \<Rightarrow> ptr"
  f_n :: "ptr \<Rightarrow> 32 word"
  f_count :: "ptr \<Rightarrow> 32 word"
  f_cb :: "ptr \<Rightarrow> ptr"
  f_values :: "ptr \<Rightarrow> ptr list"
  f_ready :: "ptr \<Rightarrow> bool"

type_synonym 'a sync = "'a sync_heap_scheme"
type_synonym 'a sync_env = "'a sync_heap_scheme env"


subsection \<open>The spin lock of an object\<close>

definition spin_take :: "ptr \<Rightarrow> 'a sync \<Rightarrow> 'a sync" where
  "spin_take l h = h\<lparr>slock := (slock h)(l := True)\<rparr>"

partial_function (option) spin_acquire :: "'a sync_env \<Rightarrow> ptr \<Rightarrow> 'a sync \<Rightarrow> 'a sync option" where
  "spin_acquire E l h =
     (if slock h l then spin_acquire E l (sched_yield E h) else Some (spin_take l h))"

definition spin_release :: "ptr \<Rightarrow> 'a sync \<Rightarrow> 'a sync" where
  "spin_release l h = h\<lparr>slock := (slock h)(l := False)\<rparr>"


subsection \<open>The list\<close>

definition waiter_init :: "ptr \<Rightarrow> ptr \<Rightarrow> 'a sync \<Rightarrow> 'a sync" where
  "waiter_init w self h =
     h\<lparr>w_thread := (w_thread h)(w := if ABTI_can_block h self then t_cth h self else nullptr),
       w_signaled := (w_signaled h)(w := False), w_next := (w_next h)(w := nullptr)\<rparr>"

definition wl_push :: "ptr \<Rightarrow> ptr \<Rightarrow> 'a sync \<Rightarrow> 'a sync" where
  "wl_push l w h =
     (let h1 = h\<lparr>w_next := (w_next h)(w := nullptr)\<rparr>;
          h2 = (if wl_tail h1 l \<noteq> nullptr then h1\<lparr>w_next := (w_next h1)(wl_tail h1 l := w)\<rparr>
                else h1\<lparr>wl_head := (wl_head h1)(l := w)\<rparr>)
      in h2\<lparr>wl_tail := (wl_tail h2)(l := w)\<rparr>)"

definition wl_pop :: "ptr \<Rightarrow> 'a sync \<Rightarrow> ptr \<times> 'a sync" where
  "wl_pop l h =
     (let w = wl_head h l
      in if w = nullptr then (nullptr, h)
         else let h1 = h\<lparr>wl_head := (wl_head h)(l := w_next h w)\<rparr>
              in (w, if wl_head h1 l = nullptr then h1\<lparr>wl_tail := (wl_tail h1)(l := nullptr)\<rparr> else h1))"

text \<open>The loop of \<^verbatim>\<open>wl_remove\<close> at the node \<open>c\<close> behind \<open>prev\<close>.\<close>

partial_function (option) wl_remove_from :: "ptr \<Rightarrow> ptr \<Rightarrow> ptr \<Rightarrow> ptr \<Rightarrow> 'a sync \<Rightarrow> (bool \<times> 'a sync) option" where
  "wl_remove_from l w prev c h =
     (if c = nullptr then Some (False, h)
      else if c \<noteq> w then wl_remove_from l w c (w_next h c) h
      else let h1 = (if prev \<noteq> nullptr then h\<lparr>w_next := (w_next h)(prev := w_next h c)\<rparr>
                     else h\<lparr>wl_head := (wl_head h)(l := w_next h c)\<rparr>)
           in Some (True, if wl_tail h1 l = c then h1\<lparr>wl_tail := (wl_tail h1)(l := prev)\<rparr> else h1))"

definition wl_remove :: "ptr \<Rightarrow> ptr \<Rightarrow> 'a sync \<Rightarrow> (bool \<times> 'a sync) option" where
  "wl_remove l w h = wl_remove_from l w nullptr (wl_head h l) h"

text \<open>The broadcasts: take the whole list, then wake node after node, reading a node's link before waking it.\<close>

definition wl_take :: "ptr \<Rightarrow> 'a sync \<Rightarrow> ptr \<times> 'a sync" where
  "wl_take l h = (wl_head h l, h\<lparr>wl_head := (wl_head h)(l := nullptr), wl_tail := (wl_tail h)(l := nullptr)\<rparr>)"

definition wake :: "'a sync_env \<Rightarrow> ptr \<Rightarrow> 'a sync \<Rightarrow> 'a sync option" where
  "wake E w h =
     (let t = w_thread h w; h1 = h\<lparr>w_signaled := (w_signaled h)(w := True)\<rparr>
      in if t \<noteq> nullptr then map_option snd (CthAwakenIfBlocked E t h1) else Some h1)"

partial_function (option) wake_list :: "'a sync_env \<Rightarrow> ptr \<Rightarrow> 'a sync \<Rightarrow> 'a sync option" where
  "wake_list E w h =
     (if w = nullptr then Some h
      else let n = w_next h w in do { h1 \<leftarrow> wake E w h; wake_list E n h1 })"


subsection \<open>Waiting\<close>

partial_function (option) wait_signaled :: "'a sync_env \<Rightarrow> ptr \<Rightarrow> 'a sync \<Rightarrow> 'a sync option" where
  "wait_signaled E w h = (if w_signaled h w then Some h else wait_signaled E w (sched_yield E h))"

text \<open>
  A ULT blocks and the spin lock is released once it is blocked, before anything else runs; an external
  thread or a tasklet polls its record.
\<close>

definition wait_on :: "'a sync_env \<Rightarrow> ptr \<Rightarrow> ptr \<Rightarrow> ptr \<Rightarrow> 'a sync \<Rightarrow> 'a sync option" where
  "wait_on E w l self h =
     (if ABTI_can_block h self then Some (ABTI_thread_block E self (spin_release l h))
      else wait_signaled E w (spin_release l h))"

text \<open>\<open>now\<close> is the wall clock, which advances with the state.\<close>

partial_function (option) timed_loop :: "'a sync_env \<Rightarrow> ('a sync \<Rightarrow> time) \<Rightarrow> ptr \<Rightarrow> ptr \<Rightarrow> ptr \<Rightarrow> time \<Rightarrow> 'a sync \<Rightarrow>
    (bool \<times> 'a sync) option" where
  "timed_loop E now w l self deadline h =
     (if w_signaled h w then Some (True, h)
      else if now h \<ge> deadline
      then do { h1 \<leftarrow> spin_acquire E l h;
                if w_signaled h1 w then Some (True, spin_release l h1)
                else do { (b, h2) \<leftarrow> wl_remove l w h1; Some (False, spin_release l h2) } }
      else timed_loop E now w l self deadline (if ABTI_can_block h self then CthYield E h else sched_yield E h))"

definition wait_on_timed :: "'a sync_env \<Rightarrow> ('a sync \<Rightarrow> time) \<Rightarrow> ptr \<Rightarrow> ptr \<Rightarrow> ptr \<Rightarrow> time \<Rightarrow> 'a sync \<Rightarrow>
    (bool \<times> 'a sync) option" where
  "wait_on_timed E now w l self deadline h = timed_loop E now w l self deadline (spin_release l h)"

text \<open>A real-time clock reading and an absolute time, in seconds and nanoseconds.\<close>

definition realtime_to_wall :: "time \<Rightarrow> int \<times> int \<Rightarrow> int \<times> int \<Rightarrow> time" where
  "realtime_to_wall wall rt_now abstime = wall + (fst abstime - fst rt_now) * 1000000000 + (snd abstime - snd rt_now)"


subsection \<open>A wait list is a sequence\<close>

primrec wchain :: "(ptr \<Rightarrow> ptr) \<Rightarrow> ptr \<Rightarrow> ptr list \<Rightarrow> ptr \<Rightarrow> bool" where
  "wchain nx p [] q \<longleftrightarrow> p = q"
| "wchain nx p (w # ws) q \<longleftrightarrow> p = w \<and> w \<noteq> nullptr \<and> wchain nx (nx w) ws q"

lemma wchain_append: "wchain nx p (us @ vs) q \<longleftrightarrow> (\<exists>m. wchain nx p us m \<and> wchain nx m vs q)"
  by (induction us arbitrary: p) auto

lemma wchain_cong: "(\<And>w. w \<in> set ws \<Longrightarrow> nx w = nx' w) \<Longrightarrow> wchain nx p ws q = wchain nx' p ws q"
  by (induction ws arbitrary: p) auto

lemma wchain_upd [simp]: "t \<notin> set ws \<Longrightarrow> wchain (nx(t := x)) p ws q = wchain nx p ws q"
  by (rule wchain_cong) auto

lemma wchain_nonnull: "wchain nx p ws q \<Longrightarrow> nullptr \<notin> set ws"
  by (induction ws arbitrary: p) auto

definition wl_rep :: "ptr \<Rightarrow> 'a sync \<Rightarrow> ptr list \<Rightarrow> bool" where
  "wl_rep l h ws \<longleftrightarrow> wchain (w_next h) (wl_head h l) ws nullptr \<and> distinct ws \<and> wl_tail h l = (if ws = [] then nullptr else last ws)"

lemma wl_rep_frame:
  "wl_rep l h ws \<Longrightarrow> wl_head h' l = wl_head h l \<Longrightarrow> wl_tail h' l = wl_tail h l \<Longrightarrow> (\<And>w. w \<in> set ws \<Longrightarrow> w_next h' w = w_next h w) \<Longrightarrow>
   wl_rep l h' ws"
  unfolding wl_rep_def using wchain_cong [of ws "w_next h" "w_next h'"] by auto

lemma wl_rep_nonnull: "wl_rep l h ws \<Longrightarrow> nullptr \<notin> set ws"
  by (auto simp: wl_rep_def dest: wchain_nonnull)

lemma wl_push_rep:
  assumes r: "wl_rep l h ws" and w: "w \<notin> set ws" "w \<noteq> nullptr"
  shows "wl_rep l (wl_push l w h) (ws @ [w])"
proof (cases "ws = []")
  case True
  then show ?thesis using r w by (simp add: wl_rep_def wl_push_def Let_def)
next
  case False
  define us t where "us = butlast ws" and "t = last ws"
  have ws: "ws = us @ [t]" using False by (simp add: us_def t_def)
  have t: "wl_tail h l = t" "t \<noteq> nullptr" "t \<noteq> w" "t \<notin> set us" using r w wl_rep_nonnull [OF r] by (auto simp: wl_rep_def ws)
  let ?nx = "(w_next h)(w := nullptr, t := w)"
  have "wchain (w_next h) (wl_head h l) us t" using r by (simp add: wl_rep_def ws wchain_append)
  moreover have "wchain ?nx (wl_head h l) us t = wchain (w_next h) (wl_head h l) us t" using w t by (simp add: ws)
  ultimately have "wchain ?nx (wl_head h l) (us @ [t, w]) nullptr" using t w by (simp add: wchain_append)
  then show ?thesis using r w t by (simp add: wl_rep_def wl_push_def Let_def ws)
qed

lemma wl_pop_rep:
  assumes r: "wl_rep l h ws"
  shows "case ws of [] \<Rightarrow> wl_pop l h = (nullptr, h) | v # vs \<Rightarrow> \<exists>h'. wl_pop l h = (v, h') \<and> wl_rep l h' vs \<and> w_next h' = w_next h"
proof (cases ws)
  case Nil
  then show ?thesis using r by (simp add: wl_rep_def wl_pop_def)
next
  case (Cons v vs)
  then have v: "wl_head h l = v" "v \<noteq> nullptr" "wchain (w_next h) (w_next h v) vs nullptr" "distinct vs"
    "wl_tail h l = (if vs = [] then v else last vs)" using r by (auto simp: wl_rep_def)
  have "w_next h v = nullptr \<longleftrightarrow> vs = []" using v(3) by (cases vs) auto
  then show ?thesis using v by (auto simp: Cons wl_pop_def wl_rep_def Let_def)
qed

lemma wl_remove_from_rep:
  assumes "wchain (w_next h) (wl_head h l) us c" "wchain (w_next h) c vs nullptr" "distinct (us @ vs)"
    "wl_tail h l = (if us @ vs = [] then nullptr else last (us @ vs))" "w \<notin> set us"
  shows "\<exists>h'. wl_remove_from l w (if us = [] then nullptr else last us) c h = Some (w \<in> set vs, h') \<and> wl_rep l h' (us @ remove1 w vs) \<and>
    (\<forall>v. v \<notin> set (us @ vs) \<longrightarrow> w_next h' v = w_next h v) \<and> (\<forall>k. k \<noteq> l \<longrightarrow> wl_head h' k = wl_head h k \<and> wl_tail h' k = wl_tail h k)"
  using assms
proof (induction vs arbitrary: us c)
  case Nil
  then show ?case by (subst wl_remove_from.simps) (auto simp: wl_rep_def)
next
  case (Cons v vs)
  then have v: "c = v" "v \<noteq> nullptr" "wchain (w_next h) (w_next h v) vs nullptr" by auto
  show ?case
  proof (cases "v = w")
    case False
    have "wchain (w_next h) (wl_head h l) (us @ [v]) (w_next h v)" using Cons.prems(1) v by (auto simp: wchain_append)
    from Cons.IH [OF this v(3)] Cons.prems(3-5) False show ?thesis
      using v(1,2) by (subst wl_remove_from.simps) auto
  next
    case True
    define h' where "h' = (let h1 = (if us \<noteq> [] then h\<lparr>w_next := (w_next h)(last us := w_next h v)\<rparr> else h\<lparr>wl_head := (wl_head h)(l := w_next h v)\<rparr>)
        in if wl_tail h1 l = v then h1\<lparr>wl_tail := (wl_tail h1)(l := if us = [] then nullptr else last us)\<rparr> else h1)"
    have lu: "us \<noteq> [] \<Longrightarrow> last us \<noteq> nullptr" using wchain_nonnull [OF Cons.prems(1)] last_nonnull by blast
    have run: "wl_remove_from l w (if us = [] then nullptr else last us) c h = Some (True, h')"
      using v(1,2) True lu by (subst wl_remove_from.simps) (auto simp: h'_def Let_def)
    have tl: "wl_tail h l = v \<longleftrightarrow> vs = []" using Cons.prems(3,4) by (cases vs rule: rev_cases) auto
    have "wl_rep l h' (us @ vs)"
    proof (cases us rule: rev_cases)
      case Nil
      then show ?thesis using Cons.prems v tl by (auto simp: wl_rep_def h'_def Let_def)
    next
      case (snoc ts t)
      have c: "wchain (w_next h) (wl_head h l) ts t" "t \<noteq> nullptr" using Cons.prems(1) by (auto simp: snoc wchain_append)
      have nt: "t \<notin> set ts" "t \<notin> set vs" using Cons.prems(3) by (auto simp: snoc)
      let ?nx = "(w_next h)(t := w_next h v)"
      have "wchain ?nx (wl_head h l) ts t" using c(1) nt by simp
      moreover have "wchain ?nx (w_next h v) vs nullptr" using v(3) nt by simp
      ultimately have "wchain ?nx (wl_head h l) (ts @ t # vs) nullptr" using c(2) by (auto simp: wchain_append)
      then show ?thesis using Cons.prems(3,4) tl by (auto simp: wl_rep_def h'_def snoc Let_def)
    qed
    moreover have "\<forall>u. u \<notin> set (us @ v # vs) \<longrightarrow> w_next h' u = w_next h u" "\<forall>k. k \<noteq> l \<longrightarrow> wl_head h' k = wl_head h k \<and> wl_tail h' k = wl_tail h k"
      by (auto simp: h'_def Let_def)
    ultimately show ?thesis using run True by auto
  qed
qed

lemma wl_remove_rep:
  assumes "wl_rep l h ws"
  shows "\<exists>h'. wl_remove l w h = Some (w \<in> set ws, h') \<and> wl_rep l h' (remove1 w ws) \<and>
    (\<forall>v. v \<notin> set ws \<longrightarrow> w_next h' v = w_next h v) \<and> (\<forall>k. k \<noteq> l \<longrightarrow> wl_head h' k = wl_head h k \<and> wl_tail h' k = wl_tail h k)"
  using wl_remove_from_rep [of h l "[]" "wl_head h l" ws w] assms by (simp add: wl_remove_def wl_rep_def)

text \<open>
  The interface the synchronisation objects use: a first-in first-out queue of waiters from which any
  member can be withdrawn.  \<open>rep s ws\<close>: in the state \<open>s\<close> the queue holds \<open>ws\<close>, the oldest first.
\<close>

locale wait_queue =
  fixes rep :: "'s \<Rightarrow> ptr list \<Rightarrow> bool"
    and push :: "ptr \<Rightarrow> 's \<Rightarrow> 's"
    and pop :: "'s \<Rightarrow> ptr \<times> 's"
    and remove :: "ptr \<Rightarrow> 's \<Rightarrow> (bool \<times> 's) option"
  assumes push_rep: "rep s ws \<Longrightarrow> w \<notin> set ws \<Longrightarrow> w \<noteq> nullptr \<Longrightarrow> rep (push w s) (ws @ [w])"
    and pop_empty: "rep s [] \<Longrightarrow> pop s = (nullptr, s)"
    and pop_first: "rep s (w # ws) \<Longrightarrow> \<exists>s'. pop s = (w, s') \<and> rep s' ws"
    and remove_rep: "rep s ws \<Longrightarrow> \<exists>s'. remove w s = Some (w \<in> set ws, s') \<and> rep s' (remove1 w ws)"
begin

text \<open>Pushes followed by pops hand out the waiters in the order of the pushes, behind those that waited before.\<close>

primrec pops :: "nat \<Rightarrow> 's \<Rightarrow> ptr list \<times> 's" where
  "pops 0 s = ([], s)"
| "pops (Suc n) s = (let (w, s1) = pop s; (us, s2) = pops n s1 in (w # us, s2))"

lemma pushes_rep: "rep s ws \<Longrightarrow> distinct (ws @ us) \<Longrightarrow> nullptr \<notin> set us \<Longrightarrow> rep (fold push us s) (ws @ us)"
proof (induction us arbitrary: s ws)
  case (Cons u us)
  have "rep (push u s) (ws @ [u])" using Cons.prems by (intro push_rep) auto
  from Cons.IH [OF this] Cons.prems show ?case by simp
qed simp

lemma pops_rep: "rep s (us @ vs) \<Longrightarrow> \<exists>s'. pops (length us) s = (us, s') \<and> rep s' vs"
proof (induction us arbitrary: s)
  case (Cons u us)
  from pop_first [of s u "us @ vs"] Cons.prems obtain s1 where "pop s = (u, s1)" "rep s1 (us @ vs)" by auto
  with Cons.IH [of s1] show ?case by auto
qed simp

lemma fifo:
  assumes "rep s ws" "distinct (ws @ us)" "nullptr \<notin> set us"
  shows "\<exists>s'. pops (length (ws @ us)) (fold push us s) = (ws @ us, s') \<and> rep s' []"
  using pops_rep [of _ "ws @ us" "[]"] pushes_rep [OF assms] by simp

text \<open>A waiter that withdraws is never handed out, and nobody else is affected.\<close>

lemma withdraw:
  assumes "rep s (us @ w # vs)" "distinct (us @ w # vs)"
  shows "\<exists>s1 s2. remove w s = Some (True, s1) \<and> pops (length (us @ vs)) s1 = (us @ vs, s2) \<and> rep s2 []"
proof -
  have "remove1 w (us @ w # vs) = us @ vs" by (rule remove1_append_mid [OF assms(2)])
  with remove_rep [OF assms(1), of w] obtain s1 where "remove w s = Some (True, s1)" "rep s1 (us @ vs)" by auto
  with pops_rep [of s1 "us @ vs" "[]"] show ?thesis by auto
qed

end

interpretation wq: wait_queue "wl_rep l" "wl_push l" "wl_pop l" "wl_remove l" for l
proof
  fix s :: "'a sync" and ws w
  show "wl_rep l s ws \<Longrightarrow> w \<notin> set ws \<Longrightarrow> w \<noteq> nullptr \<Longrightarrow> wl_rep l (wl_push l w s) (ws @ [w])" by (rule wl_push_rep)
  show "wl_rep l s [] \<Longrightarrow> wl_pop l s = (nullptr, s)" using wl_pop_rep [of l s "[]"] by simp
  show "\<exists>s'. wl_pop l s = (w, s') \<and> wl_rep l s' ws" if "wl_rep l s (w # ws)" using wl_pop_rep [OF that] by auto
  show "\<exists>s'. wl_remove l w s = Some (w \<in> set ws, s') \<and> wl_rep l s' (remove1 w ws)" if "wl_rep l s ws" using wl_remove_rep [OF that, of w] by auto
qed

lemma wl_push_frame:
  assumes "wl_rep k h vs" "k \<noteq> l" "wl_rep l h ws" "w \<notin> set vs" "set ws \<inter> set vs = {}"
  shows "wl_rep k (wl_push l w h) vs"
proof -
  have "wl_tail h l \<notin> set vs" using assms(3,5) wl_rep_nonnull [OF assms(1)] by (cases ws rule: rev_cases) (auto simp: wl_rep_def)
  then show ?thesis using assms by (intro wl_rep_frame [OF assms(1)]) (auto simp: wl_push_def Let_def)
qed

lemma wl_pushes_frame:
  "wl_rep k h vs \<Longrightarrow> k \<noteq> l \<Longrightarrow> wl_rep l h ws \<Longrightarrow> distinct (ws @ us) \<Longrightarrow> nullptr \<notin> set us \<Longrightarrow> set (ws @ us) \<inter> set vs = {} \<Longrightarrow>
   wl_rep k (fold (wl_push l) us h) vs"
proof (induction us arbitrary: h ws)
  case (Cons u us)
  have "wl_rep k (wl_push l u h) vs" using Cons.prems by (intro wl_push_frame) auto
  moreover have "wl_rep l (wl_push l u h) (ws @ [u])" using Cons.prems by (intro wl_push_rep) auto
  ultimately show ?case using Cons.IH [of "wl_push l u h" "ws @ [u]"] Cons.prems by simp
qed simp

text \<open>Zeroed memory: every synchronisation object is in its initial state and has no waiter.\<close>

definition zero_sync :: "abt_heap \<Rightarrow> sync_heap" where
  "zero_sync h = barrier_heap.extend (rwlock_heap.extend (eventual_heap.extend (cond_heap.extend (mutex_heap.extend
     (wait_heap.extend (abt_heap.extend h
       (wait_heap.fields (\<lambda>_. 0) (\<lambda>_. False) (\<lambda>_. 0) (\<lambda>_. False) (\<lambda>_. 0) (\<lambda>_. 0)))
       (mutex_heap.fields (\<lambda>_. 0) (\<lambda>_. False) (\<lambda>_. 0) (\<lambda>_. 0) (\<lambda>_. False)))
       (cond_heap.fields (\<lambda>_. 0)))
       (eventual_heap.fields (\<lambda>_. False) (\<lambda>_. 0) (\<lambda>_. 0) (\<lambda>_. [])))
       (rwlock_heap.fields (\<lambda>_. 0) (\<lambda>_. 0) (\<lambda>_. 0) (\<lambda>_. 0) (\<lambda>_. False)))
       (barrier_heap.fields (\<lambda>_. 0) (\<lambda>_. 0) (\<lambda>_. 0) (\<lambda>_. 0) (\<lambda>_. 0)))
       (sync_heap.fields (\<lambda>_. 0) (\<lambda>_. 0) (\<lambda>_. 0) (\<lambda>_. 0) (\<lambda>_. 0) (\<lambda>_. []) (\<lambda>_. False))"

lemmas zero_sync_defs = zero_sync_def abt_heap.defs wait_heap.defs mutex_heap.defs cond_heap.defs eventual_heap.defs
  rwlock_heap.defs barrier_heap.defs sync_heap.defs

lemma zero_sync_rep: "wl_rep l (zero_sync h) []"
  by (simp add: wl_rep_def zero_sync_defs)

text \<open>
  C25. The linked wait list of an object is a first-in first-out queue: after waiters \<open>us\<close> joined a list that
  held \<open>ws\<close>, popping hands out \<open>ws\<close> and then \<open>us\<close> in order and leaves the list empty; a waiter that gives
  up is found and taken out, wherever it stands, without disturbing the order of the others, and one
  that is not on the list is reported as such; the lists of other objects are not affected.
\<close>

theorem waitlist_refines:
  assumes "wl_rep l h ws" "distinct (ws @ us)" "nullptr \<notin> set us" "k \<noteq> l" "wl_rep k h vs" "set (ws @ us) \<inter> set vs = {}"
  shows "let h1 = fold (wl_push l) us h in
    wl_rep k h1 vs \<and>
    (\<exists>h2. wait_queue.pops (wl_pop l) (length (ws @ us)) h1 = (ws @ us, h2) \<and> wl_pop l h2 = (nullptr, h2)) \<and>
    (\<forall>w. \<exists>h2 h3. wl_remove l w h1 = Some (w \<in> set (ws @ us), h2) \<and> wl_rep k h2 vs \<and>
       wait_queue.pops (wl_pop l) (length (remove1 w (ws @ us))) h2 = (remove1 w (ws @ us), h3) \<and> wl_pop l h3 = (nullptr, h3))"
proof -
  let ?h1 = "fold (wl_push l) us h"
  have r: "wl_rep l ?h1 (ws @ us)" by (rule wq.pushes_rep [OF assms(1-3)])
  have k: "wl_rep k ?h1 vs" by (rule wl_pushes_frame [OF assms(5,4,1,2,3,6)])
  have "\<exists>h2 h3. wl_remove l w ?h1 = Some (w \<in> set (ws @ us), h2) \<and> wl_rep k h2 vs \<and>
      wait_queue.pops (wl_pop l) (length (remove1 w (ws @ us))) h2 = (remove1 w (ws @ us), h3) \<and> wl_pop l h3 = (nullptr, h3)" for w
  proof -
    from wl_remove_rep [OF r, of w] obtain h2 where h2: "wl_remove l w ?h1 = Some (w \<in> set (ws @ us), h2)" "wl_rep l h2 (remove1 w (ws @ us))"
      "\<forall>v. v \<notin> set (ws @ us) \<longrightarrow> w_next h2 v = w_next ?h1 v" "\<forall>k. k \<noteq> l \<longrightarrow> wl_head h2 k = wl_head ?h1 k \<and> wl_tail h2 k = wl_tail ?h1 k" by blast
    have "wl_rep k h2 vs" by (rule wl_rep_frame [OF k]) (use h2(3,4) assms(4,6) in auto)
    moreover from wq.pops_rep [of l h2 "remove1 w (ws @ us)" "[]"] h2(2) obtain h3 where
      "wait_queue.pops (wl_pop l) (length (remove1 w (ws @ us))) h2 = (remove1 w (ws @ us), h3)" "wl_rep l h3 []" by auto
    ultimately show ?thesis using h2(1) wq.pop_empty by blast
  qed
  moreover have "\<exists>h2. wait_queue.pops (wl_pop l) (length (ws @ us)) ?h1 = (ws @ us, h2) \<and> wl_pop l h2 = (nullptr, h2)"
    using wq.fifo [OF assms(1-3)] wq.pop_empty by blast
  ultimately show ?thesis using k by (simp add: Let_def)
qed

theorem waitlist_refines_witness:
  "let h1 = fold (wl_push 8) [512, 768] (zero_sync (abt_of heap0)) in
    wl_rep 16 h1 [] \<and>
    (\<exists>h2. wait_queue.pops (wl_pop 8) (length ([] @ [512, 768 :: ptr])) h1 = ([] @ [512, 768], h2) \<and> wl_pop 8 h2 = (nullptr, h2)) \<and>
    (\<forall>w. \<exists>h2 h3. wl_remove 8 w h1 = Some (w \<in> set ([] @ [512, 768]), h2) \<and> wl_rep 16 h2 [] \<and>
       wait_queue.pops (wl_pop 8) (length (remove1 w ([] @ [512, 768]))) h2 = (remove1 w ([] @ [512, 768]), h3) \<and>
       wl_pop 8 h3 = (nullptr, h3))"
  by (rule waitlist_refines [OF zero_sync_rep _ _ _ zero_sync_rep]) simp_all

end
