(* ===== verification/Mutex.thy ===== *)
theory Mutex
  imports Waitlist
begin

section \<open>Mutexes and condition variables\<close>

text \<open>
  The mutex and condition-variable parts of \<^verbatim>\<open>src/src/sync.cpp\<close>, as one thread executes them; what other
  threads do meanwhile is in the runtime calls that wait.  \<open>w\<close> is the address of the caller's waiter
  record.  The locking decision under the spin lock is one definition, \<open>mutex_try\<close>, which the interleaved
  model of \<open>Mutex_Steps\<close> uses as well.  \<open>None\<close> is a lock that is never obtained, or the overflow of a
  signed counter.
\<close>

unbundle bit_operations_syntax

definition INT_MAX :: int where "INT_MAX = 2147483647"

text \<open>\<^verbatim>\<open>ABTI_CHECK_NULL\<close> of \<^verbatim>\<open>ABTI_obj\<close> of a handle.\<close>

definition with_obj :: "ABT_error \<Rightarrow> ptr \<Rightarrow> (ptr \<Rightarrow> ('b, 's) api option) \<Rightarrow> 's \<Rightarrow> ('b, 's) api option" where
  "with_obj err handle k h =
     (let x = ABTI_obj handle in if ABTI_is_null_handle x then Some (Inl err, h) else k x)"

lemma with_obj_ok [simp]: "is_obj x \<Longrightarrow> with_obj err x k h = k x"
  by (simp add: with_obj_def)

lemma spin_acquire_free [simp]: "\<not> slock h l \<Longrightarrow> spin_acquire E l h = Some (spin_take l h)"
  by (subst spin_acquire.simps) simp

lemma spin_again: "\<not> slock h l \<Longrightarrow> spin_release l (spin_take l h) = h"
  by (simp add: spin_release_def spin_take_def fun_upd_idem)


subsection \<open>Mutexes\<close>

definition self_id :: "'a sync_env \<Rightarrow> ptr \<Rightarrow> 'a sync \<Rightarrow> 64 word" where
  "self_id E self h = (if self \<noteq> nullptr then of_nat (t_id h self) else of_nat (pthread_self E) OR push_bit 63 1)"

text \<open>The decision under the spin lock: take a free mutex, or nest if the caller owns it and it is recursive.\<close>

definition mutex_try :: "64 word \<Rightarrow> ptr \<Rightarrow> 'a sync \<Rightarrow> (bool \<times> 'a sync) option" where
  "mutex_try me m h =
     (if \<not> m_locked h m
      then Some (True, h\<lparr>m_locked := (m_locked h)(m := True), m_owner := (m_owner h)(m := me), m_nesting := (m_nesting h)(m := 0)\<rparr>)
      else if m_attrs h m AND 1 \<noteq> 0 \<and> m_owner h m = me
      then if m_nesting h m = INT_MAX then None
           else Some (True, h\<lparr>m_nesting := (m_nesting h)(m := m_nesting h m + 1)\<rparr>)
      else Some (False, h))"

partial_function (option) mutex_lock_loop :: "'a sync_env \<Rightarrow> ptr \<Rightarrow> ptr \<Rightarrow> 64 word \<Rightarrow> ptr \<Rightarrow> bool \<Rightarrow> 'a sync \<Rightarrow> 'a sync option" where
  "mutex_lock_loop E w self me m spin_only h =
     do { h1 \<leftarrow> spin_acquire E m h;
          (ok, h2) \<leftarrow> mutex_try me m h1;
          if ok then Some (spin_release m h2)
          else if spin_only then mutex_lock_loop E w self me m spin_only (sched_yield E (spin_release m h2))
          else do { h3 \<leftarrow> wait_on E w m self (wl_push m w (waiter_init w self h2));
                    mutex_lock_loop E w self me m spin_only h3 } }"

definition mutex_lock :: "'a sync_env \<Rightarrow> ptr \<Rightarrow> ptr \<Rightarrow> bool \<Rightarrow> 'a sync \<Rightarrow> (unit, 'a sync) api option" where
  "mutex_lock E w m spin_only h =
     (let self = ABTI_self_thread E h
      in map_option (Pair (Inr ())) (mutex_lock_loop E w self (self_id E self h) m spin_only h))"

definition ABT_mutex_create :: "ptr \<Rightarrow> 'a sync \<Rightarrow> (ptr, 'a sync) api" where
  "ABT_mutex_create m h =
     (Inr m, h\<lparr>live := insert m (live h), m_attrs := (m_attrs h)(m := 0), slock := (slock h)(m := False),
              m_locked := (m_locked h)(m := False), m_nesting := (m_nesting h)(m := 0), m_owner := (m_owner h)(m := 0),
              wl_head := (wl_head h)(m := nullptr), wl_tail := (wl_tail h)(m := nullptr)\<rparr>)"

definition ABT_mutex_create_with_attr :: "ptr \<Rightarrow> ptr \<Rightarrow> 'a sync \<Rightarrow> (ptr, 'a sync) api" where
  "ABT_mutex_create_with_attr attr m h =
     (let (r, h1) = ABT_mutex_create m h; a = ABTI_obj attr
      in (Inr m, if a \<noteq> nullptr \<and> ma_recursive h1 a then h1\<lparr>m_attrs := (m_attrs h1)(m := m_attrs h1 m OR 1)\<rparr> else h1))"

definition ABT_mutex_free :: "ptr \<Rightarrow> 'a sync \<Rightarrow> (unit, 'a sync) api option" where
  "ABT_mutex_free mutex h = with_obj ABT_ERR_INV_MUTEX mutex (\<lambda>m. Some (Inr (), h\<lparr>live := live h - {m}\<rparr>)) h"

definition ABT_mutex_lock :: "'a sync_env \<Rightarrow> ptr \<Rightarrow> ptr \<Rightarrow> 'a sync \<Rightarrow> (unit, 'a sync) api option" where
  "ABT_mutex_lock E w mutex h = with_obj ABT_ERR_INV_MUTEX mutex (\<lambda>m. mutex_lock E w m False h) h"

definition ABT_mutex_lock_high :: "'a sync_env \<Rightarrow> ptr \<Rightarrow> ptr \<Rightarrow> 'a sync \<Rightarrow> (unit, 'a sync) api option" where
  "ABT_mutex_lock_high E w mutex h = ABT_mutex_lock E w mutex h"

definition ABT_mutex_lock_low :: "'a sync_env \<Rightarrow> ptr \<Rightarrow> ptr \<Rightarrow> 'a sync \<Rightarrow> (unit, 'a sync) api option" where
  "ABT_mutex_lock_low E w mutex h = ABT_mutex_lock E w mutex h"

definition ABT_mutex_spinlock :: "'a sync_env \<Rightarrow> ptr \<Rightarrow> ptr \<Rightarrow> 'a sync \<Rightarrow> (unit, 'a sync) api option" where
  "ABT_mutex_spinlock E w mutex h = with_obj ABT_ERR_INV_MUTEX mutex (\<lambda>m. mutex_lock E w m True h) h"

definition ABT_mutex_trylock :: "'a sync_env \<Rightarrow> ptr \<Rightarrow> 'a sync \<Rightarrow> (unit, 'a sync) api option" where
  "ABT_mutex_trylock E mutex h = with_obj ABT_ERR_INV_MUTEX mutex (\<lambda>m.
     do { h1 \<leftarrow> spin_acquire E m h;
          (ok, h2) \<leftarrow> mutex_try (self_id E (ABTI_self_thread E h) h) m h1;
          Some (if ok then Inr () else Inl ABT_ERR_MUTEX_LOCKED, spin_release m h2) }) h"

text \<open>The part of \<^verbatim>\<open>ABT_mutex_unlock\<close> under the spin lock, with the waiter to wake.\<close>

definition mutex_give :: "ptr \<Rightarrow> 'a sync \<Rightarrow> ptr \<times> 'a sync" where
  "mutex_give m h =
     (if m_nesting h m > 0 then (nullptr, h\<lparr>m_nesting := (m_nesting h)(m := m_nesting h m - 1)\<rparr>)
      else wl_pop m (h\<lparr>m_locked := (m_locked h)(m := False), m_owner := (m_owner h)(m := 0)\<rparr>))"

definition wake_opt :: "'a sync_env \<Rightarrow> ptr \<Rightarrow> 'a sync \<Rightarrow> 'a sync option" where
  "wake_opt E w h = (if w \<noteq> nullptr then wake E w h else Some h)"

definition ABT_mutex_unlock :: "'a sync_env \<Rightarrow> ptr \<Rightarrow> 'a sync \<Rightarrow> (unit, 'a sync) api option" where
  "ABT_mutex_unlock E mutex h = with_obj ABT_ERR_INV_MUTEX mutex (\<lambda>m.
     do { h1 \<leftarrow> spin_acquire E m h;
          let (w, h2) = mutex_give m h1;
          h3 \<leftarrow> wake_opt E w (spin_release m h2);
          Some (Inr (), h3) }) h"

definition ABT_mutex_unlock_se :: "'a sync_env \<Rightarrow> ptr \<Rightarrow> 'a sync \<Rightarrow> (unit, 'a sync) api option" where
  "ABT_mutex_unlock_se E mutex h = ABT_mutex_unlock E mutex h"

definition ABT_mutex_unlock_de :: "'a sync_env \<Rightarrow> ptr \<Rightarrow> 'a sync \<Rightarrow> (unit, 'a sync) api option" where
  "ABT_mutex_unlock_de E mutex h = ABT_mutex_unlock E mutex h"

definition ABT_mutex_equal :: "ptr \<Rightarrow> ptr \<Rightarrow> 'a sync \<Rightarrow> (bool, 'a sync) api" where
  "ABT_mutex_equal mutex1 mutex2 h = (Inr (mutex1 = mutex2), h)"

definition ABT_mutex_get_attr :: "ptr \<Rightarrow> ptr \<Rightarrow> 'a sync \<Rightarrow> (ptr, 'a sync) api option" where
  "ABT_mutex_get_attr mutex a h = with_obj ABT_ERR_INV_MUTEX mutex (\<lambda>m.
     Some (Inr a, h\<lparr>live := insert a (live h), ma_recursive := (ma_recursive h)(a := m_attrs h m AND 1 \<noteq> 0)\<rparr>)) h"

definition ABT_mutex_attr_create :: "ptr \<Rightarrow> 'a sync \<Rightarrow> (ptr, 'a sync) api" where
  "ABT_mutex_attr_create a h = (Inr a, h\<lparr>live := insert a (live h), ma_recursive := (ma_recursive h)(a := False)\<rparr>)"

definition ABT_mutex_attr_free :: "ptr \<Rightarrow> 'a sync \<Rightarrow> (unit, 'a sync) api option" where
  "ABT_mutex_attr_free attr h = with_obj ABT_ERR_INV_MUTEX_ATTR attr (\<lambda>a. Some (Inr (), h\<lparr>live := live h - {a}\<rparr>)) h"

definition ABT_mutex_attr_set_recursive :: "ptr \<Rightarrow> bool \<Rightarrow> 'a sync \<Rightarrow> (unit, 'a sync) api option" where
  "ABT_mutex_attr_set_recursive attr recursive h = with_obj ABT_ERR_INV_MUTEX_ATTR attr (\<lambda>a.
     Some (Inr (), h\<lparr>ma_recursive := (ma_recursive h)(a := recursive)\<rparr>)) h"

definition ABT_mutex_attr_get_recursive :: "ptr \<Rightarrow> 'a sync \<Rightarrow> (bool, 'a sync) api option" where
  "ABT_mutex_attr_get_recursive attr h = with_obj ABT_ERR_INV_MUTEX_ATTR attr (\<lambda>a. Some (Inr (ma_recursive h a), h)) h"


subsection \<open>Condition variables\<close>

text \<open>
  The caller joins the list while it holds the spin lock of the condition variable, and keeps that lock
  while it unlocks the mutex.  \<open>mw\<close> is the waiter record for taking the mutex again.
\<close>

definition cond_wait_impl :: "'a sync_env \<Rightarrow> ('a sync \<Rightarrow> time) \<Rightarrow> ptr \<Rightarrow> ptr \<Rightarrow> ptr \<Rightarrow> ptr \<Rightarrow> time \<Rightarrow> bool \<Rightarrow> 'a sync \<Rightarrow>
    (unit, 'a sync) api option" where
  "cond_wait_impl E now w mw c m deadline timed h =
     (let self = ABTI_self_thread E h
      in do { h1 \<leftarrow> spin_acquire E c h;
              if c_mutex h1 c \<noteq> nullptr \<and> c_mutex h1 c \<noteq> m then Some (Inl ABT_ERR_INV_MUTEX, spin_release c h1)
              else let h2 = (if c_mutex h1 c = nullptr then h1\<lparr>c_mutex := (c_mutex h1)(c := m)\<rparr> else h1)
                   in do { (_, h3) \<leftarrow> ABT_mutex_unlock E m (wl_push c w (waiter_init w self h2));
                           (signaled, h4) \<leftarrow> (if timed then wait_on_timed E now w c self deadline h3
                                              else map_option (Pair True) (wait_on E w c self h3));
                           (_, h5) \<leftarrow> ABT_mutex_lock E mw m h4;
                           Some (if signaled then Inr () else Inl ABT_ERR_COND_TIMEDOUT, h5) } })"

definition ABT_cond_create :: "ptr \<Rightarrow> 'a sync \<Rightarrow> (ptr, 'a sync) api" where
  "ABT_cond_create c h =
     (Inr c, h\<lparr>live := insert c (live h), slock := (slock h)(c := False), c_mutex := (c_mutex h)(c := nullptr),
              wl_head := (wl_head h)(c := nullptr), wl_tail := (wl_tail h)(c := nullptr)\<rparr>)"

definition ABT_cond_free :: "ptr \<Rightarrow> 'a sync \<Rightarrow> (unit, 'a sync) api option" where
  "ABT_cond_free cond h = with_obj ABT_ERR_INV_COND cond (\<lambda>c.
     Some (if wl_head h c \<noteq> nullptr then (Inl ABT_ERR_COND, h) else (Inr (), h\<lparr>live := live h - {c}\<rparr>))) h"

definition ABT_cond_wait :: "'a sync_env \<Rightarrow> ('a sync \<Rightarrow> time) \<Rightarrow> ptr \<Rightarrow> ptr \<Rightarrow> ptr \<Rightarrow> ptr \<Rightarrow> 'a sync \<Rightarrow>
    (unit, 'a sync) api option" where
  "ABT_cond_wait E now w mw cond mutex h = with_obj ABT_ERR_INV_COND cond (\<lambda>c.
     with_obj ABT_ERR_INV_MUTEX mutex (\<lambda>m. cond_wait_impl E now w mw c m 0 False h) h) h"

definition ABT_cond_timedwait :: "'a sync_env \<Rightarrow> ('a sync \<Rightarrow> time) \<Rightarrow> int \<times> int \<Rightarrow> ptr \<Rightarrow> ptr \<Rightarrow> ptr \<Rightarrow> ptr \<Rightarrow> int \<times> int \<Rightarrow> 'a sync \<Rightarrow>
    (unit, 'a sync) api option" where
  "ABT_cond_timedwait E now rt_now w mw cond mutex abstime h = with_obj ABT_ERR_INV_COND cond (\<lambda>c.
     with_obj ABT_ERR_INV_MUTEX mutex (\<lambda>m. cond_wait_impl E now w mw c m (realtime_to_wall (now h) rt_now abstime) True h) h) h"

definition ABT_cond_signal :: "'a sync_env \<Rightarrow> ptr \<Rightarrow> 'a sync \<Rightarrow> (unit, 'a sync) api option" where
  "ABT_cond_signal E cond h = with_obj ABT_ERR_INV_COND cond (\<lambda>c.
     do { h1 \<leftarrow> spin_acquire E c h;
          let (w, h2) = wl_pop c h1;
          h3 \<leftarrow> wake_opt E w (spin_release c h2);
          Some (Inr (), h3) }) h"

definition ABT_cond_broadcast :: "'a sync_env \<Rightarrow> ptr \<Rightarrow> 'a sync \<Rightarrow> (unit, 'a sync) api option" where
  "ABT_cond_broadcast E cond h = with_obj ABT_ERR_INV_COND cond (\<lambda>c.
     do { h1 \<leftarrow> spin_acquire E c h;
          let (list, h2) = wl_take c h1;
          h3 \<leftarrow> wake_list E list (spin_release c h2);
          Some (Inr (), h3) }) h"

end
