(* ===== verification/Mutex_Steps.thy ===== *)
theory Mutex_Steps
  imports Mutex
begin

section \<open>Mutexes under interleaving\<close>

text \<open>
  A mutex of \<^verbatim>\<open>src/src/sync.cpp\<close> used by any number of threads whose steps interleave: the atomic exchange
  that takes the spin lock, the section under it, the transition to BLOCKED, the release, the store to
  the waiter's record and the call that wakes a blocked thread are separate steps.  The sections are the
  definitions of \<open>Mutex\<close>.  Agent \<open>a\<close>, of any type \<open>'g\<close>, is a caller: \<open>env a\<close> is its environment (which thread it is), \<open>wr a\<close> the
  address of its waiter record.  \<open>held\<close> is not in the code: the lock calls of an agent that succeeded minus
  its unlocks.
\<close>

datatype mutex_pc =
    Out                      \<comment> \<open>not inside a call\<close>
  | Locking bool             \<comment> \<open>\<^verbatim>\<open>mutex_lock\<close>, before \<^verbatim>\<open>spin_acquire\<close>; true: \<^verbatim>\<open>spin_only\<close>\<close>
  | LockHeld bool            \<comment> \<open>\<^verbatim>\<open>mutex_lock\<close>, spin lock held\<close>
  | Queued                   \<comment> \<open>on the list, spin lock still held\<close>
  | Waiting                  \<comment> \<open>in \<^verbatim>\<open>wait_on\<close>, spin lock released\<close>
  | Trying
  | TryHeld
  | Unlocking
  | UnlockHeld
  | Waking ptr               \<comment> \<open>\<^verbatim>\<open>wake\<close> of a popped waiter\<close>
  | Awakening ptr            \<comment> \<open>\<^verbatim>\<open>wake\<close>, before \<^verbatim>\<open>CthAwakenIfBlocked\<close>\<close>

record ('g, 'a) mutex_sys =
  mem :: "'a sync"
  mpc :: "'g \<Rightarrow> mutex_pc"
  blocked :: "ptr set"       \<comment> \<open>runtime threads in the state BLOCKED\<close>
  held :: "'g \<Rightarrow> nat"

definition agent_id :: "('g \<Rightarrow> 'a sync_env) \<Rightarrow> 'g \<Rightarrow> 'a sync \<Rightarrow> 64 word" where
  "agent_id env a h = self_id (env a) (ABTI_self_thread (env a) h) h"

definition agent_cth :: "('g \<Rightarrow> 'a sync_env) \<Rightarrow> 'g \<Rightarrow> 'a sync \<Rightarrow> ptr" where
  "agent_cth env a h = (let self = ABTI_self_thread (env a) h in if ABTI_can_block h self then t_cth h self else nullptr)"

definition goto :: "'g \<Rightarrow> mutex_pc \<Rightarrow> 'a sync \<Rightarrow> ('g, 'a) mutex_sys \<Rightarrow> ('g, 'a) mutex_sys" where
  "goto a c h s = s\<lparr>mem := h, mpc := (mpc s)(a := c)\<rparr>"

fun acquired :: "mutex_pc \<Rightarrow> mutex_pc option" where
  "acquired (Locking b) = Some (LockHeld b)"
| "acquired Trying = Some TryHeld"
| "acquired Unlocking = Some UnlockHeld"
| "acquired _ = None"

text \<open>A waiting agent may go on: its thread is no longer blocked, or, without a thread to block, its record is signalled.\<close>

definition woken :: "('g \<Rightarrow> 'a sync_env) \<Rightarrow> ('g \<Rightarrow> ptr) \<Rightarrow> 'g \<Rightarrow> ('g, 'a) mutex_sys \<Rightarrow> bool" where
  "woken env wr a s = (if agent_cth env a (mem s) \<noteq> nullptr then agent_cth env a (mem s) \<notin> blocked s else w_signaled (mem s) (wr a))"

text \<open>The steps of agent \<open>a\<close>.  An agent unlocks only what it holds.\<close>

inductive mutex_step :: "('g \<Rightarrow> 'a sync_env) \<Rightarrow> ('g \<Rightarrow> ptr) \<Rightarrow> ptr \<Rightarrow> 'g \<Rightarrow> ('g, 'a) mutex_sys \<Rightarrow> ('g, 'a) mutex_sys \<Rightarrow> bool"
  for env wr m a where
  call: "mpc s a = Out \<Longrightarrow> c \<in> {Locking True, Locking False, Trying} \<or> c = Unlocking \<and> held s a > 0 \<Longrightarrow>
    mutex_step env wr m a s (goto a c (mem s) s)"
| acquire: "acquired (mpc s a) = Some c \<Longrightarrow> \<not> slock (mem s) m \<Longrightarrow>
    mutex_step env wr m a s (goto a c (spin_take m (mem s)) s)"
| lock_done: "mpc s a = LockHeld b \<or> mpc s a = TryHeld \<Longrightarrow> mutex_try (agent_id env a (mem s)) m (mem s) = Some (True, h) \<Longrightarrow>
    mutex_step env wr m a s ((goto a Out (spin_release m h) s)\<lparr>held := (held s)(a := held s a + 1)\<rparr>)"
| lock_spin: "mpc s a = LockHeld True \<Longrightarrow> mutex_try (agent_id env a (mem s)) m (mem s) = Some (False, h) \<Longrightarrow>
    mutex_step env wr m a s (goto a (Locking True) (spin_release m h) s)"
| lock_push: "mpc s a = LockHeld False \<Longrightarrow> mutex_try (agent_id env a (mem s)) m (mem s) = Some (False, h) \<Longrightarrow>
    mutex_step env wr m a s (goto a Queued (wl_push m (wr a) (waiter_init (wr a) (ABTI_self_thread (env a) h) h)) s)"
| block: "mpc s a = Queued \<Longrightarrow> agent_cth env a (mem s) \<noteq> nullptr \<Longrightarrow>
    mutex_step env wr m a s (s\<lparr>blocked := insert (agent_cth env a (mem s)) (blocked s)\<rparr>)"
| wait: "mpc s a = Queued \<Longrightarrow> agent_cth env a (mem s) = nullptr \<or> agent_cth env a (mem s) \<in> blocked s \<Longrightarrow>
    mutex_step env wr m a s (goto a Waiting (spin_release m (mem s)) s)"
| resume: "mpc s a = Waiting \<Longrightarrow> woken env wr a s \<Longrightarrow>
    mutex_step env wr m a s (goto a (Locking False) (mem s) s)"
| try_fail: "mpc s a = TryHeld \<Longrightarrow> mutex_try (agent_id env a (mem s)) m (mem s) = Some (False, h) \<Longrightarrow>
    mutex_step env wr m a s (goto a Out (spin_release m h) s)"
| unlock: "mpc s a = UnlockHeld \<Longrightarrow> mutex_give m (mem s) = (w, h) \<Longrightarrow>
    mutex_step env wr m a s
      ((goto a (if w \<noteq> nullptr then Waking w else Out) (spin_release m h) s)\<lparr>held := (held s)(a := held s a - 1)\<rparr>)"
| wake_store: "mpc s a = Waking w \<Longrightarrow> t = w_thread (mem s) w \<Longrightarrow>
    mutex_step env wr m a s
      (goto a (if t \<noteq> nullptr then Awakening t else Out) ((mem s)\<lparr>w_signaled := (w_signaled (mem s))(w := True)\<rparr>) s)"
| wake_thread: "mpc s a = Awakening t \<Longrightarrow>
    mutex_step env wr m a s ((goto a Out (mem s) s)\<lparr>blocked := blocked s - {t}\<rparr>)"


subsection \<open>The invariant\<close>

definition agents_ok :: "('g \<Rightarrow> 'a sync_env) \<Rightarrow> ('g \<Rightarrow> ptr) \<Rightarrow> 'a sync \<Rightarrow> bool" where
  "agents_ok env wr h \<longleftrightarrow> inj wr \<and> nullptr \<notin> range wr \<and> inj (\<lambda>a. agent_id env a h) \<and>
     (\<forall>a b. agent_cth env a h = agent_cth env b h \<longrightarrow> agent_cth env a h \<noteq> nullptr \<longrightarrow> a = b)"

fun in_slock :: "mutex_pc \<Rightarrow> bool" where
  "in_slock (LockHeld b) = True"
| "in_slock Queued = True"
| "in_slock TryHeld = True"
| "in_slock UnlockHeld = True"
| "in_slock _ = False"

text \<open>The spin lock is held by the one agent inside a section.\<close>

definition spin_ok :: "ptr \<Rightarrow> ('g, 'a) mutex_sys \<Rightarrow> bool" where
  "spin_ok m s \<longleftrightarrow> (\<forall>a b. in_slock (mpc s a) \<longrightarrow> in_slock (mpc s b) \<longrightarrow> a = b) \<and> slock (mem s) m = (\<exists>a. in_slock (mpc s a))"

text \<open>The fields of a locked mutex describe the one agent that holds it.\<close>

definition owner_ok :: "('g \<Rightarrow> 'a sync_env) \<Rightarrow> ptr \<Rightarrow> ('g, 'a) mutex_sys \<Rightarrow> bool" where
  "owner_ok env m s \<longleftrightarrow> m_nesting (mem s) m \<ge> 0 \<and> (m_attrs (mem s) m AND 1 = 0 \<longrightarrow> m_nesting (mem s) m = 0) \<and>
     (if m_locked (mem s) m
      then \<exists>a. m_owner (mem s) m = agent_id env a (mem s) \<and> int (held s a) = m_nesting (mem s) m + 1 \<and> (\<forall>b. b \<noteq> a \<longrightarrow> held s b = 0)
      else \<forall>a. held s a = 0) \<and>
     (\<forall>a. mpc s a = Unlocking \<or> mpc s a = UnlockHeld \<longrightarrow> held s a > 0) \<and>
     (\<forall>a. mpc s a = Queued \<longrightarrow> m_locked (mem s) m)"

text \<open>\<open>ws\<close> is the wait list.  A record that is on it, or popped and about to be signalled, belongs to an agent that waits.\<close>

definition sleeps :: "('g \<Rightarrow> 'a sync_env) \<Rightarrow> ('g \<Rightarrow> ptr) \<Rightarrow> 'g \<Rightarrow> ('g, 'a) mutex_sys \<Rightarrow> bool" where
  "sleeps env wr a s \<longleftrightarrow> w_thread (mem s) (wr a) = agent_cth env a (mem s) \<and> \<not> w_signaled (mem s) (wr a) \<and>
     (mpc s a = Queued \<or> mpc s a = Waiting \<and> (agent_cth env a (mem s) \<noteq> nullptr \<longrightarrow> agent_cth env a (mem s) \<in> blocked s))"

definition queue_ok :: "('g \<Rightarrow> 'a sync_env) \<Rightarrow> ('g \<Rightarrow> ptr) \<Rightarrow> ptr list \<Rightarrow> ('g, 'a) mutex_sys \<Rightarrow> bool" where
  "queue_ok env wr ws s \<longleftrightarrow>
     (\<forall>w \<in> set ws. \<exists>a. w = wr a \<and> sleeps env wr a s) \<and>
     (\<forall>a. mpc s a = Queued \<longrightarrow> wr a \<in> set ws) \<and>
     (\<forall>b w. mpc s b = Waking w \<longrightarrow> w \<notin> set ws \<and> (\<exists>a. w = wr a \<and> sleeps env wr a s \<and> mpc s a = Waiting) \<and>
        (\<forall>c. mpc s c = Waking w \<longrightarrow> c = b)) \<and>
     (\<forall>b t. mpc s b = Awakening t \<longrightarrow> (\<exists>a. t = agent_cth env a (mem s) \<and> t \<noteq> nullptr \<and> mpc s a = Waiting \<and> t \<in> blocked s \<and>
        wr a \<notin> set ws \<and> (\<forall>c. mpc s c \<noteq> Waking (wr a))) \<and> (\<forall>c. mpc s c = Awakening t \<longrightarrow> c = b)) \<and>
     (\<forall>a. mpc s a = Waiting \<longrightarrow> wr a \<in> set ws \<or> woken env wr a s \<or> (\<exists>c. mpc s c = Waking (wr a)) \<or>
        (\<exists>c. mpc s c = Awakening (agent_cth env a (mem s))))"

text \<open>An agent that is on its way to the mutex, or about to send one there.\<close>

definition active :: "('g \<Rightarrow> ptr) \<Rightarrow> ptr list \<Rightarrow> 'g \<Rightarrow> ('g, 'a) mutex_sys \<Rightarrow> bool" where
  "active wr ws a s \<longleftrightarrow> (case mpc s a of Locking b \<Rightarrow> True | LockHeld b \<Rightarrow> True | Waking w \<Rightarrow> True | Awakening t \<Rightarrow> True
     | Waiting \<Rightarrow> wr a \<notin> set ws | _ \<Rightarrow> False)"

definition mutex_inv :: "('g \<Rightarrow> 'a sync_env) \<Rightarrow> ('g \<Rightarrow> ptr) \<Rightarrow> ptr \<Rightarrow> ptr list \<Rightarrow> ('g, 'a) mutex_sys \<Rightarrow> bool" where
  "mutex_inv env wr m ws s \<longleftrightarrow> agents_ok env wr (mem s) \<and> spin_ok m s \<and> owner_ok env m s \<and> wl_rep m (mem s) ws \<and> queue_ok env wr ws s \<and>
     (\<not> m_locked (mem s) m \<and> ws \<noteq> [] \<longrightarrow> (\<exists>b. active wr ws b s))"

definition mutex_init :: "('g \<Rightarrow> 'a sync_env) \<Rightarrow> ('g \<Rightarrow> ptr) \<Rightarrow> ptr \<Rightarrow> ('g, 'a) mutex_sys \<Rightarrow> bool" where
  "mutex_init env wr m s \<longleftrightarrow> agents_ok env wr (mem s) \<and> \<not> slock (mem s) m \<and> \<not> m_locked (mem s) m \<and> m_nesting (mem s) m = 0 \<and>
     wl_head (mem s) m = nullptr \<and> wl_tail (mem s) m = nullptr \<and> mpc s = (\<lambda>_. Out) \<and> held s = (\<lambda>_. 0)"

lemma mutex_inv_init: "mutex_init env wr m s \<Longrightarrow> mutex_inv env wr m [] s"
  by (auto simp: mutex_init_def mutex_inv_def spin_ok_def owner_ok_def queue_ok_def wl_rep_def)

text \<open>The agents do not change.\<close>

lemmas agent_defs = agent_id_def agent_cth_def self_id_def ABTI_self_thread_def ABTI_can_block_def Let_def

lemma agent_upd [simp]:
  "agent_id env a (h\<lparr>w_thread := x\<rparr>) = agent_id env a h" "agent_cth env a (h\<lparr>w_thread := x\<rparr>) = agent_cth env a h"
  "agent_id env a (h\<lparr>w_signaled := y\<rparr>) = agent_id env a h" "agent_cth env a (h\<lparr>w_signaled := y\<rparr>) = agent_cth env a h"
  "agent_id env a (h\<lparr>w_next := x\<rparr>) = agent_id env a h" "agent_cth env a (h\<lparr>w_next := x\<rparr>) = agent_cth env a h"
  "agent_id env a (h\<lparr>slock := y\<rparr>) = agent_id env a h" "agent_cth env a (h\<lparr>slock := y\<rparr>) = agent_cth env a h"
  "agent_id env a (h\<lparr>wl_head := x\<rparr>) = agent_id env a h" "agent_cth env a (h\<lparr>wl_head := x\<rparr>) = agent_cth env a h"
  "agent_id env a (h\<lparr>wl_tail := x\<rparr>) = agent_id env a h" "agent_cth env a (h\<lparr>wl_tail := x\<rparr>) = agent_cth env a h"
  "agent_id env a (h\<lparr>m_locked := y\<rparr>) = agent_id env a h" "agent_cth env a (h\<lparr>m_locked := y\<rparr>) = agent_cth env a h"
  "agent_id env a (h\<lparr>m_owner := v\<rparr>) = agent_id env a h" "agent_cth env a (h\<lparr>m_owner := v\<rparr>) = agent_cth env a h"
  "agent_id env a (h\<lparr>m_nesting := n\<rparr>) = agent_id env a h" "agent_cth env a (h\<lparr>m_nesting := n\<rparr>) = agent_cth env a h"
  by (simp_all add: agent_defs)

lemma agents_ok_cong:
  "agents_ok env wr h \<Longrightarrow> (\<And>a. agent_id env a h' = agent_id env a h) \<Longrightarrow> (\<And>a. agent_cth env a h' = agent_cth env a h) \<Longrightarrow> agents_ok env wr h'"
  by (simp add: agents_ok_def)

lemma spin_sel [simp]:
  "agent_id env a (spin_take m h) = agent_id env a h" "agent_cth env a (spin_take m h) = agent_cth env a h"
  "agent_id env a (spin_release m h) = agent_id env a h" "agent_cth env a (spin_release m h) = agent_cth env a h"
  "slock (spin_take m h) = (slock h)(m := True)" "slock (spin_release m h) = (slock h)(m := False)"
  "m_locked (spin_take m h) = m_locked h" "m_locked (spin_release m h) = m_locked h"
  "m_owner (spin_take m h) = m_owner h" "m_owner (spin_release m h) = m_owner h"
  "m_nesting (spin_take m h) = m_nesting h" "m_nesting (spin_release m h) = m_nesting h"
  "m_attrs (spin_take m h) = m_attrs h" "m_attrs (spin_release m h) = m_attrs h"
  "w_thread (spin_take m h) = w_thread h" "w_thread (spin_release m h) = w_thread h"
  "w_signaled (spin_take m h) = w_signaled h" "w_signaled (spin_release m h) = w_signaled h"
  "wl_rep l (spin_take m h) ws = wl_rep l h ws" "wl_rep l (spin_release m h) ws = wl_rep l h ws"
  by (simp_all add: spin_take_def spin_release_def wl_rep_def)

lemma push_sel:
  assumes "h' = wl_push m w (waiter_init w self h)"
  shows "agent_id env a h' = agent_id env a h" "agent_cth env a h' = agent_cth env a h"
    "slock h' = slock h" "m_locked h' = m_locked h" "m_owner h' = m_owner h" "m_nesting h' = m_nesting h" "m_attrs h' = m_attrs h"
    "w_signaled h' = (w_signaled h)(w := False)"
    "w_thread h' = (w_thread h)(w := if ABTI_can_block h self then t_cth h self else nullptr)"
  by (simp_all add: assms wl_push_def waiter_init_def Let_def)

lemma pop_sel:
  assumes "wl_pop m h = (w, h')"
  shows "agent_id env a h' = agent_id env a h" "agent_cth env a h' = agent_cth env a h" "slock h' = slock h" "m_locked h' = m_locked h"
    "m_owner h' = m_owner h" "m_nesting h' = m_nesting h" "m_attrs h' = m_attrs h" "w_signaled h' = w_signaled h" "w_thread h' = w_thread h"
  using assms by (auto simp: wl_pop_def Let_def split: if_splits)

lemma goto_sel [simp]:
  "mem (goto a c h s) = h" "mpc (goto a c h s) = (mpc s)(a := c)" "blocked (goto a c h s) = blocked s" "held (goto a c h s) = held s"
  by (simp_all add: goto_def)

text \<open>The outcomes of the two sections.\<close>

lemma mutex_try_cases:
  assumes "mutex_try me m h = Some (ok, h')"
  obtains (free) "ok" "\<not> m_locked h m"
      "h' = h\<lparr>m_locked := (m_locked h)(m := True), m_owner := (m_owner h)(m := me), m_nesting := (m_nesting h)(m := 0)\<rparr>"
    | (nest) "ok" "m_locked h m" "m_attrs h m AND 1 \<noteq> 0" "m_owner h m = me" "h' = h\<lparr>m_nesting := (m_nesting h)(m := m_nesting h m + 1)\<rparr>"
    | (busy) "\<not> ok" "m_locked h m" "m_attrs h m AND 1 = 0 \<or> m_owner h m \<noteq> me" "h' = h"
proof (cases "m_locked h m")
  case False
  then show ?thesis using assms free by (simp add: mutex_try_def)
next
  case True
  show ?thesis
  proof (cases "m_attrs h m AND 1 \<noteq> 0 \<and> m_owner h m = me")
    case rec: True
    then have "m_nesting h m \<noteq> INT_MAX" using assms True by (intro notI) (simp add: mutex_try_def)
    then show ?thesis using assms True rec nest by (simp add: mutex_try_def)
  next
    case False
    with True have "mutex_try me m h = Some (False, h)" unfolding mutex_try_def by argo
    then show ?thesis using assms busy True False by auto
  qed
qed

fun neutral :: "mutex_pc \<Rightarrow> bool" where
  "neutral Queued = False"
| "neutral Waiting = False"
| "neutral (Waking w) = False"
| "neutral (Awakening t) = False"
| "neutral _ = True"

text \<open>A step outside the queue keeps what is known of it.\<close>

lemma sleeps_cong:
  assumes "w_thread (mem s') (wr b) = w_thread (mem s) (wr b)" "w_signaled (mem s') (wr b) = w_signaled (mem s) (wr b)"
    "agent_cth env b (mem s') = agent_cth env b (mem s)" "blocked s' = blocked s" "mpc s' b = mpc s b"
  shows "sleeps env wr b s' = sleeps env wr b s"
  using assms by (simp add: sleeps_def)

lemma queue_okD:
  assumes "queue_ok env wr ws s"
  shows "w \<in> set ws \<Longrightarrow> \<exists>a. w = wr a \<and> sleeps env wr a s"
    "mpc s a = Queued \<Longrightarrow> wr a \<in> set ws"
    "mpc s b = Waking w \<Longrightarrow> w \<notin> set ws"
    "mpc s b = Waking w \<Longrightarrow> \<exists>a. w = wr a \<and> sleeps env wr a s \<and> mpc s a = Waiting"
    "mpc s b = Waking w \<Longrightarrow> mpc s c = Waking w \<Longrightarrow> c = b"
    "mpc s b = Awakening t \<Longrightarrow> \<exists>a. t = agent_cth env a (mem s) \<and> t \<noteq> nullptr \<and> mpc s a = Waiting \<and> t \<in> blocked s \<and>
       wr a \<notin> set ws \<and> (\<forall>c. mpc s c \<noteq> Waking (wr a))"
    "mpc s b = Awakening t \<Longrightarrow> mpc s c = Awakening t \<Longrightarrow> c = b"
    "mpc s a = Waiting \<Longrightarrow> wr a \<in> set ws \<or> woken env wr a s \<or> (\<exists>c. mpc s c = Waking (wr a)) \<or>
        (\<exists>c. mpc s c = Awakening (agent_cth env a (mem s)))"
  using assms by (simp_all add: queue_ok_def)

lemma queue_okI:
  assumes "\<And>w. w \<in> set ws \<Longrightarrow> \<exists>a. w = wr a \<and> sleeps env wr a s"
    "\<And>a. mpc s a = Queued \<Longrightarrow> wr a \<in> set ws"
    "\<And>b w. mpc s b = Waking w \<Longrightarrow> w \<notin> set ws"
    "\<And>b w. mpc s b = Waking w \<Longrightarrow> \<exists>a. w = wr a \<and> sleeps env wr a s \<and> mpc s a = Waiting"
    "\<And>b c w. mpc s b = Waking w \<Longrightarrow> mpc s c = Waking w \<Longrightarrow> c = b"
    "\<And>b t. mpc s b = Awakening t \<Longrightarrow> \<exists>a. t = agent_cth env a (mem s) \<and> t \<noteq> nullptr \<and> mpc s a = Waiting \<and> t \<in> blocked s \<and>
       wr a \<notin> set ws \<and> (\<forall>c. mpc s c \<noteq> Waking (wr a))"
    "\<And>b c t. mpc s b = Awakening t \<Longrightarrow> mpc s c = Awakening t \<Longrightarrow> c = b"
    "\<And>a. mpc s a = Waiting \<Longrightarrow> wr a \<in> set ws \<or> woken env wr a s \<or> (\<exists>c. mpc s c = Waking (wr a)) \<or>
        (\<exists>c. mpc s c = Awakening (agent_cth env a (mem s)))"
  shows "queue_ok env wr ws s"
  unfolding queue_ok_def by (intro conjI ballI allI impI) (use assms in simp_all)

lemma queue_neutral:
  assumes q: "queue_ok env wr ws s" and "neutral (mpc s a)" "neutral c" "mpc s' = (mpc s)(a := c)" "w_thread (mem s') = w_thread (mem s)"
    "w_signaled (mem s') = w_signaled (mem s)" "\<And>b. agent_cth env b (mem s') = agent_cth env b (mem s)" "blocked s' = blocked s"
  shows "queue_ok env wr ws s'"
proof -
  have a: "\<not> sleeps env wr a s" using assms(2) by (auto simp: sleeps_def)
  have sl: "sleeps env wr b s \<Longrightarrow> sleeps env wr b s'" for b
    using sleeps_cong [of s' wr b s env] assms(4-) a by (cases "b = a") auto
  have pc: "(mpc s' b = Queued) = (mpc s b = Queued)" "(mpc s' b = Waiting) = (mpc s b = Waiting)"
    "(mpc s' b = Waking w) = (mpc s b = Waking w)" "(mpc s' b = Awakening t) = (mpc s b = Awakening t)" for b w t
    using assms(2-4) by auto
  have wk: "woken env wr b s' = woken env wr b s" for b by (simp add: woken_def assms(6-8))
  show ?thesis
  proof (rule queue_okI, unfold pc wk assms(7,8))
    fix w assume "w \<in> set ws"
    then show "\<exists>a. w = wr a \<and> sleeps env wr a s'" using queue_okD(1) [OF q] sl by blast
  next
    fix b w assume "mpc s b = Waking w"
    then show "\<exists>a. w = wr a \<and> sleeps env wr a s' \<and> mpc s a = Waiting" using queue_okD(4) [OF q] sl by blast
  qed (rule queue_okD [OF q]; assumption)+
qed

lemma spin_keep:
  assumes "spin_ok m s" "mpc s' = (mpc s)(a := c)" "in_slock c = in_slock (mpc s a)" "slock (mem s') m = slock (mem s) m"
  shows "spin_ok m s'"
  using assms unfolding spin_ok_def by (auto split: if_splits)

lemma spin_enter:
  assumes "spin_ok m s" "mpc s' = (mpc s)(a := c)" "\<not> slock (mem s) m" "in_slock c" "slock (mem s') m"
  shows "spin_ok m s'"
  using assms unfolding spin_ok_def by (auto split: if_splits)

lemma spin_leave:
  assumes "spin_ok m s" "mpc s' = (mpc s)(a := c)" "in_slock (mpc s a)" "\<not> in_slock c" "\<not> slock (mem s') m"
  shows "spin_ok m s'"
  using assms unfolding spin_ok_def by (auto split: if_splits)

lemma spin_excl: "spin_ok m s \<Longrightarrow> in_slock (mpc s a) \<Longrightarrow> in_slock (mpc s b) \<Longrightarrow> a = b"
  by (auto simp: spin_ok_def)

lemma acquired_pc: "acquired c = Some c' \<Longrightarrow> neutral c \<and> neutral c' \<and> \<not> in_slock c \<and> in_slock c' \<and> c' \<noteq> Queued \<and> (c' = UnlockHeld \<longrightarrow> c = Unlocking) \<and> c' \<noteq> Unlocking \<and>
   ((\<exists>b. c = Locking b) \<longleftrightarrow> (\<exists>b. c' = LockHeld b))"
  by (cases c) auto

text \<open>A step that changes neither the mutex nor who holds it.\<close>

lemma owner_keep:
  assumes "owner_ok env m s" "mpc s' = (mpc s)(a := c)" "held s' = held s" "m_nesting (mem s') m = m_nesting (mem s) m"
    "m_attrs (mem s') m = m_attrs (mem s) m" "m_locked (mem s') m = m_locked (mem s) m" "m_owner (mem s') m = m_owner (mem s) m"
    "\<And>b. agent_id env b (mem s') = agent_id env b (mem s)"
    "c = Unlocking \<or> c = UnlockHeld \<Longrightarrow> held s a > 0" "c = Queued \<Longrightarrow> m_locked (mem s) m"
  shows "owner_ok env m s'"
proof -
  have "\<forall>b. mpc s' b = Unlocking \<or> mpc s' b = UnlockHeld \<longrightarrow> held s b > 0" "\<forall>b. mpc s' b = Queued \<longrightarrow> m_locked (mem s) m"
    using assms(1,2,9,10) by (auto simp: owner_ok_def)
  then show ?thesis using assms(1,3-8) unfolding owner_ok_def by simp
qed

lemma owner_unique:
  assumes "owner_ok env m s" "held s a > 0"
  shows "m_locked (mem s) m" "m_owner (mem s) m = agent_id env a (mem s)" "int (held s a) = m_nesting (mem s) m + 1" "b \<noteq> a \<Longrightarrow> held s b = 0"
proof -
  show l: "m_locked (mem s) m" using assms unfolding owner_ok_def by (metis less_irrefl)
  then obtain c where c: "m_owner (mem s) m = agent_id env c (mem s)" "int (held s c) = m_nesting (mem s) m + 1" "\<forall>b. b \<noteq> c \<longrightarrow> held s b = 0"
    using assms(1) unfolding owner_ok_def by auto
  have "c = a" using c(3) assms(2) by (metis less_irrefl)
  with c show "m_owner (mem s) m = agent_id env a (mem s)" "int (held s a) = m_nesting (mem s) m + 1" "b \<noteq> a \<Longrightarrow> held s b = 0" by auto
qed

text \<open>The wake-up clause survives every step after which an active agent is still active.\<close>

lemma active_keep:
  assumes "\<not> m_locked (mem s) m \<and> ws \<noteq> [] \<longrightarrow> (\<exists>b. active wr ws b s)" "mpc s' = (mpc s)(a := c)"
    "active wr ws a s \<Longrightarrow> active wr ws a s'" "m_locked (mem s') m = m_locked (mem s) m"
  shows "\<not> m_locked (mem s') m \<and> ws \<noteq> [] \<longrightarrow> (\<exists>b. active wr ws b s')"
proof (intro impI)
  assume "\<not> m_locked (mem s') m \<and> ws \<noteq> []"
  then obtain b where b: "active wr ws b s" using assms(1,4) by auto
  show "\<exists>b. active wr ws b s'"
  proof (cases "b = a")
    case False
    then have "active wr ws b s'" using b assms(2) by (simp add: active_def)
    then show ?thesis ..
  qed (use b assms(3) in blast)
qed

lemma inv_neutral:
  assumes i: "mutex_inv env wr m ws s" and n: "neutral (mpc s a)" "neutral c"
    and s': "s' = goto a c h s" and h: "\<And>b. agent_id env b h = agent_id env b (mem s)" "\<And>b. agent_cth env b h = agent_cth env b (mem s)"
      "w_thread h = w_thread (mem s)" "w_signaled h = w_signaled (mem s)" "wl_rep m h ws" "m_nesting h m = m_nesting (mem s) m"
      "m_attrs h m = m_attrs (mem s) m" "m_locked h m = m_locked (mem s) m" "m_owner h m = m_owner (mem s) m"
    and sp: "spin_ok m s'" and own: "c = Unlocking \<or> c = UnlockHeld \<Longrightarrow> held s a > 0"
    and act: "active wr ws a s \<Longrightarrow> active wr ws a s' \<or> m_locked (mem s) m"
  shows "mutex_inv env wr m ws s'"
  unfolding mutex_inv_def
proof (intro conjI)
  note d = i [unfolded mutex_inv_def]
  show "agents_ok env wr (mem s')" using d agents_ok_cong [of env wr "mem s" h] h(1,2) by (simp add: s')
  show "spin_ok m s'" by (rule sp)
  show "owner_ok env m s'" using d h n own by (intro owner_keep [of env m s s' a c]) (auto simp: s')
  show "wl_rep m (mem s') ws" using h(5) by (simp add: s')
  show "queue_ok env wr ws s'" using d n h by (intro queue_neutral [of env wr ws s a c s']) (auto simp: s')
  show "\<not> m_locked (mem s') m \<and> ws \<noteq> [] \<longrightarrow> (\<exists>b. active wr ws b s')"
  proof (cases "m_locked (mem s) m")
    case False
    then show ?thesis using d act h(8) by (intro active_keep [of s m ws wr s' a c]) (auto simp: s')
  qed (use h(8) in \<open>simp add: s'\<close>)
qed


subsection \<open>Every step keeps the invariant\<close>

lemma mutex_invD:
  assumes "mutex_inv env wr m ws s"
  shows "agents_ok env wr (mem s)" "spin_ok m s" "owner_ok env m s" "wl_rep m (mem s) ws" "queue_ok env wr ws s"
    "\<not> m_locked (mem s) m \<and> ws \<noteq> [] \<longrightarrow> (\<exists>b. active wr ws b s)"
  using assms by (simp_all add: mutex_inv_def)

lemma inv_call:
  assumes i: "mutex_inv env wr m ws s" and "mpc s a = Out" "c \<in> {Locking True, Locking False, Trying} \<or> c = Unlocking \<and> held s a > 0"
  shows "mutex_inv env wr m ws (goto a c (mem s) s)"
  using assms mutex_invD [OF i]
  by (intro inv_neutral [OF i _ _ refl] spin_keep [OF mutex_invD(2) [OF i], of _ a c]) (auto simp: active_def)

lemma inv_acquire:
  assumes i: "mutex_inv env wr m ws s" and c: "acquired (mpc s a) = Some c" and sl: "\<not> slock (mem s) m"
  shows "mutex_inv env wr m ws (goto a c (spin_take m (mem s)) s)"
proof -
  note n = acquired_pc [OF c]
  have "held s a > 0" if "c = Unlocking \<or> c = UnlockHeld" using that n mutex_invD(3) [OF i] by (auto simp: owner_ok_def)
  moreover have "active wr ws a (goto a c (spin_take m (mem s)) s)" if "active wr ws a s"
    using that c by (cases "mpc s a") (auto simp: active_def)
  ultimately show ?thesis using n sl mutex_invD [OF i]
    by (intro inv_neutral [OF i _ _ refl] spin_enter [OF mutex_invD(2) [OF i]]) auto
qed

text \<open>A failed attempt.\<close>

lemma inv_fail:
  assumes i: "mutex_inv env wr m ws s" and t: "mutex_try me m (mem s) = Some (False, h)" and n: "neutral (mpc s a)" "in_slock (mpc s a)"
    and c: "c = Out \<or> c = Locking True"
  shows "mutex_inv env wr m ws (goto a c (spin_release m h) s)"
  using t
proof (cases rule: mutex_try_cases)
  case busy
  then show ?thesis using n c mutex_invD [OF i]
    by (intro inv_neutral [OF i _ _ refl] spin_leave [OF mutex_invD(2) [OF i]]) auto
qed auto

text \<open>A successful one.\<close>

lemma owner_locked:
  assumes "agents_ok env wr (mem s)" "owner_ok env m s" and t: "mutex_try (agent_id env a (mem s)) m (mem s) = Some (True, h)"
    and n: "neutral (mpc s a)" and s': "s' = (goto a Out (spin_release m h) s)\<lparr>held := (held s)(a := held s a + 1)\<rparr>"
  shows "owner_ok env m s' \<and> m_locked (mem s') m"
  using t
proof (cases rule: mutex_try_cases)
  case free
  then have "\<forall>b. held s b = 0" "\<forall>b. mpc s b \<noteq> Queued" using assms(2) by (auto simp: owner_ok_def)
  then show ?thesis using free assms(2) by (auto simp: owner_ok_def s' intro!: exI [of _ a])
next
  case nest
  from assms(2) nest(2) obtain c where c: "m_owner (mem s) m = agent_id env c (mem s)" "int (held s c) = m_nesting (mem s) m + 1"
    "\<forall>b. b \<noteq> c \<longrightarrow> held s b = 0" by (auto simp: owner_ok_def)
  have "c = a" using c(1) nest(4) assms(1) by (auto simp: agents_ok_def dest: injD)
  then show ?thesis using nest c assms(2) by (auto simp: owner_ok_def s' intro!: exI [of _ a])
qed auto

lemma try_sel:
  assumes "mutex_try me m h = Some (ok, h')"
  shows "agent_id env b h' = agent_id env b h" "agent_cth env b h' = agent_cth env b h" "w_thread h' = w_thread h" "w_signaled h' = w_signaled h"
    "wl_rep l h' ws = wl_rep l h ws" "slock h' = slock h"
  using assms by (cases rule: mutex_try_cases; simp add: wl_rep_def)+

lemma inv_lock_done:
  assumes i: "mutex_inv env wr m ws s" and pc: "mpc s a = LockHeld b \<or> mpc s a = TryHeld"
    and t: "mutex_try (agent_id env a (mem s)) m (mem s) = Some (True, h)"
  shows "mutex_inv env wr m ws ((goto a Out (spin_release m h) s)\<lparr>held := (held s)(a := held s a + 1)\<rparr>)" (is "mutex_inv _ _ _ _ ?s")
  unfolding mutex_inv_def
proof (intro conjI)
  note d = mutex_invD [OF i]
  have o: "owner_ok env m ?s \<and> m_locked (mem ?s) m" using pc by (intro owner_locked [OF d(1,3) t]) auto
  show "agents_ok env wr (mem ?s)" by (rule agents_ok_cong [OF d(1)]) (simp_all add: try_sel [OF t])
  show "spin_ok m ?s" using pc by (intro spin_leave [OF d(2), of _ a Out]) auto
  show "owner_ok env m ?s" using o ..
  show "wl_rep m (mem ?s) ws" using d(4) by (simp add: try_sel [OF t])
  show "queue_ok env wr ws ?s" using pc by (intro queue_neutral [OF d(5), of a Out]) (auto simp: try_sel [OF t])
  show "\<not> m_locked (mem ?s) m \<and> ws \<noteq> [] \<longrightarrow> (\<exists>b. active wr ws b ?s)" using o by simp
qed

text \<open>Joining the list.\<close>

lemma agents_inj:
  assumes "agents_ok env wr h"
  shows "wr b = wr c \<longleftrightarrow> b = c" "wr a \<noteq> nullptr" "agent_cth env b h = agent_cth env c h \<Longrightarrow> agent_cth env b h \<noteq> nullptr \<Longrightarrow> b = c"
  using assms by (auto simp: agents_ok_def dest: injD)

lemma queue_owner:
  assumes "agents_ok env wr (mem s)" "queue_ok env wr ws s"
  shows "wr a \<in> set ws \<Longrightarrow> sleeps env wr a s" "mpc s b = Waking (wr a) \<Longrightarrow> sleeps env wr a s \<and> mpc s a = Waiting"
  using queue_okD(1) [OF assms(2), of "wr a"] queue_okD(4) [OF assms(2), of b "wr a"] agents_inj [OF assms(1)] by auto

lemma queue_push:
  assumes ag: "agents_ok env wr (mem s)" and q: "queue_ok env wr ws s" and pc: "neutral (mpc s a)"
    and mpc: "mpc s' = (mpc s)(a := Queued)" "blocked s' = blocked s" and p: "\<And>b. agent_cth env b (mem s') = agent_cth env b (mem s)"
      "w_signaled (mem s') = (w_signaled (mem s))(wr a := False)" "w_thread (mem s') = (w_thread (mem s))(wr a := agent_cth env a (mem s))"
    and out: "wr a \<notin> set ws" "\<And>b. mpc s b \<noteq> Waking (wr a)"
  shows "queue_ok env wr (ws @ [wr a]) s'"
proof (rule queue_okI)
  note inj = agents_inj [OF ag]
  have na: "mpc s a \<noteq> Waiting" "mpc s a \<noteq> Queued" using pc by auto
  have sl: "sleeps env wr b s \<Longrightarrow> sleeps env wr b s'" for b
    using na by (cases "b = a") (auto simp: sleeps_def p mpc inj)
  have sa: "sleeps env wr a s'" by (simp add: sleeps_def p mpc)
  show "\<exists>b. w = wr b \<and> sleeps env wr b s'" if "w \<in> set (ws @ [wr a])" for w using that queue_okD(1) [OF q, of w] sl sa by auto
  show "wr b \<in> set (ws @ [wr a])" if "mpc s' b = Queued" for b using that queue_okD(2) [OF q, of b] by (auto simp: mpc split: if_splits)
  fix b w assume "mpc s' b = Waking w"
  then have b: "mpc s b = Waking w" by (auto simp: mpc split: if_splits)
  show "w \<notin> set (ws @ [wr a])" using queue_okD(3) [OF q b] out(2) b by auto
  from queue_okD(4) [OF q b] obtain c where "w = wr c" "sleeps env wr c s" "mpc s c = Waiting" by blast
  then show "\<exists>c. w = wr c \<and> sleeps env wr c s' \<and> mpc s' c = Waiting" using sl [of c] na by (auto simp: mpc)
  show "c = b" if "mpc s' c = Waking w" for c using that queue_okD(5) [OF q b, of c] by (auto simp: mpc split: if_splits)
next
  note inj = agents_inj [OF ag]
  have na: "mpc s a \<noteq> Waiting" using pc by auto
  fix b t assume "mpc s' b = Awakening t"
  then have b: "mpc s b = Awakening t" by (auto simp: mpc split: if_splits)
  from queue_okD(6) [OF q b] obtain c where c: "t = agent_cth env c (mem s)" "t \<noteq> nullptr" "mpc s c = Waiting" "t \<in> blocked s"
    "wr c \<notin> set ws" "\<forall>e. mpc s e \<noteq> Waking (wr c)" by blast
  then show "\<exists>c. t = agent_cth env c (mem s') \<and> t \<noteq> nullptr \<and> mpc s' c = Waiting \<and> t \<in> blocked s' \<and> wr c \<notin> set (ws @ [wr a]) \<and>
      (\<forall>e. mpc s' e \<noteq> Waking (wr c))" using na by (intro exI [of _ c]) (auto simp: mpc p inj)
  show "c = b" if "mpc s' c = Awakening t" for c using that queue_okD(7) [OF q b, of c] by (auto simp: mpc split: if_splits)
next
  fix b assume "mpc s' b = Waiting"
  then have b: "mpc s b = Waiting" "b \<noteq> a" by (auto simp: mpc split: if_splits)
  have "woken env wr b s' = woken env wr b s" using b(2) by (simp add: woken_def p mpc agents_inj [OF ag])
  moreover have "(mpc s' c = Waking w) = (mpc s c = Waking w)" "(mpc s' c = Awakening t) = (mpc s c = Awakening t)" for c w t
    using pc by (auto simp: mpc)
  ultimately show "wr b \<in> set (ws @ [wr a]) \<or> woken env wr b s' \<or> (\<exists>c. mpc s' c = Waking (wr b)) \<or> (\<exists>c. mpc s' c = Awakening (agent_cth env b (mem s')))"
    using queue_okD(8) [OF q b(1)] by (auto simp: p)
qed

lemma inv_lock_push:
  assumes i: "mutex_inv env wr m ws s" and pc: "mpc s a = LockHeld False"
    and t: "mutex_try (agent_id env a (mem s)) m (mem s) = Some (False, h)"
    and s': "s' = goto a Queued (wl_push m (wr a) (waiter_init (wr a) (ABTI_self_thread (env a) h) h)) s"
  shows "mutex_inv env wr m (ws @ [wr a]) s'"
  unfolding mutex_inv_def
proof (intro conjI)
  note d = mutex_invD [OF i]
  have h: "h = mem s" "m_locked (mem s) m" using t by (cases rule: mutex_try_cases; simp)+
  have e: "mem s' = wl_push m (wr a) (waiter_init (wr a) (ABTI_self_thread (env a) (mem s)) (mem s))" by (simp add: s' h(1))
  note p = push_sel [OF e]
  have wt: "w_thread (mem s') = (w_thread (mem s))(wr a := agent_cth env a (mem s))" using p(9) by (simp add: agent_cth_def Let_def)
  have mpc: "mpc s' = (mpc s)(a := Queued)" "blocked s' = blocked s" "held s' = held s" by (simp_all add: s')
  note inj = agents_inj [OF d(1)]
  have out: "wr a \<notin> set ws" "mpc s b \<noteq> Waking (wr a)" for b
    using queue_owner(1) [OF d(1,5), of a] queue_owner(2) [OF d(1,5), of b a] pc by (auto simp: sleeps_def)
  show "agents_ok env wr (mem s')" by (rule agents_ok_cong [OF d(1)]) (simp_all add: p)
  show "spin_ok m s'" using pc by (intro spin_keep [OF d(2) mpc(1)]) (auto simp: p)
  show "owner_ok env m s'" by (rule owner_keep [OF d(3) mpc(1)]) (auto simp: p mpc h)
  show "wl_rep m (mem s') (ws @ [wr a])" unfolding e
    by (rule wl_push_rep [OF _ out(1) inj(2)], rule wl_rep_frame [OF d(4)]) (use out in \<open>auto simp: waiter_init_def\<close>)
  show "\<not> m_locked (mem s') m \<and> ws @ [wr a] \<noteq> [] \<longrightarrow> (\<exists>b. active wr (ws @ [wr a]) b s')" using h by (simp add: p)
  show "queue_ok env wr (ws @ [wr a]) s'" using pc by (intro queue_push [OF d(1,5) _ mpc(1,2) p(2,8) wt out]) simp
qed

text \<open>Going to sleep: BLOCKED first, then the spin lock is released.\<close>

lemma inv_block:
  assumes i: "mutex_inv env wr m ws s" and pc: "mpc s a = Queued"
    and s': "s' = s\<lparr>blocked := insert (agent_cth env a (mem s)) (blocked s)\<rparr>"
  shows "mutex_inv env wr m ws s'"
proof -
  note d = mutex_invD [OF i]
  have e: "mem s' = mem s" "mpc s' = mpc s" "held s' = held s" "blocked s \<subseteq> blocked s'" by (auto simp: s')
  have sl: "sleeps env wr b s \<Longrightarrow> sleeps env wr b s'" for b by (auto simp: sleeps_def e subsetD [OF e(4)])
  have "queue_ok env wr ws s'"
  proof (rule queue_okI, unfold e)
    show "\<exists>b. w = wr b \<and> sleeps env wr b s'" if "w \<in> set ws" for w using queue_okD(1) [OF d(5) that] sl by blast
    show "\<exists>c. w = wr c \<and> sleeps env wr c s' \<and> mpc s c = Waiting" if "mpc s b = Waking w" for b w
      using queue_okD(4) [OF d(5) that] sl by blast
    show "\<exists>c. t = agent_cth env c (mem s) \<and> t \<noteq> nullptr \<and> mpc s c = Waiting \<and> t \<in> blocked s' \<and> wr c \<notin> set ws \<and> (\<forall>e. mpc s e \<noteq> Waking (wr c))"
      if "mpc s b = Awakening t" for b t using queue_okD(6) [OF d(5) that] e(4) by blast
    fix b assume b: "mpc s b = Waiting"
    then have "agent_cth env b (mem s) \<noteq> agent_cth env a (mem s) \<or> agent_cth env b (mem s) = nullptr" using agents_inj(3) [OF d(1), of b a] pc by (cases "b = a") auto
    then have "woken env wr b s \<Longrightarrow> woken env wr b s'" by (auto simp: woken_def s')
    then show "wr b \<in> set ws \<or> woken env wr b s' \<or> (\<exists>c. mpc s c = Waking (wr b)) \<or> (\<exists>c. mpc s c = Awakening (agent_cth env b (mem s)))"
      using queue_okD(8) [OF d(5) b] by blast
  qed (rule queue_okD [OF d(5)]; assumption)+
  then show ?thesis using d by (simp add: mutex_inv_def spin_ok_def owner_ok_def active_def e)
qed

lemma queue_wait:
  assumes q: "queue_ok env wr ws s" and pc: "mpc s a = Queued" "agent_cth env a (mem s) = nullptr \<or> agent_cth env a (mem s) \<in> blocked s"
    and e: "mpc s' = (mpc s)(a := Waiting)" "blocked s' = blocked s" "\<And>b. agent_cth env b (mem s') = agent_cth env b (mem s)"
      "w_signaled (mem s') = w_signaled (mem s)" "w_thread (mem s') = w_thread (mem s)"
  shows "queue_ok env wr ws s'"
proof -
  have sl: "sleeps env wr b s \<Longrightarrow> sleeps env wr b s'" for b using pc(2) by (auto simp: sleeps_def e)
  have pcs: "(mpc s' b = Waking w) = (mpc s b = Waking w)" "(mpc s' b = Awakening t) = (mpc s b = Awakening t)"
    "mpc s b = Waiting \<Longrightarrow> mpc s' b = Waiting" "mpc s' b = Queued \<Longrightarrow> mpc s b = Queued" for b w t
    using pc(1) by (auto simp: e split: if_splits)
  show ?thesis
  proof (rule queue_okI, unfold pcs(1,2) e(2,3))
    show "\<exists>b. w = wr b \<and> sleeps env wr b s'" if "w \<in> set ws" for w using queue_okD(1) [OF q that] sl by blast
    show "wr b \<in> set ws" if "mpc s' b = Queued" for b by (rule queue_okD(2) [OF q pcs(4) [OF that]])
    show "\<exists>c. w = wr c \<and> sleeps env wr c s' \<and> mpc s' c = Waiting" if "mpc s b = Waking w" for b w
      using queue_okD(4) [OF q that] sl pcs(3) by blast
    show "\<exists>c. t = agent_cth env c (mem s) \<and> t \<noteq> nullptr \<and> mpc s' c = Waiting \<and> t \<in> blocked s \<and> wr c \<notin> set ws \<and> (\<forall>e. mpc s e \<noteq> Waking (wr c))"
      if "mpc s b = Awakening t" for b t using queue_okD(6) [OF q that] pcs(3) by blast
    fix b assume b: "mpc s' b = Waiting"
    show "wr b \<in> set ws \<or> woken env wr b s' \<or> (\<exists>c. mpc s c = Waking (wr b)) \<or> (\<exists>c. mpc s c = Awakening (agent_cth env b (mem s)))"
    proof (cases "b = a")
      case False
      have "woken env wr b s' = woken env wr b s" by (simp add: e woken_def)
      then show ?thesis using False queue_okD(8) [OF q, of b] b by (simp add: e(1))
    qed (use queue_okD(2) [OF q pc(1)] in simp)
  qed (rule queue_okD [OF q]; assumption)+
qed

lemma inv_wait:
  assumes i: "mutex_inv env wr m ws s" and pc: "mpc s a = Queued" "agent_cth env a (mem s) = nullptr \<or> agent_cth env a (mem s) \<in> blocked s"
    and s': "s' = goto a Waiting (spin_release m (mem s)) s"
  shows "mutex_inv env wr m ws s'"
  unfolding mutex_inv_def
proof (intro conjI)
  note d = mutex_invD [OF i]
  have l: "m_locked (mem s) m" using d(3) pc(1) by (auto simp: owner_ok_def)
  show "agents_ok env wr (mem s')" by (rule agents_ok_cong [OF d(1)]) (simp_all add: s')
  show "spin_ok m s'" using pc by (intro spin_leave [OF d(2), of _ a Waiting]) (auto simp: s')
  show "owner_ok env m s'" by (rule owner_keep [OF d(3), of _ a Waiting]) (auto simp: s')
  show "wl_rep m (mem s') ws" using d(4) by (simp add: s')
  show "\<not> m_locked (mem s') m \<and> ws \<noteq> [] \<longrightarrow> (\<exists>b. active wr ws b s')" using l by (simp add: s')
  show "queue_ok env wr ws s'" by (rule queue_wait [OF d(5) pc]) (auto simp: s')
qed

text \<open>A woken agent tries again.  It is no longer referenced.\<close>

lemma queue_resume:
  assumes q: "queue_ok env wr ws s" and ag: "agents_ok env wr (mem s)"
    and out: "mpc s a = Waiting" "wr a \<notin> set ws" "\<And>b. mpc s b \<noteq> Waking (wr a)" "\<And>b. mpc s b = Awakening (agent_cth env a (mem s)) \<Longrightarrow> agent_cth env a (mem s) = nullptr"
    and e: "mpc s' = (mpc s)(a := Locking False)" "blocked s' = blocked s" "mem s' = mem s"
  shows "queue_ok env wr ws s'"
proof -
  note inj = agents_inj [OF ag]
  have sl: "b \<noteq> a \<Longrightarrow> sleeps env wr b s \<Longrightarrow> sleeps env wr b s'" for b by (auto simp: sleeps_def e)
  have pcs: "(mpc s' b = Waking w) = (mpc s b = Waking w)" "(mpc s' b = Awakening t) = (mpc s b = Awakening t)"
    "b \<noteq> a \<Longrightarrow> mpc s' b = mpc s b" "(mpc s' b = Queued) = (mpc s b = Queued)" for b w t
    using out(1) by (auto simp: e)
  show ?thesis
  proof (rule queue_okI, unfold pcs(1,2,4) e(2,3))
    show "\<exists>b. w = wr b \<and> sleeps env wr b s'" if "w \<in> set ws" for w using queue_okD(1) [OF q that] sl that out(2) by metis
    show "\<exists>c. w = wr c \<and> sleeps env wr c s' \<and> mpc s' c = Waiting" if "mpc s b = Waking w" for b w
      using queue_okD(4) [OF q that] sl pcs(3) that out(3) by metis
    show "\<exists>c. t = agent_cth env c (mem s) \<and> t \<noteq> nullptr \<and> mpc s' c = Waiting \<and> t \<in> blocked s \<and> wr c \<notin> set ws \<and> (\<forall>e. mpc s e \<noteq> Waking (wr c))"
      if "mpc s b = Awakening t" for b t using queue_okD(6) [OF q that] pcs(3) that out(4) by metis
    show "wr b \<in> set ws \<or> woken env wr b s' \<or> (\<exists>c. mpc s c = Waking (wr b)) \<or> (\<exists>c. mpc s c = Awakening (agent_cth env b (mem s)))"
      if "mpc s' b = Waiting" for b using that queue_okD(8) [OF q, of b] by (auto simp: e woken_def split: if_splits)
  qed (rule queue_okD [OF q]; assumption)+
qed

lemma inv_resume:
  assumes i: "mutex_inv env wr m ws s" and pc: "mpc s a = Waiting" "woken env wr a s"
    and s': "s' = goto a (Locking False) (mem s) s"
  shows "mutex_inv env wr m ws s'"
  unfolding mutex_inv_def
proof (intro conjI)
  note d = mutex_invD [OF i]
  have ns: "\<not> sleeps env wr a s" using pc by (auto simp: sleeps_def woken_def split: if_splits)
  have out: "wr a \<notin> set ws" "mpc s b \<noteq> Waking (wr a)" for b
    using ns queue_owner(1) [OF d(1,5), of a] queue_owner(2) [OF d(1,5), of b a] by auto
  have na: "agent_cth env a (mem s) = nullptr" if "mpc s b = Awakening (agent_cth env a (mem s))" for b
    using queue_okD(6) [OF d(5) that] pc(2) by (auto simp: woken_def split: if_splits)
  show "agents_ok env wr (mem s')" using d(1) by (simp add: s')
  show "spin_ok m s'" using pc by (intro spin_keep [OF d(2), of _ a "Locking False"]) (auto simp: s')
  show "owner_ok env m s'" by (rule owner_keep [OF d(3), of _ a "Locking False"]) (auto simp: s')
  show "wl_rep m (mem s') ws" using d(4) by (simp add: s')
  show "\<not> m_locked (mem s') m \<and> ws \<noteq> [] \<longrightarrow> (\<exists>b. active wr ws b s')" by (auto simp: s' active_def intro!: exI [of _ a])
  show "queue_ok env wr ws s'" by (rule queue_resume [OF d(5,1) pc(1) out na]) (auto simp: s')
qed

text \<open>Waking: the store to the popped record, and the call for a blocked thread.\<close>

lemma queue_wake_store:
  assumes q: "queue_ok env wr ws s" and ag: "agents_ok env wr (mem s)" and pc: "mpc s a = Waking (wr c)"
    and e: "mpc s' = (mpc s)(a := x)" "x = (if agent_cth env c (mem s) \<noteq> nullptr then Awakening (agent_cth env c (mem s)) else Out)" "blocked s' = blocked s"
      "\<And>b. agent_cth env b (mem s') = agent_cth env b (mem s)" "w_signaled (mem s') = (w_signaled (mem s))(wr c := True)"
      "w_thread (mem s') = w_thread (mem s)"
  shows "queue_ok env wr ws s'"
proof -
  note inj = agents_inj [OF ag]
  have c: "sleeps env wr c s" "mpc s c = Waiting" "wr c \<notin> set ws" using queue_owner(2) [OF ag q pc] queue_okD(3) [OF q pc] by auto
  have sl: "b \<noteq> c \<Longrightarrow> sleeps env wr b s \<Longrightarrow> sleeps env wr b s'" for b using pc by (auto simp: sleeps_def e inj)
  have pcs: "mpc s' b = Waking w \<Longrightarrow> mpc s b = Waking w \<and> b \<noteq> a" "mpc s' b = Queued \<Longrightarrow> mpc s b = Queued" "mpc s b = Waiting \<Longrightarrow> mpc s' b = Waiting" for b w
    using pc by (auto simp: e(1,2) split: if_splits)
  have nw: "mpc s' b \<noteq> Waking (wr c)" for b using pcs(1) queue_okD(5) [OF q pc] by blast
  have aw: "mpc s' b = Awakening t \<Longrightarrow> mpc s b = Awakening t \<or> b = a \<and> t = agent_cth env c (mem s) \<and> t \<noteq> nullptr" for b t
    by (auto simp: e(1,2) split: if_splits)
  have nc: "mpc s b \<noteq> Awakening (agent_cth env c (mem s))" for b using queue_okD(6) [OF q, of b] inj(3) pc by metis
  show ?thesis
  proof (rule queue_okI, unfold e(3,4))
    show "\<exists>b. w = wr b \<and> sleeps env wr b s'" if "w \<in> set ws" for w using queue_okD(1) [OF q that] sl that c(3) by metis
    show "wr b \<in> set ws" if "mpc s' b = Queued" for b by (rule queue_okD(2) [OF q pcs(2) [OF that]])
    show "w \<notin> set ws" "\<exists>d. w = wr d \<and> sleeps env wr d s' \<and> mpc s' d = Waiting" if "mpc s' b = Waking w" for b w
      using queue_okD(3,4) [OF q, of b w] pcs(1) [OF that] that nw sl pcs(3) by metis+
    show "d = b" if "mpc s' b = Waking w" "mpc s' d = Waking w" for b d w using queue_okD(5) [OF q] pcs(1) that by blast
    show "d = b" if "mpc s' b = Awakening t" "mpc s' d = Awakening t" for b d t using aw [OF that(1)] aw [OF that(2)] queue_okD(7) [OF q] nc by blast
    show "wr b \<in> set ws \<or> woken env wr b s' \<or> (\<exists>d. mpc s' d = Waking (wr b)) \<or> (\<exists>d. mpc s' d = Awakening (agent_cth env b (mem s)))"
      if b: "mpc s' b = Waiting" for b
    proof (cases "b = c")
      case False
      have "mpc s b = Waiting" using b by (auto simp: e(1,2) split: if_splits)
      then consider "wr b \<in> set ws" | "woken env wr b s" | d where "mpc s d = Waking (wr b)" | d where "mpc s d = Awakening (agent_cth env b (mem s))"
        using queue_okD(8) [OF q, of b] by blast
      then show ?thesis
      proof cases
        case 3
        then show ?thesis using False pc by (intro disjI2 disjI1 exI [of _ d]) (auto simp: e(1) inj)
      next
        case 4
        then show ?thesis using pc by (intro disjI2 exI [of _ d]) (auto simp: e(1))
      qed (use False in \<open>auto simp: woken_def e inj\<close>)
    qed (auto simp: woken_def e)
    fix b t assume b: "mpc s' b = Awakening t"
    show "\<exists>d. t = agent_cth env d (mem s) \<and> t \<noteq> nullptr \<and> mpc s' d = Waiting \<and> t \<in> blocked s \<and> wr d \<notin> set ws \<and> (\<forall>e. mpc s' e \<noteq> Waking (wr d))"
    proof (cases "mpc s b = Awakening t")
      case True
      from queue_okD(6) [OF q True] show ?thesis using pcs(1,3) by blast
    next
      case False
      then show ?thesis using aw [OF b] c nw pcs(3) by (intro exI [of _ c]) (auto simp: sleeps_def)
    qed
  qed
qed

lemma inv_wake_store:
  assumes i: "mutex_inv env wr m ws s" and pc: "mpc s a = Waking w" and t: "t = w_thread (mem s) w"
    and s': "s' = goto a (if t \<noteq> nullptr then Awakening t else Out) ((mem s)\<lparr>w_signaled := (w_signaled (mem s))(w := True)\<rparr>) s"
  shows "mutex_inv env wr m ws s'"
  unfolding mutex_inv_def
proof (intro conjI)
  note d = mutex_invD [OF i]
  from queue_okD(4) [OF d(5) pc] obtain c where c: "w = wr c" "sleeps env wr c s" "mpc s c = Waiting" by blast
  have tc: "t = agent_cth env c (mem s)" using c t by (simp add: sleeps_def)
  have pc': "mpc s' = (mpc s)(a := if t \<noteq> nullptr then Awakening t else Out)" by (simp add: s')
  show "agents_ok env wr (mem s')" by (rule agents_ok_cong [OF d(1)]) (simp_all add: s')
  show "spin_ok m s'" using pc by (intro spin_keep [OF d(2) pc']) (auto simp: s')
  show "owner_ok env m s'" by (rule owner_keep [OF d(3) pc']) (auto simp: s' split: if_splits)
  show "wl_rep m (mem s') ws" using d(4) by (simp add: s' wl_rep_def)
  show "queue_ok env wr ws s'" by (rule queue_wake_store [OF d(5,1) pc [unfolded c(1)]]) (auto simp: s' c(1) tc)
  have "active wr ws c s'" using c queue_okD(3) [OF d(5) pc] pc by (auto simp: active_def s')
  then show "\<not> m_locked (mem s') m \<and> ws \<noteq> [] \<longrightarrow> (\<exists>b. active wr ws b s')" by blast
qed

lemma queue_wake_thread:
  assumes q: "queue_ok env wr ws s" and ag: "agents_ok env wr (mem s)" and pc: "mpc s a = Awakening t"
    and e: "mpc s' = (mpc s)(a := Out)" "blocked s' = blocked s - {t}" "mem s' = mem s"
  shows "queue_ok env wr ws s'"
proof -
  note inj = agents_inj [OF ag]
  from queue_okD(6) [OF q pc] obtain c where c: "t = agent_cth env c (mem s)" "t \<noteq> nullptr" "mpc s c = Waiting" "t \<in> blocked s"
    "wr c \<notin> set ws" "\<forall>e. mpc s e \<noteq> Waking (wr c)" by blast
  have sl: "b \<noteq> c \<Longrightarrow> sleeps env wr b s \<Longrightarrow> sleeps env wr b s'" for b using pc c(1,2) inj(3) [of b c] by (auto simp: sleeps_def e)
  have pcs: "(mpc s' b = Waking w) = (mpc s b = Waking w)" "(mpc s' b = Queued) = (mpc s b = Queued)" "(mpc s' b = Waiting) = (mpc s b = Waiting)"
    "(mpc s' b = Awakening u) = (mpc s b = Awakening u \<and> b \<noteq> a)" for b w u
    using pc by (auto simp: e)
  show ?thesis
  proof (rule queue_okI, unfold pcs e(2,3))
    show "\<exists>b. w = wr b \<and> sleeps env wr b s'" if "w \<in> set ws" for w using queue_okD(1) [OF q that] sl that c(5) by metis
    show "\<exists>d. w = wr d \<and> sleeps env wr d s' \<and> mpc s d = Waiting" if "mpc s b = Waking w" for b w
      using queue_okD(4) [OF q that] sl that c(6) by metis
    show "d = b" if "mpc s b = Awakening u \<and> b \<noteq> a" "mpc s d = Awakening u \<and> d \<noteq> a" for b d u using queue_okD(7) [OF q] that by blast
    show "wr b \<in> set ws \<or> woken env wr b s' \<or> (\<exists>d. mpc s d = Waking (wr b)) \<or> (\<exists>d. mpc s d = Awakening (agent_cth env b (mem s)) \<and> d \<noteq> a)"
      if b: "mpc s b = Waiting" for b using queue_okD(8) [OF q b] pc c(1,2) by (auto simp: woken_def e)
    fix b u assume b: "mpc s b = Awakening u \<and> b \<noteq> a"
    then have "u \<noteq> t" using queue_okD(7) [OF q pc, of b] by auto
    then show "\<exists>d. u = agent_cth env d (mem s) \<and> u \<noteq> nullptr \<and> mpc s d = Waiting \<and> u \<in> blocked s - {t} \<and> wr d \<notin> set ws \<and> (\<forall>e. mpc s e \<noteq> Waking (wr d))"
      using queue_okD(6) [OF q, of b u] b by blast
  qed (rule queue_okD [OF q]; assumption)+
qed

lemma inv_wake_thread:
  assumes i: "mutex_inv env wr m ws s" and pc: "mpc s a = Awakening t" and s': "s' = (goto a Out (mem s) s)\<lparr>blocked := blocked s - {t}\<rparr>"
  shows "mutex_inv env wr m ws s'"
  unfolding mutex_inv_def
proof (intro conjI)
  note d = mutex_invD [OF i]
  from queue_okD(6) [OF d(5) pc] obtain c where c: "mpc s c = Waiting" "wr c \<notin> set ws" by blast
  show "agents_ok env wr (mem s')" using d(1) by (simp add: s')
  show "spin_ok m s'" using pc by (intro spin_keep [OF d(2), of _ a Out]) (auto simp: s')
  show "owner_ok env m s'" by (rule owner_keep [OF d(3), of _ a Out]) (auto simp: s')
  show "wl_rep m (mem s') ws" using d(4) by (simp add: s')
  show "queue_ok env wr ws s'" by (rule queue_wake_thread [OF d(5,1) pc]) (auto simp: s')
  have "active wr ws c s'" using c pc by (auto simp: active_def s')
  then show "\<not> m_locked (mem s') m \<and> ws \<noteq> [] \<longrightarrow> (\<exists>b. active wr ws b s')" by blast
qed

text \<open>Unlocking: a nested unlock, or the mutex becomes free and the oldest waiter is taken off the list.\<close>

lemma queue_pop:
  assumes q: "queue_ok env wr (v # vs) s" and ag: "agents_ok env wr (mem s)" and sp: "spin_ok m s" and pc: "mpc s a = UnlockHeld"
    and dv: "v \<notin> set vs" and e: "mpc s' = (mpc s)(a := Waking v)" "blocked s' = blocked s" "\<And>b. agent_cth env b (mem s') = agent_cth env b (mem s)"
      "w_signaled (mem s') = w_signaled (mem s)" "w_thread (mem s') = w_thread (mem s)"
  shows "queue_ok env wr vs s'"
proof -
  have nq: "mpc s b \<noteq> Queued" for b using spin_excl [OF sp, of a b] pc by auto
  have sl: "sleeps env wr b s \<Longrightarrow> sleeps env wr b s'" for b using pc by (auto simp: sleeps_def e)
  from queue_okD(1) [OF q, of v] obtain c where c: "v = wr c" "sleeps env wr c s" by auto
  have cw: "mpc s c = Waiting" using c(2) nq by (auto simp: sleeps_def)
  have nv: "mpc s b \<noteq> Waking v" for b using queue_okD(3) [OF q, of b v] by auto
  have pcs: "(mpc s' b = Waking w) = (mpc s b = Waking w \<or> b = a \<and> w = v)" "(mpc s' b = Queued) = (mpc s b = Queued)"
    "(mpc s' b = Awakening t) = (mpc s b = Awakening t)" "mpc s b = Waiting \<Longrightarrow> mpc s' b = Waiting" for b w t
    using pc by (auto simp: e)
  show ?thesis
  proof (rule queue_okI, unfold pcs(1-3) e(2,3))
    show "\<exists>b. w = wr b \<and> sleeps env wr b s'" if "w \<in> set vs" for w using queue_okD(1) [OF q, of w] sl that by auto
    show "wr b \<in> set vs" if "mpc s b = Queued" for b using nq that by blast
    fix b w assume b: "mpc s b = Waking w \<or> b = a \<and> w = v"
    show "w \<notin> set vs" using b queue_okD(3) [OF q, of b w] dv by auto
    show "\<exists>d. w = wr d \<and> sleeps env wr d s' \<and> mpc s' d = Waiting" using b queue_okD(4) [OF q, of b w] c cw sl pcs(4) by metis
    show "d = b" if "mpc s d = Waking w \<or> d = a \<and> w = v" for d using b that queue_okD(5) [OF q] nv by blast
  next
    fix b t assume b: "mpc s b = Awakening t"
    from queue_okD(6) [OF q b] show "\<exists>d. t = agent_cth env d (mem s) \<and> t \<noteq> nullptr \<and> mpc s' d = Waiting \<and> t \<in> blocked s \<and> wr d \<notin> set vs \<and>
      (\<forall>e. \<not> (mpc s e = Waking (wr d) \<or> e = a \<and> wr d = v))" using pcs(4) by auto
    show "d = b" if "mpc s d = Awakening t" for d using queue_okD(7) [OF q b that] .
  next
    fix b assume "mpc s' b = Waiting"
    then have b: "mpc s b = Waiting" using pc by (auto simp: e(1) split: if_splits)
    show "wr b \<in> set vs \<or> woken env wr b s' \<or> (\<exists>d. mpc s d = Waking (wr b) \<or> d = a \<and> wr b = v) \<or> (\<exists>d. mpc s d = Awakening (agent_cth env b (mem s)))"
      using queue_okD(8) [OF q b] by (auto simp: woken_def e(2-))
  qed
qed

lemma give_cases:
  assumes g: "mutex_give m h = (w, h')" and r: "wl_rep m h ws"
  obtains (nested) "m_nesting h m > 0" "w = nullptr" "h' = h\<lparr>m_nesting := (m_nesting h)(m := m_nesting h m - 1)\<rparr>"
    | (free) ws' where "m_nesting h m \<le> 0" "wl_rep m h' ws'" "ws = (if w = nullptr then [] else [w]) @ ws'" "w = nullptr \<Longrightarrow> ws' = []"
        "m_locked h' = (m_locked h)(m := False)" "m_nesting h' = m_nesting h" "m_attrs h' = m_attrs h"
proof (cases "m_nesting h m > 0")
  case True
  then show ?thesis using g nested by (simp add: mutex_give_def)
next
  case False
  let ?h = "h\<lparr>m_locked := (m_locked h)(m := False), m_owner := (m_owner h)(m := 0)\<rparr>"
  have g: "wl_pop m ?h = (w, h')" using g False by (simp add: mutex_give_def)
  have r': "wl_rep m ?h ws" using r by (simp add: wl_rep_def)
  note p = wl_pop_rep [OF r'] and f = pop_sel [OF g]
  show ?thesis
  proof (cases ws)
    case Nil
    then have "w = nullptr" "h' = ?h" using p g by simp_all
    then show ?thesis using False r' Nil by (intro free [of "[]"]) simp_all
  next
    case (Cons v vs)
    then have "w = v" "wl_rep m h' vs" "v \<noteq> nullptr" using p g wl_rep_nonnull [OF r'] by auto
    then show ?thesis using False Cons f by (intro free [of vs]) simp_all
  qed
qed

lemma give_sel:
  assumes "mutex_give m h = (w, h')"
  shows "agent_id env b h' = agent_id env b h" "agent_cth env b h' = agent_cth env b h" "w_thread h' = w_thread h" "w_signaled h' = w_signaled h"
  using assms by (auto simp: mutex_give_def pop_sel split: if_splits)

lemma owner_unlock:
  assumes o: "owner_ok env m s" and sp: "spin_ok m s" and pc: "mpc s a = UnlockHeld" and h: "\<And>b. agent_id env b (mem s') = agent_id env b (mem s)"
    and e: "mpc s' = (mpc s)(a := x)" "x = Out \<or> x = Waking w" "held s' = (held s)(a := held s a - 1)" "m_attrs (mem s') m = m_attrs (mem s) m"
    and n: "if m_nesting (mem s) m > 0
       then m_locked (mem s') m = m_locked (mem s) m \<and> m_owner (mem s') m = m_owner (mem s) m \<and> m_nesting (mem s') m = m_nesting (mem s) m - 1
       else \<not> m_locked (mem s') m \<and> m_nesting (mem s') m = m_nesting (mem s) m"
  shows "owner_ok env m s'"
proof -
  have a: "held s a > 0" using o pc by (auto simp: owner_ok_def)
  note u = owner_unique [OF o a]
  have z: "m_nesting (mem s) m \<ge> 0" "m_attrs (mem s) m AND 1 = 0 \<longrightarrow> m_nesting (mem s) m = 0" using o by (auto simp: owner_ok_def)
  have hp: "mpc s b = Unlocking \<or> mpc s b = UnlockHeld \<Longrightarrow> held s b > 0" for b using o by (auto simp: owner_ok_def)
  have nq: "mpc s b \<noteq> Queued" "mpc s b = Unlocking \<or> mpc s b = UnlockHeld \<Longrightarrow> b = a" for b
    using spin_excl [OF sp, of a b] pc u(4) [of b] hp [of b] by (cases "b = a"; auto)+
  have pcs: "\<forall>b. mpc s' b = Unlocking \<or> mpc s' b = UnlockHeld \<longrightarrow> held s' b > 0" "\<forall>b. mpc s' b \<noteq> Queued"
    using nq e(2) by (auto simp: e(1))
  show ?thesis
  proof (cases "m_nesting (mem s) m > 0")
    case True
    then show ?thesis using n u z h pcs unfolding owner_ok_def by (auto simp: e(3,4) intro!: exI [of _ a])
  next
    case False
    then have "held s a = 1" using u(3) z(1) by simp
    then have "held s' b = 0" for b using u(4) [of b] by (simp add: e(3))
    then show ?thesis using n False z pcs unfolding owner_ok_def by (simp add: e(4))
  qed
qed

lemma inv_unlock:
  assumes i: "mutex_inv env wr m ws s" and pc: "mpc s a = UnlockHeld" and g: "mutex_give m (mem s) = (w, h)"
    and s': "s' = (goto a (if w \<noteq> nullptr then Waking w else Out) (spin_release m h) s)\<lparr>held := (held s)(a := held s a - 1)\<rparr>"
  shows "\<exists>ws'. mutex_inv env wr m ws' s'"
proof -
  note d = mutex_invD [OF i] and f = give_sel [OF g]
  have e: "mpc s' = (mpc s)(a := if w \<noteq> nullptr then Waking w else Out)" "blocked s' = blocked s" "held s' = (held s)(a := held s a - 1)"
    "\<And>b. agent_cth env b (mem s') = agent_cth env b (mem s)" "\<And>b. agent_id env b (mem s') = agent_id env b (mem s)"
    "w_signaled (mem s') = w_signaled (mem s)" "w_thread (mem s') = w_thread (mem s)" by (simp_all add: s' f)
  have ag: "agents_ok env wr (mem s')" by (rule agents_ok_cong [OF d(1)]) (simp_all add: e)
  have sp: "spin_ok m s'" using pc by (intro spin_leave [OF d(2) e(1)]) (auto simp: s')
  note ow = owner_unlock [OF d(3,2) pc e(5,1) _ e(3), of w]
  from g d(4) show ?thesis
  proof (cases rule: give_cases)
    case nested
    have l: "m_locked (mem s) m" using d(3) pc owner_unique(1) [OF d(3), of a] by (auto simp: owner_ok_def)
    have "owner_ok env m s'" using nested by (intro ow) (auto simp: s')
    moreover have "queue_ok env wr ws s'" using pc nested by (intro queue_neutral [OF d(5), of a Out]) (auto simp: e)
    moreover have "wl_rep m (mem s') ws" by (rule wl_rep_frame [OF d(4)]) (simp_all add: s' nested(3) spin_release_def)
    moreover have "m_locked (mem s') m" using l nested by (simp add: s')
    ultimately show ?thesis using ag sp by (auto simp: mutex_inv_def)
  next
    case (free ws')
    have o: "owner_ok env m s'" using free by (intro ow) (auto simp: s')
    have r: "wl_rep m (mem s') ws'" using free by (simp add: s')
    show ?thesis
    proof (cases "w = nullptr")
      case True
      then have ws: "ws' = ws" "ws = []" using free(3,4) by simp_all
      have "queue_ok env wr ws s'" by (rule queue_neutral [OF d(5), of a Out]) (use pc True in \<open>simp_all add: e\<close>)
      then show ?thesis using ag sp o r ws by (intro exI [of _ ws]) (simp add: mutex_inv_def)
    next
      case False
      then have ws: "ws = w # ws'" using free(3) by simp
      have q: "queue_ok env wr (w # ws') s" "w \<notin> set ws'" using d(4,5) ws by (simp_all add: wl_rep_def)
      have "queue_ok env wr ws' s'" by (rule queue_pop [OF q(1) d(1,2) pc q(2)]) (use False in \<open>simp_all add: e\<close>)
      moreover have "active wr ws' a s'" using False by (simp add: active_def e)
      ultimately show ?thesis using ag sp o r by (intro exI [of _ ws']) (simp add: mutex_inv_def, blast)
    qed
  qed
qed

lemma mutex_inv_step:
  assumes i: "mutex_inv env wr m ws s" and st: "mutex_step env wr m a s s'"
  shows "\<exists>ws'. mutex_inv env wr m ws' s'"
  using st
proof cases
  case (call c)
  then show ?thesis using inv_call [OF i] by blast
next
  case (acquire c)
  then show ?thesis using inv_acquire [OF i] by blast
next
  case (lock_done b h)
  then show ?thesis using inv_lock_done [OF i] by blast
next
  case (lock_spin h)
  then show ?thesis using inv_fail [OF i, of "agent_id env a (mem s)" h a "Locking True"] by auto
next
  case (lock_push h)
  then show ?thesis using inv_lock_push [OF i] by blast
next
  case block
  then show ?thesis using inv_block [OF i] by blast
next
  case wait
  then show ?thesis using inv_wait [OF i] by blast
next
  case resume
  then show ?thesis using inv_resume [OF i] by blast
next
  case (try_fail h)
  then show ?thesis using inv_fail [OF i, of "agent_id env a (mem s)" h a Out] by auto
next
  case (unlock w h)
  then show ?thesis using inv_unlock [OF i] by blast
next
  case (wake_store w t)
  then show ?thesis using inv_wake_store [OF i] by blast
next
  case (wake_thread t)
  then show ?thesis using inv_wake_thread [OF i] by blast
qed

interpretation mutexes: transition_system "mutex_init env wr m" "\<lambda>s s'. \<exists>a. mutex_step env wr m a s s'" "\<lambda>s. \<exists>ws. mutex_inv env wr m ws s"
  for env wr m
proof
  show "\<exists>ws. mutex_inv env wr m ws s" if "mutex_init env wr m s" for s using mutex_inv_init [OF that] by blast
  show "\<exists>ws. mutex_inv env wr m ws t" if "\<exists>ws. mutex_inv env wr m ws s" "\<exists>a. mutex_step env wr m a s t" for s t
    using that by (elim exE) (rule mutex_inv_step)
qed


subsection \<open>Mutual exclusion\<close>

text \<open>
  C2. At every moment of every interleaving at most one caller holds the mutex, the mutex is marked locked
  exactly while somebody does, its owner field names that caller, the nesting counter is its number of
  locks minus one, and a mutex that is not recursive is held once.  The hypothesis is the initial state of
  \<open>reach\<close>: a fresh mutex, callers with distinct ids, threads and waiter records.
\<close>

theorem mutex_exclusion:
  assumes "reach (mutex_init env wr m) (\<lambda>s s'. \<exists>a. mutex_step env wr m a s s') s"
  shows "(\<forall>a b. held s a > 0 \<and> held s b > 0 \<longrightarrow> a = b) \<and> (m_locked (mem s) m \<longleftrightarrow> (\<exists>a. held s a > 0)) \<and>
    (\<forall>a. held s a > 0 \<longrightarrow> m_owner (mem s) m = agent_id env a (mem s) \<and> m_nesting (mem s) m = int (held s a) - 1 \<and>
       (m_attrs (mem s) m AND 1 = 0 \<longrightarrow> held s a = 1))"
proof -
  from mutexes.reach_inv [OF assms] obtain ws where "mutex_inv env wr m ws s" by blast
  note o = mutex_invD(3) [OF this]
  note u = owner_unique [OF o]
  have "\<exists>a. held s a > 0" if l: "m_locked (mem s) m"
  proof -
    from o l obtain a where "int (held s a) = m_nesting (mem s) m + 1" "m_nesting (mem s) m \<ge> 0" unfolding owner_ok_def by auto
    then have "held s a > 0" by linarith
    then show ?thesis ..
  qed
  moreover have "m_attrs (mem s) m AND 1 = 0 \<Longrightarrow> m_nesting (mem s) m = 0" using o by (simp add: owner_ok_def)
  moreover have "held s a > 0 \<and> held s b > 0 \<Longrightarrow> a = b" for a b using u(4) [of a b] by (cases "a = b") auto
  ultimately show ?thesis using u(1-3) by (intro conjI allI impI) force+
qed


subsection \<open>A free mutex is handed on\<close>

text \<open>Steps of agents that are inside a call: nobody starts a new one.\<close>

definition mutex_busy :: "('g \<Rightarrow> 'a sync_env) \<Rightarrow> ('g \<Rightarrow> ptr) \<Rightarrow> ptr \<Rightarrow> ('g, 'a) mutex_sys \<Rightarrow> ('g, 'a) mutex_sys \<Rightarrow> bool" where
  "mutex_busy env wr m s s' \<longleftrightarrow> (\<exists>b. mpc s b \<noteq> Out \<and> mutex_step env wr m b s s')"

definition taken_within :: "nat \<Rightarrow> ('g \<Rightarrow> 'a sync_env) \<Rightarrow> ('g \<Rightarrow> ptr) \<Rightarrow> ptr \<Rightarrow> ('g, 'a) mutex_sys \<Rightarrow> bool" where
  "taken_within k env wr m s \<longleftrightarrow> (\<exists>n \<le> k. \<exists>s'. (mutex_busy env wr m ^^ n) s s' \<and> m_locked (mem s') m)"

lemma taken_step:
  assumes "mpc s b \<noteq> Out" "mutex_step env wr m b s s1" "taken_within k env wr m s1"
  shows "taken_within (Suc k) env wr m s"
proof -
  from assms(3) obtain n s' where n: "n \<le> k" "(mutex_busy env wr m ^^ n) s1 s'" "m_locked (mem s') m" unfolding taken_within_def by blast
  have "mutex_busy env wr m s s1" using assms(1,2) unfolding mutex_busy_def by blast
  then have "(mutex_busy env wr m ^^ Suc n) s s'" using n(2) by (rule relpowp_Suc_I2)
  then show ?thesis using n unfolding taken_within_def by (intro exI [of _ "Suc n"] conjI exI [of _ s']) simp_all
qed

lemma taken_now: "m_locked (mem s) m \<Longrightarrow> taken_within 0 env wr m s"
  unfolding taken_within_def by (intro exI [of _ 0] conjI exI [of _ s]) simp_all

lemma taken_mono: "taken_within k env wr m s \<Longrightarrow> k \<le> n \<Longrightarrow> taken_within n env wr m s"
  unfolding taken_within_def by (meson le_trans)

lemma taken_held:
  assumes "mpc s b = LockHeld x \<or> mpc s b = TryHeld" "\<not> m_locked (mem s) m"
  shows "taken_within 1 env wr m s"
proof -
  obtain h where h: "mutex_try (agent_id env b (mem s)) m (mem s) = Some (True, h)" "m_locked h m" using assms(2) by (simp add: mutex_try_def)
  have "taken_within (Suc 0) env wr m s"
    by (rule taken_step [OF _ mutex_step.lock_done [OF assms(1) h(1)] taken_now]) (use assms h in auto)
  then show ?thesis by simp
qed

lemma taken_locking:
  assumes i: "mutex_inv env wr m ws s" and pc: "mpc s b = Locking x" and f: "\<not> m_locked (mem s) m"
  shows "taken_within 2 env wr m s"
proof (cases "slock (mem s) m")
  case True
  then obtain c where c: "in_slock (mpc s c)" using mutex_invD(2) [OF i] by (auto simp: spin_ok_def)
  have "mpc s c \<noteq> Queued" "mpc s c \<noteq> UnlockHeld"
    using mutex_invD(3) [OF i] owner_unique(1) [OF mutex_invD(3) [OF i], of c] f by (auto simp: owner_ok_def)
  with c have "mpc s c = TryHeld \<or> (\<exists>y. mpc s c = LockHeld y)" by (cases "mpc s c") auto
  then show ?thesis using taken_held [OF _ f, of c] taken_mono [of 1 env wr m s 2] by auto
next
  case False
  have "taken_within (Suc 1) env wr m s"
    by (rule taken_step [OF _ mutex_step.acquire [of s b "LockHeld x"] taken_held [of _ b]]) (use pc False f in auto)
  then show ?thesis by (simp add: numeral_2_eq_2)
qed

lemma taken_woken:
  assumes i: "mutex_inv env wr m ws s" and pc: "mpc s b = Waiting" "woken env wr b s" and f: "\<not> m_locked (mem s) m"
  shows "taken_within 3 env wr m s"
proof -
  have "mutex_inv env wr m ws (goto b (Locking False) (mem s) s)" by (rule inv_resume [OF i pc refl])
  then have "taken_within 2 env wr m (goto b (Locking False) (mem s) s)" by (rule taken_locking [where b = b]) (use f in auto)
  from taken_step [OF _ mutex_step.resume [OF pc] this] pc show ?thesis by (simp add: numeral_3_eq_3 numeral_2_eq_2)
qed

lemma taken_awakening:
  assumes i: "mutex_inv env wr m ws s" and pc: "mpc s c = Awakening t" and f: "\<not> m_locked (mem s) m"
  shows "taken_within 4 env wr m s"
proof -
  from queue_okD(6) [OF mutex_invD(5) [OF i] pc] obtain b where b: "t = agent_cth env b (mem s)" "t \<noteq> nullptr" "mpc s b = Waiting" by blast
  let ?s = "(goto c Out (mem s) s)\<lparr>blocked := blocked s - {t}\<rparr>"
  have "mutex_inv env wr m ws ?s" by (rule inv_wake_thread [OF i pc refl])
  then have "taken_within 3 env wr m ?s" by (rule taken_woken [where b = b]) (use b pc f in \<open>auto simp: woken_def\<close>)
  from taken_step [OF _ mutex_step.wake_thread [OF pc] this] pc show ?thesis by (simp add: eval_nat_numeral)
qed

lemma taken_waking:
  assumes i: "mutex_inv env wr m ws s" and pc: "mpc s c = Waking w" and f: "\<not> m_locked (mem s) m"
  shows "taken_within 5 env wr m s"
proof -
  from queue_okD(4) [OF mutex_invD(5) [OF i] pc] obtain b where b: "w = wr b" "sleeps env wr b s" "mpc s b = Waiting" by blast
  define t where "t = w_thread (mem s) w"
  let ?s = "goto c (if t \<noteq> nullptr then Awakening t else Out) ((mem s)\<lparr>w_signaled := (w_signaled (mem s))(w := True)\<rparr>) s"
  have j: "mutex_inv env wr m ws ?s" by (rule inv_wake_store [OF i pc t_def refl])
  have "taken_within 4 env wr m ?s"
  proof (cases "t = nullptr")
    case True
    then have "agent_cth env b (mem s) = nullptr" using b by (simp add: sleeps_def t_def)
    then have "taken_within 3 env wr m ?s" by (intro taken_woken [OF j, of b]) (use b pc f in \<open>auto simp: woken_def\<close>)
    then show ?thesis by (rule taken_mono) simp
  next
    case False
    then show ?thesis by (intro taken_awakening [OF j, of c t]) (use f in auto)
  qed
  from taken_step [OF _ mutex_step.wake_store [OF pc t_def] this] pc show ?thesis by (simp add: eval_nat_numeral)
qed

lemma taken_active:
  assumes i: "mutex_inv env wr m ws s" and f: "\<not> m_locked (mem s) m" and b: "active wr ws b s"
  shows "taken_within 5 env wr m s"
proof -
  have "taken_within 2 env wr m s" if "mpc s b = Locking x" for x by (rule taken_locking [OF i that f])
  moreover have "taken_within 1 env wr m s" if "mpc s b = LockHeld x" for x by (rule taken_held [OF _ f]) (use that in blast)
  moreover have "taken_within 5 env wr m s" if "mpc s b = Waking w" for w by (rule taken_waking [OF i that f])
  moreover have "taken_within 4 env wr m s" if "mpc s b = Awakening t" for t by (rule taken_awakening [OF i that f])
  moreover have "taken_within 5 env wr m s" if w: "mpc s b = Waiting" "wr b \<notin> set ws"
  proof -
    consider "woken env wr b s" | c where "mpc s c = Waking (wr b)" | c where "mpc s c = Awakening (agent_cth env b (mem s))"
      using queue_okD(8) [OF mutex_invD(5) [OF i] w(1)] w(2) by blast
    then show ?thesis
    proof cases
      case 1
      from taken_woken [OF i w(1) 1 f] show ?thesis by (rule taken_mono) simp
    next
      case 2
      from taken_waking [OF i 2 f] show ?thesis .
    next
      case 3
      from taken_awakening [OF i 3 f] show ?thesis by (rule taken_mono) simp
    qed
  qed
  ultimately show ?thesis using b taken_mono [of _ env wr m s 5] by (cases "mpc s b") (auto simp: active_def)
qed

text \<open>
  C3. No wake-up is lost.  In every reachable state a popped waiter record belongs to a caller that still
  waits, so the store to it hits a live stack frame, and a thread about to be woken is in fact blocked, so
  \<^verbatim>\<open>CthAwakenIfBlocked\<close> always wakes it; and whenever the mutex is free while somebody waits for it, the
  callers that are already inside a call can bring it to be locked again within five steps.
\<close>

theorem mutex_handed_on:
  assumes "reach (mutex_init env wr m) (\<lambda>s s'. \<exists>a. mutex_step env wr m a s s') s"
  shows "(\<forall>b w. mpc s b = Waking w \<longrightarrow> (\<exists>a. w = wr a \<and> mpc s a = Waiting \<and> \<not> w_signaled (mem s) w)) \<and>
    (\<forall>b t. mpc s b = Awakening t \<longrightarrow> t \<in> blocked s \<and> (\<exists>a. t = agent_cth env a (mem s) \<and> mpc s a = Waiting)) \<and>
    (\<not> m_locked (mem s) m \<and> (\<exists>a. mpc s a = Waiting) \<longrightarrow>
       (\<exists>n \<le> 5. \<exists>s'. (mutex_busy env wr m ^^ n) s s' \<and> m_locked (mem s') m))"
proof -
  from mutexes.reach_inv [OF assms] obtain ws where i: "mutex_inv env wr m ws s" by blast
  note q = queue_okD [OF mutex_invD(5) [OF i]]
  have "taken_within 5 env wr m s" if n: "\<not> m_locked (mem s) m" "mpc s a = Waiting" for a
  proof (cases "wr a \<in> set ws")
    case True
    then have "ws \<noteq> []" by auto
    then obtain b where "active wr ws b s" using mutex_invD(6) [OF i] n(1) by blast
    then show ?thesis by (rule taken_active [OF i n(1)])
  next
    case False
    then have "active wr ws a s" using n(2) by (simp add: active_def)
    then show ?thesis by (rule taken_active [OF i n(1)])
  qed
  moreover have "\<exists>a. w = wr a \<and> mpc s a = Waiting \<and> \<not> w_signaled (mem s) w" if "mpc s b = Waking w" for b w
    using q(4) [OF that] by (auto simp: sleeps_def)
  moreover have "t \<in> blocked s \<and> (\<exists>a. t = agent_cth env a (mem s) \<and> mpc s a = Waiting)" if "mpc s b = Awakening t" for b t
    using q(6) [OF that] by blast
  ultimately show ?thesis unfolding taken_within_def by blast
qed


subsection \<open>A run\<close>

text \<open>
  A mutex at address 8, an external thread (\<open>True\<close>) and a ULT (\<open>False\<close>, runtime thread 9, descriptor 512).  The
  external thread locks, the ULT goes to sleep on the list, the external thread unlocks.
\<close>

definition run_env :: "bool \<Rightarrow> sync_heap env" where
  "run_env b = (if b then env0\<lparr>CmiIsPeThread := False, pthread_self := 7\<rparr> else env0\<lparr>CthSelf := 9\<rparr>)"

definition run_wr :: "bool \<Rightarrow> ptr" where
  "run_wr b = (if b then 512 else 768)"

definition run_start :: "(bool, unit) mutex_sys" where
  "run_start = \<lparr>mem = (zero_sync (abt_of heap0))\<lparr>cth_userdata := (\<lambda>_. nullptr)(9 := 512), t_cth := (\<lambda>_. nullptr)(512 := 9),
     t_id := (\<lambda>_. 0)(512 := 3), t_is_task := (\<lambda>_. False), tls_task := nullptr\<rparr>, mpc = (\<lambda>_. Out), blocked = {}, held = (\<lambda>_. 0)\<rparr>"

lemma run_agents:
  "agent_id run_env True (mem run_start) = 9223372036854775815" "agent_id run_env False (mem run_start) = 3"
  "agent_cth run_env True (mem run_start) = nullptr" "agent_cth run_env False (mem run_start) = 9"
  by (simp_all add: agent_defs run_env_def run_start_def env0_def)

lemma run_init: "mutex_init run_env run_wr 8 run_start"
proof -
  have "agents_ok run_env run_wr (mem run_start)"
    unfolding agents_ok_def by (auto simp: inj_def all_bool_eq run_agents run_wr_def)
  then show ?thesis by (simp add: mutex_init_def run_start_def zero_sync_defs)
qed

abbreviation run_reach :: "(bool, unit) mutex_sys \<Rightarrow> bool" where
  "run_reach \<equiv> reach (mutex_init run_env run_wr 8) (\<lambda>s s'. \<exists>a. mutex_step run_env run_wr 8 a s s')"

lemma run_step: "run_reach s \<Longrightarrow> mutex_step run_env run_wr 8 a s s' \<Longrightarrow> run_reach s'"
  by (rule reach_step) blast+

text \<open>An uncontended lock, a failed one, an unlock, from any state where nobody holds the spin lock.\<close>

lemma run_lock:
  assumes r: "run_reach s" and pc: "mpc s a = Out" and f: "\<not> slock (mem s) 8" "\<not> m_locked (mem s) 8"
  shows "\<exists>s'. run_reach s' \<and> mpc s' = mpc s \<and> \<not> slock (mem s') 8 \<and> m_locked (mem s') 8 \<and> held s' a = held s a + 1 \<and>
    m_owner (mem s') 8 = agent_id run_env a (mem s) \<and> m_attrs (mem s') = m_attrs (mem s) \<and> m_nesting (mem s') 8 = 0 \<and>
    (\<forall>b. agent_id run_env b (mem s') = agent_id run_env b (mem s) \<and> agent_cth run_env b (mem s') = agent_cth run_env b (mem s))"
proof -
  let ?s1 = "goto a (Locking False) (mem s) s"
  have r1: "run_reach ?s1" by (rule run_step [OF r mutex_step.call]) (use pc in auto)
  let ?s2 = "goto a (LockHeld False) (spin_take 8 (mem ?s1)) ?s1"
  have r2: "run_reach ?s2" by (rule run_step [OF r1 mutex_step.acquire]) (use f in auto)
  obtain h where h: "mutex_try (agent_id run_env a (mem ?s2)) 8 (mem ?s2) = Some (True, h)" "m_locked h 8" "m_nesting h 8 = 0"
    "m_owner h 8 = agent_id run_env a (mem s)" "m_attrs h = m_attrs (mem s)"
    using f(2) by (simp add: mutex_try_def)
  let ?s3 = "(goto a Out (spin_release 8 h) ?s2)\<lparr>held := (held ?s2)(a := held ?s2 a + 1)\<rparr>"
  have "run_reach ?s3" by (rule run_step [OF r2 mutex_step.lock_done [OF _ h(1)]]) auto
  then show ?thesis using h pc try_sel [OF h(1)] by (intro exI [of _ ?s3]) (auto simp: fun_upd_idem)
qed

lemma run_wait:
  assumes r: "run_reach s" and pc: "mpc s a = Out" and f: "\<not> slock (mem s) 8" "m_locked (mem s) 8" "m_attrs (mem s) 8 = 0"
    and c: "agent_cth run_env a (mem s) \<noteq> nullptr"
  shows "\<exists>s'. run_reach s' \<and> mpc s' = (mpc s)(a := Waiting) \<and> \<not> slock (mem s') 8 \<and> m_locked (mem s') 8 \<and> held s' = held s \<and>
    m_nesting (mem s') = m_nesting (mem s)"
proof -
  let ?s1 = "goto a (Locking False) (mem s) s"
  have r1: "run_reach ?s1" by (rule run_step [OF r mutex_step.call]) (use pc in auto)
  let ?s2 = "goto a (LockHeld False) (spin_take 8 (mem ?s1)) ?s1"
  have r2: "run_reach ?s2" by (rule run_step [OF r1 mutex_step.acquire]) (use f in auto)
  have t: "mutex_try (agent_id run_env a (mem ?s2)) 8 (mem ?s2) = Some (False, mem ?s2)" using f(2,3) by (simp add: mutex_try_def)
  define h where "h = wl_push 8 (run_wr a) (waiter_init (run_wr a) (ABTI_self_thread (run_env a) (mem ?s2)) (mem ?s2))"
  let ?s3 = "goto a Queued h ?s2"
  have r3: "run_reach ?s3" unfolding h_def by (rule run_step [OF r2 mutex_step.lock_push [OF _ t]]) simp
  note p = push_sel [OF h_def]
  let ?s4 = "?s3\<lparr>blocked := insert (agent_cth run_env a (mem ?s3)) (blocked ?s3)\<rparr>"
  have r4: "run_reach ?s4" by (rule run_step [OF r3 mutex_step.block]) (use c in \<open>simp_all add: p\<close>)
  let ?s5 = "goto a Waiting (spin_release 8 (mem ?s4)) ?s4"
  have "run_reach ?s5" by (rule run_step [OF r4 mutex_step.wait]) simp_all
  then show ?thesis using f by (intro exI [of _ ?s5]) (auto simp: p)
qed

lemma run_unlock:
  assumes r: "run_reach s" and pc: "mpc s a = Out" and f: "\<not> slock (mem s) 8" "held s a > 0" "m_nesting (mem s) 8 = 0"
  shows "\<exists>s' w. run_reach s' \<and> mpc s' = (mpc s)(a := if w \<noteq> nullptr then Waking w else Out) \<and> \<not> m_locked (mem s') 8"
proof -
  let ?s1 = "goto a Unlocking (mem s) s"
  have r1: "run_reach ?s1" by (rule run_step [OF r mutex_step.call]) (use pc f in auto)
  let ?s2 = "goto a UnlockHeld (spin_take 8 (mem ?s1)) ?s1"
  have r2: "run_reach ?s2" by (rule run_step [OF r1 mutex_step.acquire]) (use f in auto)
  obtain w h where g: "mutex_give 8 (mem ?s2) = (w, h)" by (cases "mutex_give 8 (mem ?s2)")
  let ?s3 = "(goto a (if w \<noteq> nullptr then Waking w else Out) (spin_release 8 h) ?s2)\<lparr>held := (held ?s2)(a := held ?s2 a - 1)\<rparr>"
  have "run_reach ?s3" by (rule run_step [OF r2 mutex_step.unlock [OF _ g]]) simp
  moreover have "\<not> m_locked h 8" using g f(3) by (auto simp: mutex_give_def dest!: pop_sel(4))
  ultimately show ?thesis by (intro exI [of _ ?s3] exI [of _ w]) auto
qed

lemma run_contended:
  "\<exists>s. run_reach s \<and> mpc s = (\<lambda>_. Out)(False := Waiting) \<and> \<not> slock (mem s) 8 \<and> m_locked (mem s) 8 \<and> held s True = 1 \<and> m_nesting (mem s) 8 = 0"
proof -
  have i: "run_reach run_start" by (rule reach_init, rule run_init)
  have z: "mpc run_start = (\<lambda>_. Out)" "\<not> slock (mem run_start) 8" "\<not> m_locked (mem run_start) 8" "held run_start = (\<lambda>_. 0)" "m_attrs (mem run_start) = (\<lambda>_. 0)"
    by (simp_all add: run_start_def zero_sync_defs)
  from run_lock [OF i, of True] obtain s where s: "run_reach s" "mpc s = (\<lambda>_. Out)" "\<not> slock (mem s) 8" "m_locked (mem s) 8" "held s True = 1"
    "m_attrs (mem s) = (\<lambda>_. 0)" "m_nesting (mem s) 8 = 0" "agent_cth run_env False (mem s) = 9" by (auto simp: z run_agents)
  from run_wait [OF s(1), of False] s show ?thesis by (auto simp: s)
qed

theorem mutex_exclusion_witness:
  "\<exists>s. run_reach s \<and> mpc s False = Waiting \<and> held s True = 1 \<and> (\<forall>b. held s b > 0 \<longrightarrow> b = True) \<and>
     m_owner (mem s) 8 = agent_id run_env True (mem s)"
proof -
  from run_contended obtain s where s: "run_reach s" "mpc s False = Waiting" "held s True = 1" by auto
  note x = mutex_exclusion [OF s(1)]
  have "\<forall>b. held s b > 0 \<longrightarrow> b = True" using x [THEN conjunct1] s(3) by (metis zero_less_one)
  moreover have "m_owner (mem s) 8 = agent_id run_env True (mem s)" using x [THEN conjunct2, THEN conjunct2] s(3) by (metis zero_less_one)
  ultimately show ?thesis using s by blast
qed

theorem mutex_handed_on_witness:
  "\<exists>s. run_reach s \<and> mpc s False = Waiting \<and> \<not> m_locked (mem s) 8 \<and> (\<exists>n \<le> 5. \<exists>s'. (mutex_busy run_env run_wr 8 ^^ n) s s' \<and> m_locked (mem s') 8)"
proof -
  from run_contended obtain s where s: "run_reach s" "mpc s = (\<lambda>_. Out)(False := Waiting)" "\<not> slock (mem s) 8" "held s True = 1" "m_nesting (mem s) 8 = 0" by blast
  from run_unlock [OF s(1), of True] s obtain s' where s': "run_reach s'" "mpc s' False = Waiting" "\<not> m_locked (mem s') 8" by auto
  from mutex_handed_on [OF s'(1)] s' show ?thesis by blast
qed

end
