(* ===== verification/Timed_Steps.thy ===== *)
theory Timed_Steps
  imports Mutex
begin

section \<open>A timed wait and a signal\<close>

text \<open>
  \<^verbatim>\<open>ABT_cond_signal\<close> and \<^verbatim>\<open>ABT_cond_timedwait\<close> of \<^verbatim>\<open>src/src/sync.cpp\<close> on one condition variable \<open>c\<close>, access by access:
  a signaller, and a caller whose record \<open>w\<close> is on the list and who polls in \<^verbatim>\<open>wait_on_timed\<close>.  The order in which
  the signaller releases the spin lock and stores to the record is visible here, which it is not when
  the call is one function.  \<open>frames\<close> is an auxiliary variable: the waiter records whose stack frame is
  live; a record is a local variable of \<^verbatim>\<open>cond_wait_impl\<close> and dies when that call returns, after it has taken
  the mutex \<open>m\<close> again.  Taking the mutex is the critical section \<open>mutex_try\<close>,
  entered when its spin lock is free.
\<close>

datatype signal_pc =
    SigStart               \<comment> \<open>before \<^verbatim>\<open>spin_acquire\<close>\<close>
  | SigLocked              \<comment> \<open>before \<^verbatim>\<open>wl_pop\<close>\<close>
  | SigPopped ptr          \<comment> \<open>before \<^verbatim>\<open>spin_release\<close>\<close>
  | SigWaking ptr          \<comment> \<open>in \<^verbatim>\<open>wake\<close>, before the thread is read\<close>
  | SigStore ptr ptr       \<comment> \<open>before the store to \<^verbatim>\<open>signaled\<close>; the record and the thread read from it\<close>
  | SigAwaken ptr          \<comment> \<open>before \<^verbatim>\<open>CthAwakenIfBlocked\<close>\<close>
  | SigDone

datatype timed_pc =
    TPoll                  \<comment> \<open>before the first test of \<^verbatim>\<open>signaled\<close>\<close>
  | TTime                  \<comment> \<open>before the clock is read\<close>
  | TExpired               \<comment> \<open>before \<^verbatim>\<open>spin_acquire\<close>\<close>
  | TLocked                \<comment> \<open>before the second test of \<^verbatim>\<open>signaled\<close>\<close>
  | TUnlock bool           \<comment> \<open>before \<^verbatim>\<open>spin_release\<close>, with the result\<close>
  | TRelock bool           \<comment> \<open>back in \<^verbatim>\<open>cond_wait_impl\<close>, before the mutex is taken\<close>
  | TReturned bool

record 'a timed_sys =
  tmem :: "'a sync"
  clock :: time
  spc :: signal_pc
  tpc :: timed_pc
  frames :: "ptr set"

inductive timed_step :: "'a sync_env \<Rightarrow> ptr \<Rightarrow> ptr \<Rightarrow> 64 word \<Rightarrow> ptr \<Rightarrow> time \<Rightarrow> 'a timed_sys \<Rightarrow> 'a timed_sys \<Rightarrow> bool"
  for E c m me w deadline where
  sig_lock: "spc s = SigStart \<Longrightarrow> \<not> slock (tmem s) c \<Longrightarrow>
    timed_step E c m me w deadline s (s\<lparr>tmem := spin_take c (tmem s), spc := SigLocked\<rparr>)"
| sig_pop: "spc s = SigLocked \<Longrightarrow> wl_pop c (tmem s) = (v, h') \<Longrightarrow>
    timed_step E c m me w deadline s (s\<lparr>tmem := h', spc := SigPopped v\<rparr>)"
| sig_unlock: "spc s = SigPopped v \<Longrightarrow>
    timed_step E c m me w deadline s (s\<lparr>tmem := spin_release c (tmem s), spc := if v \<noteq> nullptr then SigWaking v else SigDone\<rparr>)"
| sig_read: "spc s = SigWaking v \<Longrightarrow> timed_step E c m me w deadline s (s\<lparr>spc := SigStore v (w_thread (tmem s) v)\<rparr>)"
| sig_store: "spc s = SigStore v t \<Longrightarrow>
    timed_step E c m me w deadline s (s\<lparr>tmem := (tmem s)\<lparr>w_signaled := (w_signaled (tmem s))(v := True)\<rparr>,
      spc := if t \<noteq> nullptr then SigAwaken t else SigDone\<rparr>)"
| sig_awaken: "spc s = SigAwaken t \<Longrightarrow> CthAwakenIfBlocked E t (tmem s) = Some (b, h') \<Longrightarrow>
    timed_step E c m me w deadline s (s\<lparr>tmem := h', spc := SigDone\<rparr>)"
| tick: "clock s \<le> k \<Longrightarrow> timed_step E c m me w deadline s (s\<lparr>clock := k\<rparr>)"
| seen: "tpc s = TPoll \<Longrightarrow> timed_step E c m me w deadline s (s\<lparr>tpc := if w_signaled (tmem s) w then TRelock True else TTime\<rparr>)"
| timed: "tpc s = TTime \<Longrightarrow> timed_step E c m me w deadline s (s\<lparr>tpc := if clock s \<ge> deadline then TExpired else TPoll\<rparr>)"
| expire_lock: "tpc s = TExpired \<Longrightarrow> \<not> slock (tmem s) c \<Longrightarrow>
    timed_step E c m me w deadline s (s\<lparr>tmem := spin_take c (tmem s), tpc := TLocked\<rparr>)"
| late: "tpc s = TLocked \<Longrightarrow> w_signaled (tmem s) w \<Longrightarrow> timed_step E c m me w deadline s (s\<lparr>tpc := TUnlock True\<rparr>)"
| remove: "tpc s = TLocked \<Longrightarrow> \<not> w_signaled (tmem s) w \<Longrightarrow> wl_remove c w (tmem s) = Some (b, h') \<Longrightarrow>
    timed_step E c m me w deadline s (s\<lparr>tmem := h', tpc := TUnlock False\<rparr>)"
| unlock: "tpc s = TUnlock b \<Longrightarrow> timed_step E c m me w deadline s (s\<lparr>tmem := spin_release c (tmem s), tpc := TRelock b\<rparr>)"
| return: "tpc s = TRelock b \<Longrightarrow> \<not> slock (tmem s) m \<Longrightarrow> mutex_try me m (tmem s) = Some (True, h') \<Longrightarrow>
    timed_step E c m me w deadline s (s\<lparr>tmem := h', tpc := TReturned b, frames := frames s - {w}\<rparr>)"

text \<open>The start: the signaller and the timed waiter are before their first access.\<close>

definition timed_start :: "'a sync \<Rightarrow> time \<Rightarrow> ptr set \<Rightarrow> 'a timed_sys" where
  "timed_start h k F = \<lparr>tmem = h, clock = k, spc = SigStart, tpc = TPoll, frames = F\<rparr>"

lemma pop_frame:
  "wl_pop l h = (v, h') \<Longrightarrow> w_signaled h' = w_signaled h \<and> slock h' = slock h \<and> m_locked h' = m_locked h"
  by (auto simp: wl_pop_def Let_def split: if_splits)

lemma remove_absent: "wl_rep l h ws \<Longrightarrow> w \<notin> set ws \<Longrightarrow> wl_remove l w h = Some (False, h)"
proof -
  have "wchain (w_next h) p vs nullptr \<Longrightarrow> w \<notin> set vs \<Longrightarrow> wl_remove_from l w q p h = Some (False, h)" for p q vs
    by (induction vs arbitrary: p q) (auto simp: wl_remove_from.simps)
  then show "wl_rep l h ws \<Longrightarrow> w \<notin> set ws \<Longrightarrow> wl_remove l w h = Some (False, h)" by (auto simp: wl_rep_def wl_remove_def)
qed

lemma timed_stepI: "timed_step E c m me w d s s' \<Longrightarrow> s' = t \<Longrightarrow> (timed_step E c m me w d)\<^sup>*\<^sup>* t u \<Longrightarrow> (timed_step E c m me w d)\<^sup>*\<^sup>* s u"
  by (simp add: converse_rtranclp_into_rtranclp)

text \<open>The signaller takes the oldest record off the list and releases the lock.\<close>

lemma signaller_takes:
  assumes "wl_rep c h (w # ws)" "\<not> slock h c"
  shows "\<exists>h1. (timed_step E c m me w0 d)\<^sup>*\<^sup>* \<lparr>tmem = h, clock = k, spc = SigStart, tpc = q, frames = F\<rparr>
      \<lparr>tmem = h1, clock = k, spc = SigWaking w, tpc = q, frames = F\<rparr> \<and>
    wl_rep c h1 ws \<and> slock h1 = slock h \<and> w_signaled h1 = w_signaled h \<and> m_locked h1 = m_locked h"
proof -
  have n: "w \<noteq> nullptr" using wl_rep_nonnull [OF assms(1)] by auto
  have "wl_rep c (spin_take c h) (w # ws)" using assms(1) by (simp add: wl_rep_def spin_take_def)
  from wl_pop_rep [OF this] obtain g where g: "wl_pop c (spin_take c h) = (w, g)" "wl_rep c g ws" by auto
  have "(timed_step E c m me w0 d)\<^sup>*\<^sup>* \<lparr>tmem = h, clock = k, spc = SigStart, tpc = q, frames = F\<rparr>
      \<lparr>tmem = spin_release c g, clock = k, spc = SigWaking w, tpc = q, frames = F\<rparr>"
    apply (rule timed_stepI [OF sig_lock refl])
      apply (simp_all add: assms(2))
    apply (rule timed_stepI [OF sig_pop refl])
      apply (simp_all add: g(1))
    apply (rule timed_stepI [OF sig_unlock refl])
     apply (use n in auto)
    done
  moreover have "wl_rep c (spin_release c g) ws" "slock (spin_release c g) = slock h" "w_signaled (spin_release c g) = w_signaled h"
    "m_locked (spin_release c g) = m_locked h"
    using g(2) pop_frame [OF g(1)] assms(2) by (auto simp: wl_rep_def spin_release_def spin_take_def fun_eq_iff)
  ultimately show ?thesis by blast
qed

text \<open>A waiter that is off the list and not signalled times out and returns.\<close>

lemma waiter_times_out:
  assumes "wl_rep c h ws" "w \<notin> set ws" "\<not> w_signaled h w" "\<not> slock h c" "\<not> slock h m" "\<not> m_locked h m"
  shows "\<exists>h1 k1. (timed_step E c m me w d)\<^sup>*\<^sup>* \<lparr>tmem = h, clock = k, spc = p, tpc = TPoll, frames = F\<rparr>
      \<lparr>tmem = h1, clock = k1, spc = p, tpc = TReturned False, frames = F - {w}\<rparr> \<and>
    wl_rep c h1 ws \<and> w_signaled h1 = w_signaled h"
proof -
  have r: "wl_remove c w (spin_take c h) = Some (False, spin_take c h)"
    using remove_absent [of c "spin_take c h" ws w] assms(1,2) by (simp add: wl_rep_def spin_take_def)
  obtain h1 where h1: "mutex_try me m h = Some (True, h1)" "wl_rep c h1 ws" "w_signaled h1 = w_signaled h"
    using assms(1,6) by (simp add: mutex_try_def wl_rep_def)
  have "(timed_step E c m me w d)\<^sup>*\<^sup>* \<lparr>tmem = h, clock = k, spc = p, tpc = TPoll, frames = F\<rparr>
      \<lparr>tmem = h1, clock = max k d, spc = p, tpc = TReturned False, frames = F - {w}\<rparr>"
    apply (rule timed_stepI [OF tick [where k = "max k d"] refl])
     apply (simp_all)
    apply (rule timed_stepI [OF seen refl])
     apply (simp_all add: assms(3))
    apply (rule timed_stepI [OF timed refl])
     apply (simp_all)
    apply (rule timed_stepI [OF expire_lock refl])
      apply (simp_all add: assms(4))
    apply (rule timed_stepI [OF remove [where b = False and h' = "spin_take c h"] refl])
       apply (simp_all add: r)
     apply (simp add: spin_take_def assms(3))
    apply (rule timed_stepI [OF unlock [where b = False] refl])
     apply (simp_all add: spin_again [OF assms(4)])
    apply (rule timed_stepI [OF return [where b = False and h' = h1] refl])
       apply (simp_all add: h1(1) assms(5))
    done
  with h1(2,3) show ?thesis by blast
qed



end
