(* ===== verification/Sync_Objects.thy ===== *)
theory Sync_Objects
  imports Mutex
begin

section \<open>Read-write locks, barriers and futures\<close>

text \<open>
  The last part of \<^verbatim>\<open>src/src/sync.cpp\<close>: objects made of a mutex and condition variables.  The parts of an
  operation that run while it holds the mutex are definitions of their own, which the interleaved model of
  \<open>Sync_Steps\<close> uses as well.  \<open>w\<close> and \<open>mw\<close> are the caller's waiter records for the condition variable and the
  mutex, \<open>now\<close> is the wall clock.  \<open>None\<close>: the wait does not end, or a signed counter overflows.
\<close>

definition INT_MIN :: int where "INT_MIN = -2147483648"


subsection \<open>Read-write locks\<close>

definition rd_blocked :: "ptr \<Rightarrow> 'a sync \<Rightarrow> bool" where
  "rd_blocked r h = r_writer h r"

definition wr_blocked :: "ptr \<Rightarrow> 'a sync \<Rightarrow> bool" where
  "wr_blocked r h \<longleftrightarrow> r_writer h r \<or> r_readers h r \<noteq> 0"

definition rd_take :: "ptr \<Rightarrow> 'a sync \<Rightarrow> 'a sync option" where
  "rd_take r h = (if r_readers h r = INT_MAX then None else Some (h\<lparr>r_readers := (r_readers h)(r := r_readers h r + 1)\<rparr>))"

definition wr_take :: "ptr \<Rightarrow> 'a sync \<Rightarrow> 'a sync" where
  "wr_take r h = h\<lparr>r_writer := (r_writer h)(r := True)\<rparr>"

text \<open>What \<^verbatim>\<open>ABT_rwlock_unlock\<close> does to the lock: broadcast to the readers?, signal a writer?, the new state.\<close>

definition rw_give :: "ptr \<Rightarrow> 'a sync \<Rightarrow> (bool \<times> bool \<times> 'a sync) option" where
  "rw_give r h =
     (if r_writer h r then Some (True, True, h\<lparr>r_writer := (r_writer h)(r := False)\<rparr>)
      else if r_readers h r = INT_MIN then None
      else let h1 = h\<lparr>r_readers := (r_readers h)(r := r_readers h r - 1)\<rparr> in Some (False, r_readers h1 r = 0, h1))"

definition ABT_rwlock_create :: "ptr \<Rightarrow> ptr \<Rightarrow> ptr \<Rightarrow> ptr \<Rightarrow> 'a sync \<Rightarrow> (ptr, 'a sync) api" where
  "ABT_rwlock_create r m rd wr h =
     (let h1 = h\<lparr>live := insert r (live h), r_readers := (r_readers h)(r := 0), r_writer := (r_writer h)(r := False)\<rparr>;
          (_, h2) = ABT_mutex_create m h1; (_, h3) = ABT_cond_create rd h2; (_, h4) = ABT_cond_create wr h3
      in (Inr r, h4\<lparr>r_m := (r_m h4)(r := m), r_rd := (r_rd h4)(r := rd), r_wr := (r_wr h4)(r := wr)\<rparr>))"

definition ABT_rwlock_free :: "ptr \<Rightarrow> 'a sync \<Rightarrow> (unit, 'a sync) api option" where
  "ABT_rwlock_free rwlock h = with_obj ABT_ERR_INV_RWLOCK rwlock (\<lambda>r.
     do { (_, h1) \<leftarrow> ABT_mutex_free (r_m h r) h; (_, h2) \<leftarrow> ABT_cond_free (r_rd h1 r) h1; (_, h3) \<leftarrow> ABT_cond_free (r_wr h2 r) h2;
          Some (Inr (), h3\<lparr>live := live h3 - {r}\<rparr>) }) h"

partial_function (option) rd_wait :: "'a sync_env \<Rightarrow> ('a sync \<Rightarrow> time) \<Rightarrow> ptr \<Rightarrow> ptr \<Rightarrow> ptr \<Rightarrow> 'a sync \<Rightarrow> 'a sync option" where
  "rd_wait E now w mw r h =
     (if rd_blocked r h then do { (_, h1) \<leftarrow> ABT_cond_wait E now w mw (r_rd h r) (r_m h r) h; rd_wait E now w mw r h1 } else Some h)"

definition ABT_rwlock_rdlock :: "'a sync_env \<Rightarrow> ('a sync \<Rightarrow> time) \<Rightarrow> ptr \<Rightarrow> ptr \<Rightarrow> ptr \<Rightarrow> 'a sync \<Rightarrow> (unit, 'a sync) api option" where
  "ABT_rwlock_rdlock E now w mw rwlock h = with_obj ABT_ERR_INV_RWLOCK rwlock (\<lambda>r.
     do { (_, h1) \<leftarrow> ABT_mutex_lock E mw (r_m h r) h;
          h2 \<leftarrow> rd_wait E now w mw r h1;
          h3 \<leftarrow> rd_take r h2;
          (_, h4) \<leftarrow> ABT_mutex_unlock E (r_m h3 r) h3;
          Some (Inr (), h4) }) h"

partial_function (option) wr_wait :: "'a sync_env \<Rightarrow> ('a sync \<Rightarrow> time) \<Rightarrow> ptr \<Rightarrow> ptr \<Rightarrow> ptr \<Rightarrow> 'a sync \<Rightarrow> 'a sync option" where
  "wr_wait E now w mw r h =
     (if wr_blocked r h then do { (_, h1) \<leftarrow> ABT_cond_wait E now w mw (r_wr h r) (r_m h r) h; wr_wait E now w mw r h1 } else Some h)"

definition ABT_rwlock_wrlock :: "'a sync_env \<Rightarrow> ('a sync \<Rightarrow> time) \<Rightarrow> ptr \<Rightarrow> ptr \<Rightarrow> ptr \<Rightarrow> 'a sync \<Rightarrow> (unit, 'a sync) api option" where
  "ABT_rwlock_wrlock E now w mw rwlock h = with_obj ABT_ERR_INV_RWLOCK rwlock (\<lambda>r.
     do { (_, h1) \<leftarrow> ABT_mutex_lock E mw (r_m h r) h;
          h2 \<leftarrow> wr_wait E now w mw r h1;
          let h3 = wr_take r h2;
          (_, h4) \<leftarrow> ABT_mutex_unlock E (r_m h3 r) h3;
          Some (Inr (), h4) }) h"

definition ABT_rwlock_unlock :: "'a sync_env \<Rightarrow> ptr \<Rightarrow> ptr \<Rightarrow> 'a sync \<Rightarrow> (unit, 'a sync) api option" where
  "ABT_rwlock_unlock E mw rwlock h = with_obj ABT_ERR_INV_RWLOCK rwlock (\<lambda>r.
     do { (_, h1) \<leftarrow> ABT_mutex_lock E mw (r_m h r) h;
          (all, one, h2) \<leftarrow> rw_give r h1;
          (_, h3) \<leftarrow> (if all then ABT_cond_broadcast E (r_rd h2 r) h2 else Some (Inr (), h2));
          (_, h4) \<leftarrow> (if one then ABT_cond_signal E (r_wr h3 r) h3 else Some (Inr (), h3));
          (_, h5) \<leftarrow> ABT_mutex_unlock E (r_m h4 r) h4;
          Some (Inr (), h5) }) h"


subsection \<open>Barriers\<close>

text \<open>The arrival: was it the last one of the round?\<close>

definition barrier_arrive :: "ptr \<Rightarrow> 'a sync \<Rightarrow> bool \<times> 'a sync" where
  "barrier_arrive b h =
     (let n = b_waiting h b + 1
      in if n \<ge> b_num h b
         then (True, h\<lparr>b_waiting := (b_waiting h)(b := 0), b_generation := (b_generation h)(b := b_generation h b + 1)\<rparr>)
         else (False, h\<lparr>b_waiting := (b_waiting h)(b := n)\<rparr>))"

definition ABT_barrier_create :: "ptr \<Rightarrow> ptr \<Rightarrow> ptr \<Rightarrow> 32 word \<Rightarrow> 'a sync \<Rightarrow> (ptr, 'a sync) api" where
  "ABT_barrier_create b m c num_waiters h =
     (let h1 = h\<lparr>live := insert b (live h), b_num := (b_num h)(b := num_waiters), b_waiting := (b_waiting h)(b := 0),
                b_generation := (b_generation h)(b := 0)\<rparr>;
          (_, h2) = ABT_mutex_create m h1; (_, h3) = ABT_cond_create c h2
      in (Inr b, h3\<lparr>b_m := (b_m h3)(b := m), b_c := (b_c h3)(b := c)\<rparr>))"

definition ABT_barrier_reinit :: "'a sync_env \<Rightarrow> ptr \<Rightarrow> ptr \<Rightarrow> 32 word \<Rightarrow> 'a sync \<Rightarrow> (unit, 'a sync) api option" where
  "ABT_barrier_reinit E mw barrier num_waiters h = with_obj ABT_ERR_INV_BARRIER barrier (\<lambda>b.
     do { (_, h1) \<leftarrow> ABT_mutex_lock E mw (b_m h b) h;
          let h2 = h1\<lparr>b_num := (b_num h1)(b := num_waiters), b_waiting := (b_waiting h1)(b := 0)\<rparr>;
          (_, h3) \<leftarrow> ABT_mutex_unlock E (b_m h2 b) h2;
          Some (Inr (), h3) }) h"

definition ABT_barrier_free :: "ptr \<Rightarrow> 'a sync \<Rightarrow> (unit, 'a sync) api option" where
  "ABT_barrier_free barrier h = with_obj ABT_ERR_INV_BARRIER barrier (\<lambda>b.
     do { (_, h1) \<leftarrow> ABT_mutex_free (b_m h b) h; (_, h2) \<leftarrow> ABT_cond_free (b_c h1 b) h1;
          Some (Inr (), h2\<lparr>live := live h2 - {b}\<rparr>) }) h"

partial_function (option) barrier_loop :: "'a sync_env \<Rightarrow> ('a sync \<Rightarrow> time) \<Rightarrow> ptr \<Rightarrow> ptr \<Rightarrow> ptr \<Rightarrow> 64 word \<Rightarrow> 'a sync \<Rightarrow> 'a sync option" where
  "barrier_loop E now w mw b gen h =
     (if gen = b_generation h b
      then do { (_, h1) \<leftarrow> ABT_cond_wait E now w mw (b_c h b) (b_m h b) h; barrier_loop E now w mw b gen h1 }
      else Some h)"

definition ABT_barrier_wait :: "'a sync_env \<Rightarrow> ('a sync \<Rightarrow> time) \<Rightarrow> ptr \<Rightarrow> ptr \<Rightarrow> ptr \<Rightarrow> 'a sync \<Rightarrow> (unit, 'a sync) api option" where
  "ABT_barrier_wait E now w mw barrier h = with_obj ABT_ERR_INV_BARRIER barrier (\<lambda>b.
     do { (_, h1) \<leftarrow> ABT_mutex_lock E mw (b_m h b) h;
          let gen = b_generation h1 b;
          let (last_one, h2) = barrier_arrive b h1;
          h3 \<leftarrow> (if last_one then map_option snd (ABT_cond_broadcast E (b_c h2 b) h2) else barrier_loop E now w mw b gen h2);
          (_, h4) \<leftarrow> ABT_mutex_unlock E (b_m h3 b) h3;
          Some (Inr (), h4) }) h"

definition ABT_barrier_get_num_waiters :: "ptr \<Rightarrow> 'a sync \<Rightarrow> (32 word, 'a sync) api option" where
  "ABT_barrier_get_num_waiters barrier h = with_obj ABT_ERR_INV_BARRIER barrier (\<lambda>b. Some (Inr (b_num h b), h)) h"


subsection \<open>Futures\<close>

text \<open>\<open>cb f vs\<close> is the call of the callback \<open>f\<close> on the array of values.\<close>

definition ABT_future_create :: "ptr \<Rightarrow> ptr \<Rightarrow> ptr \<Rightarrow> 32 word \<Rightarrow> ptr \<Rightarrow> 'a sync \<Rightarrow> (ptr, 'a sync) api" where
  "ABT_future_create f m c num_compartments cb_func h =
     (let h1 = h\<lparr>live := insert f (live h), f_n := (f_n h)(f := num_compartments), f_count := (f_count h)(f := 0),
                f_cb := (f_cb h)(f := cb_func), f_values := (f_values h)(f := replicate (unat num_compartments) nullptr),
                f_ready := (f_ready h)(f := False)\<rparr>;
          (_, h2) = ABT_mutex_create m h1; (_, h3) = ABT_cond_create c h2
      in (Inr f, h3\<lparr>f_m := (f_m h3)(f := m), f_c := (f_c h3)(f := c)\<rparr>))"

definition ABT_future_free :: "ptr \<Rightarrow> 'a sync \<Rightarrow> (unit, 'a sync) api option" where
  "ABT_future_free future h = with_obj ABT_ERR_INV_FUTURE future (\<lambda>f.
     do { (_, h1) \<leftarrow> ABT_mutex_free (f_m h f) h; (_, h2) \<leftarrow> ABT_cond_free (f_c h1 f) h1;
          Some (Inr (), h2\<lparr>live := live h2 - {f}\<rparr>) }) h"

partial_function (option) future_loop :: "'a sync_env \<Rightarrow> ('a sync \<Rightarrow> time) \<Rightarrow> ptr \<Rightarrow> ptr \<Rightarrow> ptr \<Rightarrow> 'a sync \<Rightarrow> 'a sync option" where
  "future_loop E now w mw f h =
     (if \<not> f_ready h f
      then do { (_, h1) \<leftarrow> ABT_cond_wait E now w mw (f_c h f) (f_m h f) h; future_loop E now w mw f h1 }
      else Some h)"

definition ABT_future_wait :: "'a sync_env \<Rightarrow> ('a sync \<Rightarrow> time) \<Rightarrow> ptr \<Rightarrow> ptr \<Rightarrow> ptr \<Rightarrow> 'a sync \<Rightarrow> (unit, 'a sync) api option" where
  "ABT_future_wait E now w mw future h = with_obj ABT_ERR_INV_FUTURE future (\<lambda>f.
     do { (_, h1) \<leftarrow> ABT_mutex_lock E mw (f_m h f) h;
          h2 \<leftarrow> future_loop E now w mw f h1;
          (_, h3) \<leftarrow> ABT_mutex_unlock E (f_m h2 f) h2;
          Some (Inr (), h3) }) h"

definition ABT_future_test :: "'a sync_env \<Rightarrow> ptr \<Rightarrow> ptr \<Rightarrow> 'a sync \<Rightarrow> (bool, 'a sync) api option" where
  "ABT_future_test E mw future h = with_obj ABT_ERR_INV_FUTURE future (\<lambda>f.
     do { (_, h1) \<leftarrow> ABT_mutex_lock E mw (f_m h f) h;
          (_, h2) \<leftarrow> ABT_mutex_unlock E (f_m h1 f) h1;
          Some (Inr (f_ready h1 f), h2) }) h"

text \<open>Filling the next compartment: \<open>None\<close> if there is none left, otherwise whether this was the last one.\<close>

definition future_put :: "ptr \<Rightarrow> ptr \<Rightarrow> 'a sync \<Rightarrow> (bool \<times> 'a sync) option" where
  "future_put f v h =
     (if f_count h f \<ge> f_n h f then None
      else let h1 = h\<lparr>f_values := (f_values h)(f := (f_values h f)[unat (f_count h f) := v]), f_count := (f_count h)(f := f_count h f + 1)\<rparr>
           in Some (if f_count h1 f = f_n h1 f then (True, h1\<lparr>f_ready := (f_ready h1)(f := True)\<rparr>) else (False, h1)))"

definition ABT_future_set :: "'a sync_env \<Rightarrow> (ptr \<Rightarrow> ptr list \<Rightarrow> 'a sync \<Rightarrow> 'a sync) \<Rightarrow> ptr \<Rightarrow> ptr \<Rightarrow> ptr \<Rightarrow> 'a sync \<Rightarrow>
    (unit, 'a sync) api option" where
  "ABT_future_set E cb mw future v h = with_obj ABT_ERR_INV_FUTURE future (\<lambda>f.
     do { (_, h1) \<leftarrow> ABT_mutex_lock E mw (f_m h f) h;
          case future_put f v h1 of
            None \<Rightarrow> do { (_, h2) \<leftarrow> ABT_mutex_unlock E (f_m h1 f) h1; Some (Inl ABT_ERR_FUTURE, h2) }
          | Some (full, h2) \<Rightarrow>
              do { let h3 = (if full \<and> f_cb h2 f \<noteq> nullptr then cb (f_cb h2 f) (f_values h2 f) h2 else h2);
                   (_, h4) \<leftarrow> (if full then ABT_cond_broadcast E (f_c h3 f) h3 else Some (Inr (), h3));
                   (_, h5) \<leftarrow> ABT_mutex_unlock E (f_m h4 f) h4;
                   Some (Inr (), h5) } }) h"

definition ABT_future_reset :: "'a sync_env \<Rightarrow> ptr \<Rightarrow> ptr \<Rightarrow> 'a sync \<Rightarrow> (unit, 'a sync) api option" where
  "ABT_future_reset E mw future h = with_obj ABT_ERR_INV_FUTURE future (\<lambda>f.
     do { (_, h1) \<leftarrow> ABT_mutex_lock E mw (f_m h f) h;
          let h2 = h1\<lparr>f_count := (f_count h1)(f := 0), f_ready := (f_ready h1)(f := False)\<rparr>;
          (_, h3) \<leftarrow> ABT_mutex_unlock E (f_m h2 f) h2;
          Some (Inr (), h3) }) h"

end
