(* ===== verification/Sync_Steps.thy ===== *)
theory Sync_Steps
  imports Sync_Objects
begin

section \<open>Read-write locks and barriers under interleaving\<close>

text \<open>
  Any number of threads use one object of \<open>Sync_Objects\<close>.  A step is what a thread does between taking the
  object's mutex and giving it back, by unlocking it or by waiting on a condition variable: the mutex makes
  these sections exclude each other (\<open>Mutex_Steps\<close>), and a wait joins the list before it gives the mutex back.
  The wait lists are sequences of threads (\<open>Waitlist\<close>); signals and broadcasts happen inside sections.  The
  agents are the elements of a type \<open>'g\<close>.
\<close>

subsection \<open>Read-write locks\<close>

datatype rw_pc =
    RwOut
  | RdAsleep                 \<comment> \<open>in \<^verbatim>\<open>ABT_cond_wait(r->rd, r->m)\<close>\<close>
  | RdAwake                  \<comment> \<open>woken, before it has the mutex again\<close>
  | Reading
  | WrAsleep
  | WrAwake
  | Writing

record ('g, 'a) rw_sys =
  rw_mem :: "'a sync"
  rw_pc :: "'g \<Rightarrow> rw_pc"
  rdq :: "'g list"
  wrq :: "'g list"

text \<open>The effect of the broadcast to the readers and the signal to a writer.\<close>

definition wake_all :: "('g, 'a) rw_sys \<Rightarrow> ('g, 'a) rw_sys" where
  "wake_all s = s\<lparr>rw_pc := (\<lambda>a. if a \<in> set (rdq s) then RdAwake else rw_pc s a), rdq := []\<rparr>"

definition wake_one :: "('g, 'a) rw_sys \<Rightarrow> ('g, 'a) rw_sys" where
  "wake_one s = (case wrq s of [] \<Rightarrow> s | v # vs \<Rightarrow> s\<lparr>rw_pc := (rw_pc s)(v := WrAwake), wrq := vs\<rparr>)"

inductive rw_step :: "ptr \<Rightarrow> ('g, 'a) rw_sys \<Rightarrow> ('g, 'a) rw_sys \<Rightarrow> bool" for r where
  rd_wait: "rw_pc s a \<in> {RwOut, RdAwake} \<Longrightarrow> rd_blocked r (rw_mem s) \<Longrightarrow>
    rw_step r s (s\<lparr>rw_pc := (rw_pc s)(a := RdAsleep), rdq := rdq s @ [a]\<rparr>)"
| rd_enter: "rw_pc s a \<in> {RwOut, RdAwake} \<Longrightarrow> \<not> rd_blocked r (rw_mem s) \<Longrightarrow> rd_take r (rw_mem s) = Some h \<Longrightarrow>
    rw_step r s (s\<lparr>rw_mem := h, rw_pc := (rw_pc s)(a := Reading)\<rparr>)"
| wr_wait: "rw_pc s a \<in> {RwOut, WrAwake} \<Longrightarrow> wr_blocked r (rw_mem s) \<Longrightarrow>
    rw_step r s (s\<lparr>rw_pc := (rw_pc s)(a := WrAsleep), wrq := wrq s @ [a]\<rparr>)"
| wr_enter: "rw_pc s a \<in> {RwOut, WrAwake} \<Longrightarrow> \<not> wr_blocked r (rw_mem s) \<Longrightarrow>
    rw_step r s (s\<lparr>rw_mem := wr_take r (rw_mem s), rw_pc := (rw_pc s)(a := Writing)\<rparr>)"
| rw_leave: "rw_pc s a \<in> {Reading, Writing} \<Longrightarrow> rw_give r (rw_mem s) = Some (all, one, h) \<Longrightarrow>
    s1 = s\<lparr>rw_mem := h, rw_pc := (rw_pc s)(a := RwOut)\<rparr> \<Longrightarrow> s2 = (if all then wake_all s1 else s1) \<Longrightarrow>
    rw_step r s (if one then wake_one s2 else s2)"

definition rw_init :: "ptr \<Rightarrow> ('g, 'a) rw_sys \<Rightarrow> bool" where
  "rw_init r s \<longleftrightarrow> r_readers (rw_mem s) r = 0 \<and> \<not> r_writer (rw_mem s) r \<and> rw_pc s = (\<lambda>_. RwOut) \<and> rdq s = [] \<and> wrq s = []"

definition rw_inv :: "ptr \<Rightarrow> ('g, 'a) rw_sys \<Rightarrow> bool" where
  "rw_inv r s \<longleftrightarrow> finite {a. rw_pc s a = Reading} \<and> r_readers (rw_mem s) r = int (card {a. rw_pc s a = Reading}) \<and>
     (r_writer (rw_mem s) r \<longleftrightarrow> (\<exists>a. rw_pc s a = Writing)) \<and> (\<forall>a b. rw_pc s a = Writing \<longrightarrow> rw_pc s b = Writing \<longrightarrow> a = b) \<and>
     (r_writer (rw_mem s) r \<longrightarrow> (\<forall>a. rw_pc s a \<noteq> Reading)) \<and>
     set (rdq s) = {a. rw_pc s a = RdAsleep} \<and> distinct (rdq s) \<and> set (wrq s) = {a. rw_pc s a = WrAsleep} \<and> distinct (wrq s) \<and>
     (\<not> r_writer (rw_mem s) r \<longrightarrow> rdq s = []) \<and>
     (\<not> r_writer (rw_mem s) r \<and> r_readers (rw_mem s) r = 0 \<and> wrq s \<noteq> [] \<longrightarrow> (\<exists>a. rw_pc s a = WrAwake))"

lemma rw_inv_init: "rw_init r s \<Longrightarrow> rw_inv r s"
  by (simp add: rw_init_def rw_inv_def)

lemma rw_invD:
  assumes "rw_inv r s"
  shows "finite {a. rw_pc s a = Reading}" "r_readers (rw_mem s) r = int (card {a. rw_pc s a = Reading})"
    "r_writer (rw_mem s) r \<longleftrightarrow> (\<exists>a. rw_pc s a = Writing)" "rw_pc s a = Writing \<Longrightarrow> rw_pc s b = Writing \<Longrightarrow> a = b"
    "r_writer (rw_mem s) r \<Longrightarrow> rw_pc s a \<noteq> Reading"
    "set (rdq s) = {a. rw_pc s a = RdAsleep}" "distinct (rdq s)" "set (wrq s) = {a. rw_pc s a = WrAsleep}" "distinct (wrq s)"
    "\<not> r_writer (rw_mem s) r \<Longrightarrow> rdq s = []"
    "\<not> r_writer (rw_mem s) r \<Longrightarrow> r_readers (rw_mem s) r = 0 \<Longrightarrow> wrq s \<noteq> [] \<Longrightarrow> \<exists>a. rw_pc s a = WrAwake"
  using assms unfolding rw_inv_def by simp_all

lemma inv_rd_wait:
  assumes i: "rw_inv r s" and pc: "rw_pc s a \<in> {RwOut, RdAwake}" "rd_blocked r (rw_mem s)"
    and s': "s' = s\<lparr>rw_pc := (rw_pc s)(a := RdAsleep), rdq := rdq s @ [a]\<rparr>"
  shows "rw_inv r s'"
proof -
  note d = rw_invD [OF i]
  have p: "(rw_pc s' b = Reading) = (rw_pc s b = Reading)" "(rw_pc s' b = Writing) = (rw_pc s b = Writing)"
    "(rw_pc s' b = WrAsleep) = (rw_pc s b = WrAsleep)" "(rw_pc s' b = RdAsleep) = (rw_pc s b = RdAsleep \<or> b = a)" for b
    using pc(1) by (auto simp: s')
  have e: "rw_mem s' = rw_mem s" "rdq s' = rdq s @ [a]" "wrq s' = wrq s" "a \<notin> set (rdq s)" "r_writer (rw_mem s) r"
    using pc d(6) by (auto simp: s' rd_blocked_def)
  show ?thesis unfolding rw_inv_def p e(1-3) using d e(4,5) by simp blast
qed

lemma inv_rd_enter:
  assumes i: "rw_inv r s" and pc: "rw_pc s a \<in> {RwOut, RdAwake}" "\<not> rd_blocked r (rw_mem s)" and t: "rd_take r (rw_mem s) = Some h"
    and s': "s' = s\<lparr>rw_mem := h, rw_pc := (rw_pc s)(a := Reading)\<rparr>"
  shows "rw_inv r s'"
proof -
  note d = rw_invD [OF i]
  have h: "r_writer h = r_writer (rw_mem s)" "r_readers h r = r_readers (rw_mem s) r + 1" using t by (auto simp: rd_take_def split: if_splits)
  have p: "(rw_pc s' b = Reading) = (rw_pc s b = Reading \<or> b = a)" "(rw_pc s' b = Writing) = (rw_pc s b = Writing)"
    "(rw_pc s' b = WrAsleep) = (rw_pc s b = WrAsleep)" "(rw_pc s' b = RdAsleep) = (rw_pc s b = RdAsleep)" for b
    using pc(1) by (auto simp: s')
  have e: "rw_mem s' = h" "rdq s' = rdq s" "wrq s' = wrq s" "\<not> r_writer h r" using pc by (simp_all add: s' h rd_blocked_def)
  have c: "{b. rw_pc s b = Reading \<or> b = a} = insert a {b. rw_pc s b = Reading}" "a \<notin> {b. rw_pc s b = Reading}" using pc by auto
  show ?thesis unfolding rw_inv_def p e(1-3) c(1) using d e(4) h c(2) by simp
qed

lemma inv_wr_wait:
  assumes i: "rw_inv r s" and pc: "rw_pc s a \<in> {RwOut, WrAwake}" "wr_blocked r (rw_mem s)"
    and s': "s' = s\<lparr>rw_pc := (rw_pc s)(a := WrAsleep), wrq := wrq s @ [a]\<rparr>"
  shows "rw_inv r s'"
proof -
  note d = rw_invD [OF i]
  have p: "(rw_pc s' b = Reading) = (rw_pc s b = Reading)" "(rw_pc s' b = Writing) = (rw_pc s b = Writing)"
    "(rw_pc s' b = WrAsleep) = (rw_pc s b = WrAsleep \<or> b = a)" "(rw_pc s' b = RdAsleep) = (rw_pc s b = RdAsleep)" for b
    using pc(1) by (auto simp: s')
  have e: "rw_mem s' = rw_mem s" "rdq s' = rdq s" "wrq s' = wrq s @ [a]" "a \<notin> set (wrq s)" "r_writer (rw_mem s) r \<or> r_readers (rw_mem s) r \<noteq> 0"
    using pc d(8) by (auto simp: s' wr_blocked_def)
  show ?thesis unfolding rw_inv_def p e(1-3) using d e(4,5) by simp blast
qed

lemma inv_wr_enter:
  assumes i: "rw_inv r s" and pc: "rw_pc s a \<in> {RwOut, WrAwake}" "\<not> wr_blocked r (rw_mem s)"
    and s': "s' = s\<lparr>rw_mem := wr_take r (rw_mem s), rw_pc := (rw_pc s)(a := Writing)\<rparr>"
  shows "rw_inv r s'"
proof -
  note d = rw_invD [OF i]
  have n: "rw_pc s b \<noteq> Reading" "rw_pc s b \<noteq> Writing" "r_readers (rw_mem s) r = 0" for b using pc d(1-3) by (auto simp: wr_blocked_def)
  have p: "(rw_pc s' b = Reading) = False" "(rw_pc s' b = Writing) = (b = a)"
    "(rw_pc s' b = WrAsleep) = (rw_pc s b = WrAsleep)" "(rw_pc s' b = RdAsleep) = (rw_pc s b = RdAsleep)" for b
    using pc(1) n by (auto simp: s')
  have e: "r_writer (rw_mem s') r" "r_readers (rw_mem s') r = 0" "rdq s' = rdq s" "wrq s' = wrq s" using n by (simp_all add: s' wr_take_def)
  show ?thesis unfolding rw_inv_def p using d e by simp
qed

text \<open>Leaving, before the wake-ups: the lock may now be free, and then the queues are not yet right.\<close>

lemma leave_reader:
  assumes i: "rw_inv r s" and pc: "rw_pc s a = Reading"
  shows "\<exists>h. rw_give r (rw_mem s) = Some (False, r_readers h r = 0, h) \<and> \<not> r_writer h r \<and> \<not> r_writer (rw_mem s) r \<and>
    r_readers h r = int (card ({b. rw_pc s b = Reading} - {a}))"
proof -
  have n: "\<not> r_writer (rw_mem s) r" "finite {b. rw_pc s b = Reading}" "r_readers (rw_mem s) r = int (card {b. rw_pc s b = Reading})"
    using i pc by (auto simp: rw_inv_def)
  have "card {b. rw_pc s b = Reading} = Suc (card ({b. rw_pc s b = Reading} - {a}))"
    using n(2) pc by (intro card.remove) auto
  then show ?thesis using n by (simp add: rw_give_def INT_MIN_def Let_def)
qed

lemma leave_writer:
  assumes i: "rw_inv r s" and pc: "rw_pc s a = Writing"
  shows "\<exists>h. rw_give r (rw_mem s) = Some (True, True, h) \<and> \<not> r_writer h r \<and> r_readers h r = 0 \<and>
    (\<forall>b. rw_pc s b = Writing \<longleftrightarrow> b = a) \<and> (\<forall>b. rw_pc s b \<noteq> Reading)"
proof -
  have w: "r_writer (rw_mem s) r" using i pc by (auto simp: rw_inv_def)
  then have "\<forall>b. rw_pc s b = Writing \<longleftrightarrow> b = a" "\<forall>b. rw_pc s b \<noteq> Reading" "r_readers (rw_mem s) r = 0" using i pc by (auto simp: rw_inv_def)
  then show ?thesis using w by (simp add: rw_give_def)
qed

text \<open>A signal restores the last clause.\<close>

lemma wake_one_inv:
  assumes "finite {a. rw_pc s a = Reading}" "r_readers (rw_mem s) r = int (card {a. rw_pc s a = Reading})"
    "\<not> r_writer (rw_mem s) r" "\<forall>a. rw_pc s a \<noteq> Writing" "\<forall>a. rw_pc s a \<noteq> RdAsleep" "rdq s = []"
    "set (wrq s) = {a. rw_pc s a = WrAsleep}" "distinct (wrq s)"
  shows "rw_inv r (wake_one s)"
proof (cases "wrq s")
  case Nil
  then show ?thesis using assms by (simp add: wake_one_def rw_inv_def)
next
  case (Cons v vs)
  then have v: "rw_pc s v = WrAsleep" "v \<notin> set vs" "distinct vs" "set vs = {a. rw_pc s a = WrAsleep} - {v}" using assms(7,8) by auto
  let ?s = "wake_one s"
  have e: "rw_mem ?s = rw_mem s" "rdq ?s = []" "wrq ?s = vs" "rw_pc ?s = (rw_pc s)(v := WrAwake)" using assms(6) by (simp_all add: wake_one_def Cons)
  have p: "(rw_pc ?s b = Reading) = (rw_pc s b = Reading)" "(rw_pc ?s b = Writing) = False" "(rw_pc ?s b = RdAsleep) = False"
    "(rw_pc ?s b = WrAsleep) = (rw_pc s b = WrAsleep \<and> b \<noteq> v)" "rw_pc ?s v = WrAwake" for b
    using assms(4,5) v(1) by (auto simp: e(4))
  show ?thesis unfolding rw_inv_def p(1-4) e(1-3) using assms v(2-4) p(5) by simp blast
qed

lemma inv_leave:
  assumes i: "rw_inv r s" and pc: "rw_pc s a \<in> {Reading, Writing}" and g: "rw_give r (rw_mem s) = Some (all, one, h)"
    and s1: "s1 = s\<lparr>rw_mem := h, rw_pc := (rw_pc s)(a := RwOut)\<rparr>" and s2: "s2 = (if all then wake_all s1 else s1)"
  shows "rw_inv r (if one then wake_one s2 else s2)"
proof (cases "rw_pc s a = Reading")
  case True
  from leave_reader [OF i True] g have h: "all = False" "one = (r_readers h r = 0)" "\<not> r_writer h r" "\<not> r_writer (rw_mem s) r"
    "r_readers h r = int (card ({b. rw_pc s b = Reading} - {a}))" by auto
  have e: "{b. rw_pc s1 b = Reading} = {b. rw_pc s b = Reading} - {a}" "\<forall>b. rw_pc s1 b \<noteq> Writing" "\<forall>b. rw_pc s1 b \<noteq> RdAsleep"
    "rdq s1 = []" "set (wrq s1) = {b. rw_pc s1 b = WrAsleep}" "distinct (wrq s1)" "rw_mem s1 = h" "finite {b. rw_pc s b = Reading}"
    using i True h(4) by (auto simp: rw_inv_def s1)
  show ?thesis
  proof (cases one)
    case True
    have "rw_inv r (wake_one s1)" by (rule wake_one_inv; (unfold e(1,4,7))?) (use h e(2,3,5,6,8) in simp_all)
    then show ?thesis using True h(1) by (simp add: s2)
  next
    case False
    then show ?thesis using h e by (simp add: s2 rw_inv_def)
  qed
next
  case False
  then have w: "rw_pc s a = Writing" using pc by simp
  from leave_writer [OF i w] g have h: "all" "one" "\<not> r_writer h r" "r_readers h r = 0" "\<forall>b. rw_pc s b = Writing \<longleftrightarrow> b = a" "\<forall>b. rw_pc s b \<noteq> Reading" by auto
  have q: "set (rdq s) = {b. rw_pc s b = RdAsleep}" "set (wrq s) = {b. rw_pc s b = WrAsleep}" "distinct (wrq s)" using i by (auto simp: rw_inv_def)
  have e: "rw_mem s2 = h" "rdq s2 = []" "wrq s2 = wrq s" "rw_pc s2 b = (if b = a then RwOut else if rw_pc s b = RdAsleep then RdAwake else rw_pc s b)" for b
    using h(1) q(1) w by (simp_all add: s2 s1 wake_all_def)
  have b: "rw_pc s2 b \<noteq> Reading \<and> rw_pc s2 b \<noteq> Writing \<and> rw_pc s2 b \<noteq> RdAsleep \<and> (rw_pc s2 b = WrAsleep \<longleftrightarrow> rw_pc s b = WrAsleep)" for b
  proof (cases "b = a")
    case True
    then show ?thesis by (simp add: e(4) w)
  next
    case False
    then show ?thesis using h(5,6) by (simp add: e(4))
  qed
  have p: "{b. rw_pc s2 b = Reading} = {}" "\<forall>b. rw_pc s2 b \<noteq> Writing" "\<forall>b. rw_pc s2 b \<noteq> RdAsleep" "{b. rw_pc s2 b = WrAsleep} = {b. rw_pc s b = WrAsleep}"
    using b by blast+
  have "rw_inv r (wake_one s2)" by (rule wake_one_inv; (unfold p e(1-3))?) (use h(3,4) p(2,3) q in simp_all)
  then show ?thesis using h(2) by simp
qed

lemma rw_inv_step:
  assumes i: "rw_inv r s" and "rw_step r s s'"
  shows "rw_inv r s'"
  using assms(2)
proof cases
  case (rd_wait a)
  then show ?thesis using inv_rd_wait [OF i] by blast
next
  case (rd_enter a h)
  then show ?thesis using inv_rd_enter [OF i] by blast
next
  case (wr_wait a)
  then show ?thesis using inv_wr_wait [OF i] by blast
next
  case (wr_enter a)
  then show ?thesis using inv_wr_enter [OF i] by blast
next
  case (rw_leave a all one h s1 s2)
  then show ?thesis using inv_leave [OF i] by blast
qed

interpretation rwlocks: transition_system "rw_init r" "rw_step r" "rw_inv r" for r
  by unfold_locales (fact rw_inv_init, fact rw_inv_step)

text \<open>
  C10. Under every interleaving a writer is alone, the reader count is the number of threads that read, and
  nobody sleeps without reason: a reader sleeps only while a writer holds the lock, and while a writer
  sleeps the lock is held or another writer has been woken and is about to try again.
\<close>

theorem rwlock_excludes:
  assumes "reach (rw_init r) (rw_step r) s"
  shows "(\<forall>a b. rw_pc s a = Writing \<longrightarrow> (rw_pc s b = Writing \<longrightarrow> b = a) \<and> rw_pc s b \<noteq> Reading) \<and>
    r_readers (rw_mem s) r = int (card {a. rw_pc s a = Reading}) \<and> (r_writer (rw_mem s) r \<longleftrightarrow> (\<exists>a. rw_pc s a = Writing)) \<and>
    (\<forall>a. rw_pc s a = RdAsleep \<longrightarrow> (\<exists>b. rw_pc s b = Writing)) \<and>
    (\<forall>a. rw_pc s a = WrAsleep \<longrightarrow> (\<exists>b. rw_pc s b = Writing \<or> rw_pc s b = Reading \<or> rw_pc s b = WrAwake))"
proof (intro conjI allI impI)
  note d = rw_invD [OF rwlocks.reach_inv [OF assms]]
  fix a b assume a: "rw_pc s a = Writing"
  show "rw_pc s b \<noteq> Reading" using d(3,5) a by blast
  show "b = a" if "rw_pc s b = Writing" using d(4) a that by blast
next
  note d = rw_invD [OF rwlocks.reach_inv [OF assms]]
  show "r_readers (rw_mem s) r = int (card {a. rw_pc s a = Reading})" "r_writer (rw_mem s) r \<longleftrightarrow> (\<exists>a. rw_pc s a = Writing)" by (fact d(2), fact d(3))
  show "\<exists>b. rw_pc s b = Writing" if "rw_pc s a = RdAsleep" for a
  proof -
    have "rdq s \<noteq> []" using d(6) that by auto
    then show ?thesis using d(3,10) by blast
  qed
  show "\<exists>b. rw_pc s b = Writing \<or> rw_pc s b = Reading \<or> rw_pc s b = WrAwake" if "rw_pc s a = WrAsleep" for a
  proof -
    have "wrq s \<noteq> []" using d(8) that by auto
    then show ?thesis using d(2,3,11) by (cases "{b. rw_pc s b = Reading} = {}") auto
  qed
qed

text \<open>One agent writes, the other one wants to read.\<close>

theorem rwlock_excludes_witness:
  "\<exists>s :: (bool, unit) rw_sys. reach (rw_init 4608) (rw_step 4608) s \<and> rw_pc s = (\<lambda>b. if b then Writing else RdAsleep) \<and>
     (\<exists>b. rw_pc s b = Writing) \<and> r_writer (rw_mem s) 4608 \<and> r_readers (rw_mem s) 4608 = int (card {a. rw_pc s a = Reading})"
proof -
  define s0 :: "(bool, unit) rw_sys" where "s0 = \<lparr>rw_mem = zero_sync (abt_of heap0), rw_pc = (\<lambda>_. RwOut), rdq = [], wrq = []\<rparr>"
  have z: "\<not> r_writer (rw_mem s0) 4608" "r_readers (rw_mem s0) 4608 = 0" "rw_pc s0 = (\<lambda>_. RwOut)" by (simp_all add: s0_def zero_sync_defs)
  have r0: "reach (rw_init 4608) (rw_step 4608) s0" by (rule reach_init) (simp add: rw_init_def s0_def zero_sync_defs)
  define s1 where "s1 = s0\<lparr>rw_mem := wr_take 4608 (rw_mem s0), rw_pc := (rw_pc s0)(True := Writing)\<rparr>"
  have r1: "reach (rw_init 4608) (rw_step 4608) s1"
    unfolding s1_def by (rule reach_step [OF r0 rw_step.wr_enter]) (simp_all add: z wr_blocked_def)
  define s2 where "s2 = s1\<lparr>rw_pc := (rw_pc s1)(False := RdAsleep), rdq := rdq s1 @ [False]\<rparr>"
  have r2: "reach (rw_init 4608) (rw_step 4608) s2"
    unfolding s2_def by (rule reach_step [OF r1 rw_step.rd_wait]) (simp_all add: s1_def z rd_blocked_def wr_take_def)
  have pc: "rw_pc s2 = (\<lambda>b. if b then Writing else RdAsleep)" by (auto simp: s2_def s1_def z)
  note c = rwlock_excludes [OF r2, THEN conjunct2]
  note x = c [THEN conjunct1] c [THEN conjunct2, THEN conjunct1]
  have "\<exists>b. rw_pc s2 b = Writing" by (rule exI [of _ True]) (simp add: pc)
  with r2 pc x show ?thesis by (intro exI [of _ s2] conjI) simp_all
qed


subsection \<open>Barriers\<close>

text \<open>
  \<open>arrivals\<close> and \<open>round\<close> are not in the code: how often \<^verbatim>\<open>ABT_barrier_wait\<close> was called so far, and for each agent
  in which round (from 0) it arrived last.
\<close>

datatype bar_pc =
    BarOut
  | BarAsleep "64 word"      \<comment> \<open>in \<^verbatim>\<open>ABT_cond_wait\<close>, with the generation it waits to see the end of\<close>
  | BarAwake "64 word"

record ('g, 'a) bar_sys =
  bar_mem :: "'a sync"
  bar_pc :: "'g \<Rightarrow> bar_pc"
  arrivals :: nat
  round :: "'g \<Rightarrow> nat"

definition bar_size :: "ptr \<Rightarrow> 'a sync \<Rightarrow> nat" where
  "bar_size b h = max 1 (unat (b_num h b))"

primrec bar_woken :: "bar_pc \<Rightarrow> bar_pc" where
  "bar_woken BarOut = BarOut"
| "bar_woken (BarAsleep g) = BarAwake g"
| "bar_woken (BarAwake g) = BarAwake g"

definition bar_count :: "ptr \<Rightarrow> 'g \<Rightarrow> ('g, 'a) bar_sys \<Rightarrow> ('g, 'a) bar_sys" where
  "bar_count b a s = s\<lparr>arrivals := arrivals s + 1, round := (round s)(a := arrivals s div bar_size b (bar_mem s))\<rparr>"

inductive bar_step :: "ptr \<Rightarrow> ('g, 'a) bar_sys \<Rightarrow> ('g, 'a) bar_sys \<Rightarrow> bool" for b where
  bar_last: "bar_pc s a = BarOut \<Longrightarrow> barrier_arrive b (bar_mem s) = (True, h) \<Longrightarrow>
    bar_step b s ((bar_count b a s)\<lparr>bar_mem := h, bar_pc := bar_woken \<circ> bar_pc s\<rparr>)"
| bar_wait: "bar_pc s a = BarOut \<Longrightarrow> barrier_arrive b (bar_mem s) = (False, h) \<Longrightarrow>
    bar_step b s ((bar_count b a s)\<lparr>bar_mem := h, bar_pc := (bar_pc s)(a := BarAsleep (b_generation (bar_mem s) b))\<rparr>)"
| bar_again: "bar_pc s a = BarAwake g \<Longrightarrow> g = b_generation (bar_mem s) b \<Longrightarrow>
    bar_step b s (s\<lparr>bar_pc := (bar_pc s)(a := BarAsleep g)\<rparr>)"
| bar_leave: "bar_pc s a = BarAwake g \<Longrightarrow> g \<noteq> b_generation (bar_mem s) b \<Longrightarrow>
    bar_step b s (s\<lparr>bar_pc := (bar_pc s)(a := BarOut)\<rparr>)"

definition bar_init :: "ptr \<Rightarrow> ('g, 'a) bar_sys \<Rightarrow> bool" where
  "bar_init b s \<longleftrightarrow> b_waiting (bar_mem s) b = 0 \<and> b_generation (bar_mem s) b = 0 \<and> bar_pc s = (\<lambda>_. BarOut) \<and> arrivals s = 0"

definition bar_inv :: "ptr \<Rightarrow> ('g, 'a) bar_sys \<Rightarrow> bool" where
  "bar_inv b s \<longleftrightarrow> (let n = bar_size b (bar_mem s); k = arrivals s in
     unat (b_waiting (bar_mem s) b) = k mod n \<and> b_generation (bar_mem s) b = of_nat (k div n) \<and>
     (\<forall>a g. bar_pc s a = BarAsleep g \<or> bar_pc s a = BarAwake g \<longrightarrow> g = of_nat (round s a)) \<and>
     (k div n < 2 ^ 64 \<longrightarrow> (\<forall>a g. bar_pc s a = BarAsleep g \<longrightarrow> round s a = k div n) \<and> (\<forall>a g. bar_pc s a = BarAwake g \<longrightarrow> round s a < k div n) \<and>
        finite {a. \<exists>g. bar_pc s a = BarAsleep g} \<and> card {a. \<exists>g. bar_pc s a = BarAsleep g} = k mod n))"

lemma bar_inv_init: "bar_init b s \<Longrightarrow> bar_inv b s"
  by (simp add: bar_init_def bar_inv_def bar_size_def)

text \<open>Arithmetic of an arrival: the 32-bit counter does not wrap around.\<close>

lemma div_mod_Suc:
  assumes "0 < (n :: nat)"
  shows "Suc k div n = (if Suc (k mod n) = n then Suc (k div n) else k div n)" "Suc k mod n = (if Suc (k mod n) = n then 0 else Suc (k mod n))"
  by (simp_all add: div_Suc mod_Suc)

lemma arrive_cases:
  assumes i: "bar_inv b s" and n: "n = bar_size b (bar_mem s)" and g: "barrier_arrive b (bar_mem s) = (l, h)"
  shows "bar_size b h = n" "0 < n" "l \<longleftrightarrow> Suc (arrivals s mod n) = n"
    "unat (b_waiting h b) = Suc (arrivals s) mod n" "b_generation h b = of_nat (Suc (arrivals s) div n)"
proof -
  let ?w = "b_waiting (bar_mem s) b" and ?m = "b_num (bar_mem s) b"
  have w: "unat ?w = arrivals s mod n" "b_generation (bar_mem s) b = of_nat (arrivals s div n)" using i by (simp_all add: bar_inv_def Let_def n)
  show p: "0 < n" by (simp add: n bar_size_def)
  have lt: "unat ?w < n" using w p by simp
  have m: "unat ?m < 2 ^ 32" "n = max 1 (unat ?m)" using unsigned_less [of ?m] by (simp_all add: n bar_size_def)
  have u: "unat (?w + 1) = Suc (unat ?w)" using lt m by (simp add: unat_word_ariths)
  have l: "?m \<le> ?w + 1 \<longleftrightarrow> Suc (arrivals s mod n) = n" 
  proof -
    have "unat ?m \<le> Suc (unat ?w) \<longleftrightarrow> Suc (unat ?w) = n" using lt m(2) by linarith
    then show ?thesis by (simp add: word_le_nat_alt u w(1))
  qed
  show "bar_size b h = n" using g by (auto simp: barrier_arrive_def Let_def bar_size_def n split: if_splits)
  show "l \<longleftrightarrow> Suc (arrivals s mod n) = n" using g l by (auto simp: barrier_arrive_def Let_def split: if_splits)
  show "unat (b_waiting h b) = Suc (arrivals s) mod n" "b_generation h b = of_nat (Suc (arrivals s) div n)"
    using g l u w by (auto simp: barrier_arrive_def Let_def div_mod_Suc [OF p] split: if_splits)
qed

lemma bar_invD:
  assumes "bar_inv b s" "n = bar_size b (bar_mem s)"
  shows "unat (b_waiting (bar_mem s) b) = arrivals s mod n" "b_generation (bar_mem s) b = of_nat (arrivals s div n)"
    "bar_pc s a = BarAsleep g \<or> bar_pc s a = BarAwake g \<Longrightarrow> g = of_nat (round s a)"
    "arrivals s div n < 2 ^ 64 \<Longrightarrow> bar_pc s a = BarAsleep g \<Longrightarrow> round s a = arrivals s div n"
    "arrivals s div n < 2 ^ 64 \<Longrightarrow> bar_pc s a = BarAwake g \<Longrightarrow> round s a < arrivals s div n"
    "arrivals s div n < 2 ^ 64 \<Longrightarrow> finite {a. \<exists>g. bar_pc s a = BarAsleep g} \<and> card {a. \<exists>g. bar_pc s a = BarAsleep g} = arrivals s mod n"
  using assms by (auto simp: bar_inv_def Let_def)

lemma bar_invI:
  assumes "n = bar_size b (bar_mem s)"
    "unat (b_waiting (bar_mem s) b) = arrivals s mod n" "b_generation (bar_mem s) b = of_nat (arrivals s div n)"
    "\<And>a g. bar_pc s a = BarAsleep g \<or> bar_pc s a = BarAwake g \<Longrightarrow> g = of_nat (round s a)"
    "\<And>a g. arrivals s div n < 2 ^ 64 \<Longrightarrow> bar_pc s a = BarAsleep g \<Longrightarrow> round s a = arrivals s div n"
    "\<And>a g. arrivals s div n < 2 ^ 64 \<Longrightarrow> bar_pc s a = BarAwake g \<Longrightarrow> round s a < arrivals s div n"
    "arrivals s div n < 2 ^ 64 \<Longrightarrow> finite {a. \<exists>g. bar_pc s a = BarAsleep g} \<and> card {a. \<exists>g. bar_pc s a = BarAsleep g} = arrivals s mod n"
  shows "bar_inv b s"
  unfolding bar_inv_def Let_def assms(1) [symmetric] by (intro conjI impI allI; use assms(2-) in blast)

lemma inv_bar_last:
  assumes i: "bar_inv b s" and pc: "bar_pc s a = BarOut" and g: "barrier_arrive b (bar_mem s) = (True, h)"
    and s': "s' = (bar_count b a s)\<lparr>bar_mem := h, bar_pc := bar_woken \<circ> bar_pc s\<rparr>"
  shows "bar_inv b s'"
proof -
  define n where "n = bar_size b (bar_mem s)"
  note c = arrive_cases [OF i n_def g] and d = bar_invD [OF i n_def]
  have k: "Suc (arrivals s) div n = Suc (arrivals s div n)" "Suc (arrivals s) mod n = 0" using c(2,3) by (simp_all add: div_mod_Suc)
  have e: "bar_mem s' = h" "arrivals s' = Suc (arrivals s)" "round s' = (round s)(a := arrivals s div n)" by (simp_all add: s' bar_count_def n_def)
  have p: "bar_pc s' c \<noteq> BarAsleep x" "bar_pc s' c = BarAwake x \<Longrightarrow> c \<noteq> a \<and> (bar_pc s c = BarAsleep x \<or> bar_pc s c = BarAwake x)" for c x
    using pc by (cases "bar_pc s c"; auto simp: s')+
  show ?thesis
  proof (rule bar_invI [of n], unfold e k)
    fix c x assume "bar_pc s' c = BarAsleep x \<or> bar_pc s' c = BarAwake x"
    then show "x = of_nat (((round s)(a := arrivals s div n)) c)" using p [of c x] d(3) [of c x] by auto
  next
    fix c x assume "Suc (arrivals s div n) < 2 ^ 64" "bar_pc s' c = BarAwake x"
    then show "((round s)(a := arrivals s div n)) c < Suc (arrivals s div n)" using p(2) [of c x] d(4,5) [of c x] by auto
  qed (use c p k in \<open>auto simp: n_def\<close>)
qed

lemma inv_bar_wait:
  assumes i: "bar_inv b s" and pc: "bar_pc s a = BarOut" and g: "barrier_arrive b (bar_mem s) = (False, h)"
    and s': "s' = (bar_count b a s)\<lparr>bar_mem := h, bar_pc := (bar_pc s)(a := BarAsleep (b_generation (bar_mem s) b))\<rparr>"
  shows "bar_inv b s'"
proof -
  define n where "n = bar_size b (bar_mem s)"
  note c = arrive_cases [OF i n_def g] and d = bar_invD [OF i n_def]
  have k: "Suc (arrivals s) div n = arrivals s div n" "Suc (arrivals s) mod n = Suc (arrivals s mod n)" using c(2,3) by (simp_all add: div_mod_Suc)
  have e: "bar_mem s' = h" "arrivals s' = Suc (arrivals s)" "round s' = (round s)(a := arrivals s div n)"
    "bar_pc s' = (bar_pc s)(a := BarAsleep (of_nat (arrivals s div n)))" by (simp_all add: s' bar_count_def n_def d(2) [unfolded n_def])
  have A: "{c. \<exists>x. bar_pc s' c = BarAsleep x} = insert a {c. \<exists>x. bar_pc s c = BarAsleep x}" "a \<notin> {c. \<exists>x. bar_pc s c = BarAsleep x}"
    using pc by (auto simp: e(4))
  show ?thesis
  proof (rule bar_invI [of n], unfold A(1), unfold e(1-3) k)
    show "x = of_nat (((round s)(a := arrivals s div n)) c)" if "bar_pc s' c = BarAsleep x \<or> bar_pc s' c = BarAwake x" for c x
      using that d(3) [of c x] by (auto simp: e(4) split: if_splits)
    show "((round s)(a := arrivals s div n)) c = arrivals s div n" if "arrivals s div n < 2 ^ 64" "bar_pc s' c = BarAsleep x" for c x
      using that d(4) [of c x] by (auto simp: e(4) split: if_splits)
    show "((round s)(a := arrivals s div n)) c < arrivals s div n" if "arrivals s div n < 2 ^ 64" "bar_pc s' c = BarAwake x" for c x
      using that d(5) [of c x] by (auto simp: e(4) split: if_splits)
    show "finite (insert a {c. \<exists>x. bar_pc s c = BarAsleep x}) \<and> card (insert a {c. \<exists>x. bar_pc s c = BarAsleep x}) = Suc (arrivals s mod n)"
      if "arrivals s div n < 2 ^ 64" using d(6) [OF that] A(2) by simp
  qed (use c k in \<open>simp_all\<close>)
qed

text \<open>A woken thread never goes back to sleep while the generations do not repeat.\<close>

lemma round_over:
  assumes "i < j" "j < 2 ^ 64"
  shows "(of_nat i :: 64 word) \<noteq> of_nat j"
proof
  assume "(of_nat i :: 64 word) = of_nat j"
  then have "unat (of_nat i :: 64 word) = unat (of_nat j :: 64 word)" by simp
  then show False using assms by (simp add: unat_of_nat)
qed

lemma inv_bar_again:
  assumes i: "bar_inv b s" and pc: "bar_pc s a = BarAwake g" "g = b_generation (bar_mem s) b"
    and s': "s' = s\<lparr>bar_pc := (bar_pc s)(a := BarAsleep g)\<rparr>"
  shows "bar_inv b s'"
proof -
  define n where "n = bar_size b (bar_mem s)"
  note d = bar_invD [OF i n_def]
  have big: "\<not> arrivals s div n < 2 ^ 64"
  proof
    assume l: "arrivals s div n < 2 ^ 64"
    from round_over [OF d(5) [OF l pc(1)] l] show False using d(2) d(3) [of a g] pc by simp
  qed
  have e: "bar_mem s' = bar_mem s" "arrivals s' = arrivals s" "round s' = round s" by (simp_all add: s')
  show ?thesis
  proof (rule bar_invI [of n], unfold e)
    show "x = of_nat (round s c)" if "bar_pc s' c = BarAsleep x \<or> bar_pc s' c = BarAwake x" for c x
      using that d(3) [of c x] pc(1) by (auto simp: s' split: if_splits)
  qed (use big d(1,2) n_def in simp_all)
qed

lemma inv_bar_leave:
  assumes i: "bar_inv b s" and pc: "bar_pc s a = BarAwake g" and s': "s' = s\<lparr>bar_pc := (bar_pc s)(a := BarOut)\<rparr>"
  shows "bar_inv b s'"
proof -
  define n where "n = bar_size b (bar_mem s)"
  note d = bar_invD [OF i n_def]
  have e: "bar_mem s' = bar_mem s" "arrivals s' = arrivals s" "round s' = round s" by (simp_all add: s')
  have p: "(bar_pc s' c = BarAsleep x) = (bar_pc s c = BarAsleep x)" "bar_pc s' c = BarAwake x \<Longrightarrow> bar_pc s c = BarAwake x" for c x
    using pc by (auto simp: s' split: if_splits)
  show ?thesis
  proof (rule bar_invI [of n], unfold e p(1))
    show "x = of_nat (round s c)" if "bar_pc s c = BarAsleep x \<or> bar_pc s' c = BarAwake x" for c x using that d(3) [of c x] p(2) by blast
    show "round s c < arrivals s div n" if "arrivals s div n < 2 ^ 64" "bar_pc s' c = BarAwake x" for c x using d(5) [OF that(1) p(2) [OF that(2)]] .
  qed (use d n_def in blast)+
qed

lemma bar_inv_step:
  assumes i: "bar_inv b s" and "bar_step b s s'"
  shows "bar_inv b s'"
  using assms(2)
proof cases
  case (bar_last a h)
  then show ?thesis using inv_bar_last [OF i] by blast
next
  case (bar_wait a h)
  then show ?thesis using inv_bar_wait [OF i] by blast
next
  case (bar_again a g)
  then show ?thesis using inv_bar_again [OF i] by blast
next
  case (bar_leave a g)
  then show ?thesis using inv_bar_leave [OF i] by blast
qed

interpretation barriers: transition_system "bar_init b" "bar_step b" "bar_inv b" for b
  by unfold_locales (fact bar_inv_init, fact bar_inv_step)

text \<open>
  C11. A barrier of \<open>n\<close> threads works in rounds of exactly \<open>n\<close> arrivals.  As long as fewer than \<open>2 ^ 64\<close> rounds
  were completed, so that the 64-bit generation does not repeat: the threads that sleep are those that arrived in the
  current round, \<open>k mod n\<close> of them after \<open>k\<close> arrivals, so none is left behind when a round is complete; a
  thread is woken only after all \<open>n\<close> arrivals of its round, and once woken it finds the generation changed and
  leaves, it never goes back to sleep.  The 32-bit counter of waiting threads does not wrap around.
\<close>

theorem barrier_rounds:
  assumes "reach (bar_init b) (bar_step b) s" "n = bar_size b (bar_mem s)" "arrivals s div n < 2 ^ 64"
  shows "unat (b_waiting (bar_mem s) b) = arrivals s mod n \<and> b_generation (bar_mem s) b = of_nat (arrivals s div n) \<and>
    card {a. \<exists>g. bar_pc s a = BarAsleep g} = arrivals s mod n \<and>
    (\<forall>a g. bar_pc s a = BarAsleep g \<longrightarrow> round s a = arrivals s div n) \<and>
    (\<forall>a g. bar_pc s a = BarAwake g \<longrightarrow> (round s a + 1) * n \<le> arrivals s \<and> g \<noteq> b_generation (bar_mem s) b)"
proof -
  note d = bar_invD [OF barriers.reach_inv [OF assms(1)] assms(2)]
  have "(round s a + 1) * n \<le> arrivals s \<and> g \<noteq> b_generation (bar_mem s) b" if a: "bar_pc s a = BarAwake g" for a g
  proof
    note r = d(5) [OF assms(3) a]
    have "(round s a + 1) * n \<le> (arrivals s div n) * n" using r by (intro mult_le_mono1) simp
    then show "(round s a + 1) * n \<le> arrivals s" using div_times_less_eq_dividend [of "arrivals s" n] by linarith
    show "g \<noteq> b_generation (bar_mem s) b" using round_over [OF r assms(3)] d(2) d(3) [of a g] a by simp
  qed
  then show ?thesis using d(1,2,4,6) assms(3) by blast
qed

text \<open>Two threads meet at a barrier of two: the first one sleeps, the second one wakes it.\<close>

theorem barrier_rounds_witness:
  "\<exists>s :: (bool, unit) bar_sys. reach (bar_init 4608) (bar_step 4608) s \<and> arrivals s = 2 \<and> bar_pc s False = BarAwake 0 \<and>
     2 \<le> arrivals s \<and> 0 \<noteq> b_generation (bar_mem s) 4608 \<and> card {a. \<exists>g. bar_pc s a = BarAsleep g} = 0"
proof -
  define s0 :: "(bool, unit) bar_sys" where
    "s0 = \<lparr>bar_mem = (zero_sync (abt_of heap0))\<lparr>b_num := (\<lambda>_. 2)\<rparr>, bar_pc = (\<lambda>_. BarOut), arrivals = 0, round = (\<lambda>_. 0)\<rparr>"
  have z: "b_waiting (bar_mem s0) = (\<lambda>_. 0)" "b_generation (bar_mem s0) = (\<lambda>_. 0)" "b_num (bar_mem s0) = (\<lambda>_. 2)" "bar_pc s0 = (\<lambda>_. BarOut)" "arrivals s0 = 0"
    by (simp_all add: s0_def zero_sync_defs)
  have r0: "reach (bar_init 4608) (bar_step 4608) s0" by (rule reach_init) (simp add: bar_init_def z)
  obtain h1 where h1: "barrier_arrive 4608 (bar_mem s0) = (False, h1)" "b_waiting h1 4608 = 1" "b_num h1 = (\<lambda>_. 2)" "b_generation h1 4608 = 0"
    by (simp add: barrier_arrive_def z word_le_nat_alt)
  define s1 where "s1 = (bar_count 4608 False s0)\<lparr>bar_mem := h1, bar_pc := (bar_pc s0)(False := BarAsleep (b_generation (bar_mem s0) 4608))\<rparr>"
  have r1: "reach (bar_init 4608) (bar_step 4608) s1" unfolding s1_def by (rule reach_step [OF r0 bar_step.bar_wait]) (simp_all add: z h1)
  have e1: "bar_mem s1 = h1" "arrivals s1 = 1" "bar_pc s1 = (\<lambda>_. BarOut)(False := BarAsleep 0)" by (simp_all add: s1_def bar_count_def z)
  obtain h2 where h2: "barrier_arrive 4608 (bar_mem s1) = (True, h2)" "b_num h2 = (\<lambda>_. 2)"
    by (simp add: barrier_arrive_def h1 e1)
  define s2 where "s2 = (bar_count 4608 True s1)\<lparr>bar_mem := h2, bar_pc := bar_woken \<circ> bar_pc s1\<rparr>"
  have r2: "reach (bar_init 4608) (bar_step 4608) s2" unfolding s2_def by (rule reach_step [OF r1 bar_step.bar_last [OF _ h2(1)]]) (simp add: e1)
  have e2: "bar_mem s2 = h2" "arrivals s2 = 2" "bar_pc s2 False = BarAwake 0" by (simp_all add: s2_def bar_count_def e1)
  have n: "2 = bar_size 4608 (bar_mem s2)" by (simp add: bar_size_def e2 h2)
  have k: "arrivals s2 div 2 < 2 ^ 64" by (simp add: e2)
  note x = barrier_rounds [OF r2 n k]
  have "card {a. \<exists>g. bar_pc s2 a = BarAsleep g} = 0" using x [THEN conjunct2, THEN conjunct2, THEN conjunct1] by (simp add: e2)
  moreover have "0 \<noteq> b_generation (bar_mem s2) 4608" using x [THEN conjunct2, THEN conjunct2, THEN conjunct2, THEN conjunct2] e2(3) by blast
  ultimately show ?thesis using r2 e2 by (intro exI [of _ s2]) simp
qed

end
