(* ===== verification/Eventual.thy ===== *)
theory Eventual
  imports Mutex
begin

section \<open>Eventuals\<close>

text \<open>
  The eventual of \<^verbatim>\<open>src/src/sync.cpp\<close>: a value that is set once and awaited by any number of threads.  \<open>buffer\<close>
  holds the bytes at an address, of the eventual's own buffer as well as of the caller's memory.  \<open>w\<close> is the
  caller's waiter record.  \<open>None\<close>: the wait does not end, or \<^verbatim>\<open>memcpy\<close> would leave a buffer.
\<close>

definition memcpy :: "ptr \<Rightarrow> ptr \<Rightarrow> nat \<Rightarrow> 'a sync \<Rightarrow> 'a sync option" where
  "memcpy dst src n h =
     (if length (buffer h src) < n \<or> length (buffer h dst) < n then None
      else Some (h\<lparr>buffer := (buffer h)(dst := take n (buffer h src) @ drop n (buffer h dst))\<rparr>))"

definition ABT_eventual_create :: "ptr \<Rightarrow> ptr \<Rightarrow> int \<Rightarrow> 'a sync \<Rightarrow> (ptr, 'a sync) api" where
  "ABT_eventual_create e v nbytes h =
     (if nbytes < 0 then (Inl ABT_ERR_INV_ARG, h)
      else (Inr e, h\<lparr>live := insert e (live h), slock := (slock h)(e := False), e_ready := (e_ready h)(e := False),
             e_nbytes := (e_nbytes h)(e := nbytes), e_value := (e_value h)(e := if nbytes > 0 then v else nullptr),
             buffer := (if nbytes > 0 then (buffer h)(v := replicate (nat nbytes) 0) else buffer h),
             wl_head := (wl_head h)(e := nullptr), wl_tail := (wl_tail h)(e := nullptr)\<rparr>))"

definition ABT_eventual_free :: "ptr \<Rightarrow> 'a sync \<Rightarrow> (unit, 'a sync) api option" where
  "ABT_eventual_free eventual h = with_obj ABT_ERR_INV_EVENTUAL eventual (\<lambda>e.
     Some (Inr (), h\<lparr>buffer := (buffer h)(e_value h e := []), live := live h - {e}\<rparr>)) h"

definition ABT_eventual_wait :: "'a sync_env \<Rightarrow> ptr \<Rightarrow> ptr \<Rightarrow> 'a sync \<Rightarrow> (ptr, 'a sync) api option" where
  "ABT_eventual_wait E w eventual h = with_obj ABT_ERR_INV_EVENTUAL eventual (\<lambda>e.
     let self = ABTI_self_thread E h
     in do { h1 \<leftarrow> spin_acquire E e h;
             h2 \<leftarrow> (if \<not> e_ready h1 e then wait_on E w e self (wl_push e w (waiter_init w self h1))
                   else Some (spin_release e h1));
             Some (Inr (e_value h2 e), h2) }) h"

definition ABT_eventual_timedwait :: "'a sync_env \<Rightarrow> ('a sync \<Rightarrow> time) \<Rightarrow> int \<times> int \<Rightarrow> ptr \<Rightarrow> ptr \<Rightarrow> int \<times> int \<Rightarrow> 'a sync \<Rightarrow>
    (ptr, 'a sync) api option" where
  "ABT_eventual_timedwait E now rt_now w eventual abstime h = with_obj ABT_ERR_INV_EVENTUAL eventual (\<lambda>e.
     let self = ABTI_self_thread E h; deadline = realtime_to_wall (now h) rt_now abstime
     in do { h1 \<leftarrow> spin_acquire E e h;
             if \<not> e_ready h1 e
             then do { (signaled, h2) \<leftarrow> wait_on_timed E now w e self deadline (wl_push e w (waiter_init w self h1));
                       Some (if signaled then Inr (e_value h2 e) else Inl ABT_ERR_COND_TIMEDOUT, h2) }
             else let h2 = spin_release e h1 in Some (Inr (e_value h2 e), h2) }) h"

definition ABT_eventual_test :: "'a sync_env \<Rightarrow> ptr \<Rightarrow> 'a sync \<Rightarrow> (bool \<times> ptr, 'a sync) api option" where
  "ABT_eventual_test E eventual h = with_obj ABT_ERR_INV_EVENTUAL eventual (\<lambda>e.
     do { h1 \<leftarrow> spin_acquire E e h;
          let r = e_ready h1 e; h2 = spin_release e h1
          in Some (Inr (r, if r then e_value h2 e else nullptr), h2) }) h"

definition ABT_eventual_set :: "'a sync_env \<Rightarrow> ptr \<Rightarrow> ptr \<Rightarrow> int \<Rightarrow> 'a sync \<Rightarrow> (unit, 'a sync) api option" where
  "ABT_eventual_set E eventual val nbytes h = with_obj ABT_ERR_INV_EVENTUAL eventual (\<lambda>e.
     do { h1 \<leftarrow> spin_acquire E e h;
          if e_ready h1 e then Some (Inl ABT_ERR_EVENTUAL, spin_release e h1)
          else if nbytes > e_nbytes h1 e then Some (Inl ABT_ERR_INV_EVENTUAL, spin_release e h1)
          else do { h2 \<leftarrow> (if nbytes > 0 \<and> val \<noteq> nullptr then memcpy (e_value h1 e) val (nat nbytes) h1 else Some h1);
                    let (list, h3) = wl_take e (h2\<lparr>e_ready := (e_ready h2)(e := True)\<rparr>);
                    h4 \<leftarrow> wake_list E list (spin_release e h3);
                    Some (Inr (), h4) } }) h"

definition ABT_eventual_reset :: "'a sync_env \<Rightarrow> ptr \<Rightarrow> 'a sync \<Rightarrow> (unit, 'a sync) api option" where
  "ABT_eventual_reset E eventual h = with_obj ABT_ERR_INV_EVENTUAL eventual (\<lambda>e.
     do { h1 \<leftarrow> spin_acquire E e h;
          Some (Inr (), spin_release e (h1\<lparr>e_ready := (e_ready h1)(e := False)\<rparr>)) }) h"


subsection \<open>Waking a list of waiters\<close>

text \<open>A function of the extension of the state: waking a thread does not touch synchronisation objects.\<close>

lemma sync_more:
  assumes "abt_heap.more h' = abt_heap.more (h :: 'a sync)"
  shows "w_thread h' = w_thread h" "w_signaled h' = w_signaled h" "w_next h' = w_next h" "slock h' = slock h" "wl_head h' = wl_head h"
    "wl_tail h' = wl_tail h" "e_ready h' = e_ready h" "e_nbytes h' = e_nbytes h" "e_value h' = e_value h" "buffer h' = buffer h"
    "m_locked h' = m_locked h" "m_owner h' = m_owner h" "m_nesting h' = m_nesting h" "m_attrs h' = m_attrs h" "c_mutex h' = c_mutex h"
    "f_m h' = f_m h" "f_c h' = f_c h" "f_n h' = f_n h" "f_count h' = f_count h" "f_cb h' = f_cb h" "f_values h' = f_values h" "f_ready h' = f_ready h"
  using assms by (cases h; cases h'; simp)+

lemma sync_view [simp]:
  fixes h :: "'a sync"
  shows "pools_view (h\<lparr>w_signaled := a\<rparr>) P L = pools_view h P L" "pools_view (h\<lparr>slock := a\<rparr>) P L = pools_view h P L"
    "pools_view (h\<lparr>wl_head := b\<rparr>) P L = pools_view h P L" "pools_view (h\<lparr>wl_tail := b\<rparr>) P L = pools_view h P L"
    "pools_view (h\<lparr>e_ready := a\<rparr>) P L = pools_view h P L" "pools_view (h\<lparr>buffer := c\<rparr>) P L = pools_view h P L"
    "pools_view (h\<lparr>w_thread := b\<rparr>) P L = pools_view h P L" "pools_view (h\<lparr>w_next := b\<rparr>) P L = pools_view h P L"
    "pools_view (h\<lparr>e_nbytes := d\<rparr>) P L = pools_view h P L" "pools_view (h\<lparr>e_value := b\<rparr>) P L = pools_view h P L"
  by (simp_all add: pools_view_def pools_rep_def pool_linked_def mpsc_def mpsc_chain_def dll_def)

text \<open>\<open>thr w\<close> is the ULT that waits with the record \<open>w\<close>; it can be woken into one of the pools \<open>P\<close>.\<close>

definition wakeable :: "ptr set \<Rightarrow> ptr \<Rightarrow> ptr \<Rightarrow> 'a sync \<Rightarrow> bool" where
  "wakeable P t u h \<longleftrightarrow> cth_awaken h t = Some (Thread_awaken u) \<and> wake_target u h \<in> P \<and> u \<noteq> nullptr \<and> \<not> t_removed h u \<and> \<not> t_in_pool h u \<and>
     (t_pool h u = nullptr \<or> \<not> p_user h (t_pool h u))"

lemma wake_view:
  fixes h :: "'a sync"
  assumes v: "pools_view h P L" and law: "awaken_law E" and w: "w_thread h w \<noteq> nullptr \<longrightarrow> wakeable P (w_thread h w) u h"
  shows "\<exists>h'. wake E w h = Some h' \<and> abt_heap.more h' = abt_heap.more (h\<lparr>w_signaled := (w_signaled h)(w := True)\<rparr>) \<and>
    (if w_thread h w = nullptr then h' = h\<lparr>w_signaled := (w_signaled h)(w := True)\<rparr>
     else pools_view h' P (L(wake_target u h := L (wake_target u h) @ [u])) \<and> awaken_frame u (h\<lparr>w_signaled := (w_signaled h)(w := True)\<rparr>) h')"
proof (cases "w_thread h w = nullptr")
  case True
  then show ?thesis by (simp add: wake_def Let_def)
next
  case False
  let ?h = "h\<lparr>w_signaled := (w_signaled h)(w := True)\<rparr>"
  have t: "wake_target u ?h = wake_target u h" by (simp add: wake_target_def)
  have k: "wakeable P (w_thread h w) u h" using w False by simp
  have "\<exists>h'. ABTI_thread_awaken_fn E u ?h = Some h' \<and> pools_view h' P (L(wake_target u ?h := L (wake_target u ?h) @ [u])) \<and> awaken_frame u ?h h'"
    using k v by (intro awaken_view) (simp_all add: wakeable_def t)
  then obtain h' where h': "ABTI_thread_awaken_fn E u ?h = Some h'" "pools_view h' P (L(wake_target u h := L (wake_target u h) @ [u]))"
    "awaken_frame u ?h h'" unfolding t by blast
  have "cth_awaken ?h (w_thread h w) = Some (Thread_awaken u)" using k by (simp add: wakeable_def)
  then have "CthAwakenIfBlocked E (w_thread h w) ?h = Some (True, h')" using law h'(1) unfolding awaken_law_def by simp
  then have "wake E w h = Some h'" using False by (simp add: wake_def Let_def)
  moreover have "abt_heap.more h' = abt_heap.more ?h" using h'(3) by (simp add: awaken_frame_def)
  ultimately show ?thesis using h' False by (intro exI [of _ h']) simp
qed

lemma awaken_keeps_wakeable:
  assumes "awaken_frame u (h\<lparr>w_signaled := x\<rparr>) h'" "wakeable P t v h" "v \<noteq> u"
  shows "wakeable P t v h' \<and> wake_target v h' = wake_target v h"
proof -
  have e: "t_pool h' = (t_pool h)(u := wake_target u h)" "t_migrate_to h' = (t_migrate_to h)(u := nullptr)" "t_in_pool h' = (t_in_pool h)(u := True)"
    "t_removed h' = t_removed h" "cth_awaken h' = cth_awaken h" "p_user h' = p_user h"
    using assms(1) by (simp_all add: awaken_frame_def wake_target_def)
  have "wake_target v h' = wake_target v h" using assms(3) by (simp add: wake_target_def e)
  then show ?thesis using assms(2,3) by (simp add: wakeable_def e)
qed

lemma wake_list_view:
  fixes h :: "'a sync"
  assumes "wchain (w_next h) p ws nullptr" "distinct ws" "pools_view h P L" "awaken_law E"
    "inj_on thr {w \<in> set ws. w_thread h w \<noteq> nullptr}" "\<forall>w\<in>set ws. w_thread h w \<noteq> nullptr \<longrightarrow> wakeable P (w_thread h w) (thr w) h"
  shows "\<exists>h'. wake_list E p h = Some h' \<and> abt_heap.more h' = abt_heap.more (h\<lparr>w_signaled := (\<lambda>w. w \<in> set ws \<or> w_signaled h w)\<rparr>) \<and>
    pools_view h' P (\<lambda>q. L q @ filter (\<lambda>u. wake_target u h = q) (map thr (filter (\<lambda>w. w_thread h w \<noteq> nullptr) ws)))"
  using assms
proof (induction ws arbitrary: p h L)
  case Nil
  then show ?case by (subst wake_list.simps) simp
next
  case (Cons w ws)
  let ?h = "h\<lparr>w_signaled := (w_signaled h)(w := True)\<rparr>" and ?u = "thr w" and ?q = "wake_target (thr w) h"
  have p: "p = w" "w \<noteq> nullptr" "wchain (w_next h) (w_next h w) ws nullptr" "w \<notin> set ws" using Cons.prems(1,2) by auto
  from wake_view [OF Cons.prems(3,4), of w ?u] Cons.prems(6) obtain h1 where
    h1: "wake E w h = Some h1" "abt_heap.more h1 = abt_heap.more ?h"
      "if w_thread h w = nullptr then h1 = ?h else pools_view h1 P (L(?q := L ?q @ [?u])) \<and> awaken_frame ?u ?h h1" by auto
  note m = sync_more [OF h1(2)]
  define L1 where "L1 = (if w_thread h w = nullptr then L else L(?q := L ?q @ [?u]))"
  have v1: "pools_view h1 P L1" using h1(3) Cons.prems(3) by (auto simp: L1_def)
  have t1: "wakeable P (w_thread h v) (thr v) h1 \<and> wake_target (thr v) h1 = wake_target (thr v) h" if "v \<in> set ws" "w_thread h v \<noteq> nullptr" for v
  proof (cases "w_thread h w = nullptr")
    case True
    then have "h1 = ?h" using h1(3) by simp
    then have "wake_target (thr v) h1 = wake_target (thr v) h" "wakeable P (w_thread h v) (thr v) h1 = wakeable P (w_thread h v) (thr v) h"
      by (simp_all add: wakeable_def wake_target_def)
    then show ?thesis using Cons.prems(6) that by simp
  next
    case False
    then have "thr v \<noteq> thr w" using Cons.prems(5) that p(4) by (auto dest: inj_onD)
    then show ?thesis using h1(3) False Cons.prems(6) that by (intro awaken_keeps_wakeable) auto
  qed
  have "\<exists>h'. wake_list E (w_next h w) h1 = Some h' \<and> abt_heap.more h' = abt_heap.more (h1\<lparr>w_signaled := (\<lambda>w. w \<in> set ws \<or> w_signaled h1 w)\<rparr>) \<and>
    pools_view h' P (\<lambda>q. L1 q @ filter (\<lambda>u. wake_target u h1 = q) (map thr (filter (\<lambda>w. w_thread h1 w \<noteq> nullptr) ws)))"
    using Cons.prems p t1 by (intro Cons.IH v1) (auto simp: m intro: inj_on_subset)
  then obtain h' where h': "wake_list E (w_next h w) h1 = Some h'"
    "abt_heap.more h' = abt_heap.more (h1\<lparr>w_signaled := (\<lambda>w. w \<in> set ws \<or> w_signaled h1 w)\<rparr>)"
    "pools_view h' P (\<lambda>q. L1 q @ filter (\<lambda>u. wake_target u h1 = q) (map thr (filter (\<lambda>w. w_thread h w \<noteq> nullptr) ws)))" by (auto simp: m)
  have L: "L1 q @ filter (\<lambda>u. wake_target u h1 = q) (map thr (filter (\<lambda>w. w_thread h w \<noteq> nullptr) ws)) =
      L q @ filter (\<lambda>u. wake_target u h = q) (map thr (filter (\<lambda>w. w_thread h w \<noteq> nullptr) (w # ws)))" for q
    using t1 by (auto simp: L1_def intro!: filter_cong)
  have "abt_heap.more (h1\<lparr>w_signaled := (\<lambda>w. w \<in> set ws \<or> w_signaled h1 w)\<rparr>) = abt_heap.more (h\<lparr>w_signaled := (\<lambda>v. v \<in> set (w # ws) \<or> w_signaled h v)\<rparr>)"
    using h1(2) by (cases h; cases h1) (auto simp: fun_eq_iff)
  then show ?case using h' h1(1) p(1,2) unfolding L by (subst wake_list.simps) (auto simp: Let_def)
qed


subsection \<open>Setting an eventual\<close>

text \<open>The state in which \<^verbatim>\<open>ABT_eventual_set\<close> starts to wake the waiters.\<close>

definition stored :: "ptr \<Rightarrow> ptr \<Rightarrow> int \<Rightarrow> 'a sync \<Rightarrow> 8 word list" where
  "stored e val nbytes h = (if nbytes > 0 \<and> val \<noteq> nullptr
     then take (nat nbytes) (buffer h val) @ drop (nat nbytes) (buffer h (e_value h e)) else buffer h (e_value h e))"

definition published :: "ptr \<Rightarrow> ptr \<Rightarrow> int \<Rightarrow> 'a sync \<Rightarrow> 'a sync" where
  "published e val nbytes h = h\<lparr>buffer := (buffer h)(e_value h e := stored e val nbytes h), e_ready := (e_ready h)(e := True),
     wl_head := (wl_head h)(e := nullptr), wl_tail := (wl_tail h)(e := nullptr), slock := (slock h)(e := False)\<rparr>"

lemma eventual_set_run:
  assumes e: "is_obj e" "\<not> slock h e" "\<not> e_ready h e" "nbytes \<le> e_nbytes h e"
    and n: "nbytes > 0 \<and> val \<noteq> nullptr \<longrightarrow> nat nbytes \<le> length (buffer h val) \<and> length (buffer h (e_value h e)) = nat (e_nbytes h e)"
  shows "ABT_eventual_set E e val nbytes h = map_option (Pair (Inr ())) (wake_list E (wl_head h e) (published e val nbytes h))"
proof -
  let ?b = "(buffer h)(e_value h e := stored e val nbytes h)"
  have "(if nbytes > 0 \<and> val \<noteq> nullptr then memcpy (e_value (spin_take e h) e) val (nat nbytes) (spin_take e h) else Some (spin_take e h)) =
      Some ((spin_take e h)\<lparr>buffer := ?b\<rparr>)" using n e(4) by (auto simp: memcpy_def spin_take_def stored_def fun_upd_idem)
  moreover have "spin_release e (snd (wl_take e ((spin_take e h)\<lparr>buffer := ?b, e_ready := (e_ready h)(e := True)\<rparr>))) = published e val nbytes h"
    by (simp add: wl_take_def spin_take_def spin_release_def published_def)
  ultimately show ?thesis
    using e by (simp add: ABT_eventual_set_def) (simp add: spin_take_def wl_take_def Let_def map_option_case split: option.split)
qed

text \<open>
  C12. \<^verbatim>\<open>ABT_eventual_set\<close> on an eventual that is not ready copies the value into its buffer, makes it ready, takes
  every waiter off the list and signals it, and makes each waiting ULT ready in its pool, in the order in
  which they came; from then on a wait returns at once with the value, a test reports it, and another
  set is refused and changes nothing.  A set of more bytes than the eventual has room for is refused.
\<close>

theorem eventual_set:
  fixes h :: "'a sync"
  assumes e: "is_obj e" "\<not> slock h e" "\<not> e_ready h e" and ws: "wl_rep e h ws"
    and v: "pools_view h P L" "awaken_law E" "inj_on thr {w \<in> set ws. w_thread h w \<noteq> nullptr}"
      "\<forall>w\<in>set ws. w_thread h w \<noteq> nullptr \<longrightarrow> wakeable P (w_thread h w) (thr w) h"
    and n: "nbytes > 0 \<and> nbytes \<le> e_nbytes h e \<and> val \<noteq> nullptr \<longrightarrow> nat nbytes \<le> length (buffer h val) \<and> length (buffer h (e_value h e)) = nat (e_nbytes h e)"
  shows "if nbytes > e_nbytes h e then ABT_eventual_set E e val nbytes h = Some (Inl ABT_ERR_INV_EVENTUAL, h)
    else \<exists>h'. ABT_eventual_set E e val nbytes h = Some (Inr (), h') \<and>
      buffer h' (e_value h e) = (if nbytes > 0 \<and> val \<noteq> nullptr
        then take (nat nbytes) (buffer h val) @ drop (nat nbytes) (buffer h (e_value h e)) else buffer h (e_value h e)) \<and>
      wl_rep e h' [] \<and> (\<forall>w\<in>set ws. w_signaled h' w) \<and>
      pools_view h' P (\<lambda>q. L q @ filter (\<lambda>u. wake_target u h = q) (map thr (filter (\<lambda>w. w_thread h w \<noteq> nullptr) ws))) \<and>
      (\<forall>w. ABT_eventual_wait E w e h' = Some (Inr (e_value h e), h')) \<and>
      ABT_eventual_test E e h' = Some (Inr (True, e_value h e), h') \<and>
      (\<forall>v k. ABT_eventual_set E e v k h' = Some (Inl ABT_ERR_EVENTUAL, h'))"
proof (cases "nbytes > e_nbytes h e")
  case True
  then have "ABT_eventual_set E e val nbytes h = Some (Inl ABT_ERR_INV_EVENTUAL, h)"
    using e by (simp add: ABT_eventual_set_def spin_again) (simp add: spin_take_def)
  then show ?thesis using True by simp
next
  case False
  define h1 where "h1 = published e val nbytes h"
  have run: "ABT_eventual_set E e val nbytes h = map_option (Pair (Inr ())) (wake_list E (wl_head h e) h1)"
    unfolding h1_def using e n False by (intro eventual_set_run) simp_all
  have h1: "w_next h1 = w_next h" "w_thread h1 = w_thread h" "pools_view h1 P L" "wake_target u h1 = wake_target u h" "wakeable P t u h1 = wakeable P t u h" for t u
    using v(1) by (simp_all add: h1_def published_def wake_target_def wakeable_def)
  have "\<exists>h'. wake_list E (wl_head h e) h1 = Some h' \<and> abt_heap.more h' = abt_heap.more (h1\<lparr>w_signaled := (\<lambda>w. w \<in> set ws \<or> w_signaled h1 w)\<rparr>) \<and>
    pools_view h' P (\<lambda>q. L q @ filter (\<lambda>u. wake_target u h1 = q) (map thr (filter (\<lambda>w. w_thread h1 w \<noteq> nullptr) ws)))"
    using ws v by (intro wake_list_view) (simp_all add: h1 wl_rep_def)
  then obtain h' where h': "wake_list E (wl_head h e) h1 = Some h'" "abt_heap.more h' = abt_heap.more (h1\<lparr>w_signaled := (\<lambda>w. w \<in> set ws \<or> w_signaled h1 w)\<rparr>)"
    "pools_view h' P (\<lambda>q. L q @ filter (\<lambda>u. wake_target u h = q) (map thr (filter (\<lambda>w. w_thread h w \<noteq> nullptr) ws)))" unfolding h1 by blast
  note m = sync_more [OF h'(2)]
  have s: "\<not> slock h' e" "e_ready h' e" "e_value h' e = e_value h e" by (simp_all add: m h1_def published_def)
  have again: "spin_release e (spin_take e h') = h'" by (rule spin_again [OF s(1)])
  have r: "e_ready (spin_take e h') e" "e_value (spin_take e h') e = e_value h e" using s by (simp_all add: spin_take_def)
  have "ABT_eventual_wait E w e h' = Some (Inr (e_value h e), h')" "ABT_eventual_set E e v k h' = Some (Inl ABT_ERR_EVENTUAL, h')"
    "ABT_eventual_test E e h' = Some (Inr (True, e_value h e), h')" for w v k
    using e(1) s r again by (simp_all add: ABT_eventual_wait_def ABT_eventual_set_def ABT_eventual_test_def Let_def)
  moreover have "wl_rep e h' []" by (simp add: wl_rep_def m h1_def published_def)
  moreover have "\<forall>w\<in>set ws. w_signaled h' w" by (simp add: m)
  moreover have "buffer h' (e_value h e) = stored e val nbytes h" by (simp add: m h1_def published_def)
  ultimately show ?thesis using False run h'(1,3) by (intro iffD2 [OF if_not_P]) (auto simp: stored_def)
qed

lemma zero_sync_view: "pools_view (zero_sync h) P L = pools_view h P L"
  by (simp add: zero_sync_defs pools_view_def pools_rep_def pool_linked_def mpsc_def mpsc_chain_def dll_def)

lemma zero_sync_abt:
  "t_pool (zero_sync h) = t_pool h" "cth_awaken (zero_sync h) = cth_awaken h" "t_migrate_to (zero_sync h) = t_migrate_to h"
  "t_removed (zero_sync h) = t_removed h" "t_in_pool (zero_sync h) = t_in_pool h" "p_user (zero_sync h) = p_user h"
  by (simp_all add: zero_sync_defs)

text \<open>Thread 8192 of pool 256 waits for the four-byte eventual 4608, which is set to three bytes.\<close>

definition awaited :: sync_heap where
  "awaited = (zero_sync joined)\<lparr>w_thread := (\<lambda>_. nullptr)(768 := 9), w_next := (\<lambda>_. nullptr), slock := (\<lambda>_. False), wl_head := (\<lambda>_. nullptr)(4608 := 768),
     wl_tail := (\<lambda>_. nullptr)(4608 := 768), e_ready := (\<lambda>_. False), e_nbytes := (\<lambda>_. 0)(4608 := 4), e_value := (\<lambda>_. nullptr)(4608 := 5120),
     buffer := (\<lambda>_. [])(5120 := [0, 0, 0, 0], 6144 := [1, 2, 3])\<rparr>"

theorem eventual_set_witness:
  "(\<exists>h'. ABT_eventual_set env_awaken 4608 6144 3 awaited = Some (Inr (), h') \<and> buffer h' 5120 = [1, 2, 3, 0] \<and> w_signaled h' 768 \<and>
     pools_view h' {512, 256} (view3(256 := [1024, 1280, 8192])) \<and> ABT_eventual_wait env_awaken 768 4608 h' = Some (Inr 5120, h')) \<and>
   ABT_eventual_set env_awaken 4608 6144 5 awaited = Some (Inl ABT_ERR_INV_EVENTUAL, awaited)"
proof -
  have e: "\<not> slock awaited 4608" "\<not> e_ready awaited 4608" "e_nbytes awaited 4608 = 4" "e_value awaited 4608 = 5120" "buffer awaited 5120 = [0, 0, 0, 0]"
    "buffer awaited 6144 = [1, 2, 3]" "w_thread awaited 768 = 9" "wl_rep 4608 awaited [768]" by (simp_all add: awaited_def wl_rep_def)
  have v: "pools_view awaited {512, 256} view3" using heap3_view by (simp add: awaited_def zero_sync_view joined_def view_abt sync_view)
  have m: "t_migrate_to (abt_of heap3) = (\<lambda>_. nullptr)" by (simp add: abt_of_def pool_heap.defs abt_heap.defs)
  have w: "wake_target 8192 awaited = 256" "wakeable {512, 256} 9 8192 awaited"
    by (simp_all add: wakeable_def awaited_def zero_sync_abt wake_target_def joined_def heap3_flags m)
  have L: "(\<lambda>q. view3 q @ filter (\<lambda>u. wake_target u awaited = q) [8192]) = view3(256 := [1024, 1280, 8192])" by (auto simp: w view3_def)
  have o: "is_obj 4608" by (simp add: ABTI_is_null_handle_def)
  have i: "inj_on (\<lambda>_. 8192) {w \<in> set [768]. w_thread awaited w \<noteq> nullptr}" by (auto simp: inj_on_def)
  have k: "\<forall>w\<in>set [768]. w_thread awaited w \<noteq> nullptr \<longrightarrow> wakeable {512, 256} (w_thread awaited w) 8192 awaited" by (simp add: e w)
  note s = eventual_set [OF o e(1,2,8) v env_awaken_law i k, where val = 6144]
  show ?thesis using s [of 3] s [of 5] unfolding L [symmetric] by (auto simp: e w)
qed

end
