(* ===== verification/Future_Life.thy ===== *)
theory Future_Life
  imports Eventual Sync_Objects
begin

section \<open>Filling a future\<close>

text \<open>
  What a sequence of \<^verbatim>\<open>ABT_future_set\<close> calls does to a future, its waiters included.  Two named hypotheses state
  what is relied on of code outside: waking a thread returns and leaves synchronisation objects alone, and
  so does the callback of the future.
\<close>

definition wake_keeps :: "'a sync_env \<Rightarrow> bool" where
  "wake_keeps E \<longleftrightarrow> (\<forall>t h. \<exists>b h'. CthAwakenIfBlocked E t h = Some (b, h') \<and> abt_heap.more h' = abt_heap.more h)"

definition callback_keeps :: "(ptr \<Rightarrow> ptr list \<Rightarrow> 'a sync \<Rightarrow> 'a sync) \<Rightarrow> bool" where
  "callback_keeps cb \<longleftrightarrow> (\<forall>p vs h. abt_heap.more (cb p vs h) = abt_heap.more h)"

lemma wake_keeps_more:
  fixes h :: "'a sync"
  assumes "wake_keeps E"
  shows "\<exists>h'. wake E w h = Some h' \<and> abt_heap.more h' = abt_heap.more (h\<lparr>w_signaled := (w_signaled h)(w := True)\<rparr>)"
proof -
  let ?h = "h\<lparr>w_signaled := (w_signaled h)(w := True)\<rparr>"
  obtain b h' where h': "CthAwakenIfBlocked E (w_thread h w) ?h = Some (b, h')" "abt_heap.more h' = abt_heap.more ?h"
    using assms unfolding wake_keeps_def by blast
  show ?thesis
  proof (cases "w_thread h w = nullptr")
    case False
    then show ?thesis using h' by (simp add: wake_def Let_def)
  qed (simp add: wake_def Let_def)
qed

lemma wake_list_keeps:
  fixes h :: "'a sync"
  assumes "wake_keeps E" "wchain (w_next h) p ws nullptr"
  shows "\<exists>h'. wake_list E p h = Some h' \<and> abt_heap.more h' = abt_heap.more (h\<lparr>w_signaled := (\<lambda>w. w \<in> set ws \<or> w_signaled h w)\<rparr>)"
  using assms(2)
proof (induction ws arbitrary: p h)
  case Nil
  then show ?case by (subst wake_list.simps) simp
next
  case (Cons w ws)
  then have p: "p = w" "w \<noteq> nullptr" "wchain (w_next h) (w_next h w) ws nullptr" by auto
  from wake_keeps_more [OF assms(1), of w h] obtain h1 where
    h1: "wake E w h = Some h1" "abt_heap.more h1 = abt_heap.more (h\<lparr>w_signaled := (w_signaled h)(w := True)\<rparr>)" by blast
  have "wchain (w_next h1) (w_next h w) ws nullptr" using p(3) by (simp add: sync_more [OF h1(2)])
  from Cons.IH [OF this] obtain h' where h': "wake_list E (w_next h w) h1 = Some h'"
    "abt_heap.more h' = abt_heap.more (h1\<lparr>w_signaled := (\<lambda>w. w \<in> set ws \<or> w_signaled h1 w)\<rparr>)" by blast
  have "abt_heap.more (h1\<lparr>w_signaled := (\<lambda>w. w \<in> set ws \<or> w_signaled h1 w)\<rparr>) = abt_heap.more (h\<lparr>w_signaled := (\<lambda>v. v \<in> set (w # ws) \<or> w_signaled h v)\<rparr>)"
    using h1(2) by (cases h; cases h1) (auto simp: fun_eq_iff)
  then show ?case using h' h1(1) p(1,2) by (subst wake_list.simps) (simp add: Let_def)
qed


subsection \<open>An uncontended mutex\<close>

definition mutex_free :: "ptr \<Rightarrow> 'a sync \<Rightarrow> bool" where
  "mutex_free m h \<longleftrightarrow> \<not> slock h m \<and> \<not> m_locked h m \<and> m_nesting h m = 0 \<and> wl_head h m = nullptr"

definition mutex_owned :: "ptr \<Rightarrow> 64 word \<Rightarrow> 'a sync \<Rightarrow> 'a sync" where
  "mutex_owned m me h = h\<lparr>m_locked := (m_locked h)(m := True), m_owner := (m_owner h)(m := me), m_nesting := (m_nesting h)(m := 0)\<rparr>"

lemma lock_free_mutex:
  assumes "is_obj m" "mutex_free m h"
  shows "\<exists>me. ABT_mutex_lock E w m h = Some (Inr (), mutex_owned m me h)"
proof -
  let ?self = "ABTI_self_thread E h"
  have "mutex_lock_loop E w ?self (self_id E ?self h) m False h = Some (mutex_owned m (self_id E ?self h) h)"
    using assms(2) by (subst mutex_lock_loop.simps)
      (simp add: mutex_free_def mutex_try_def spin_take_def spin_release_def mutex_owned_def fun_upd_idem)
  then show ?thesis using assms(1) by (auto simp: ABT_mutex_lock_def mutex_lock_def Let_def)
qed

lemma unlock_free_mutex:
  assumes "is_obj m" "\<not> slock h m" "m_nesting h m = 0" "wl_head h m = nullptr"
  shows "ABT_mutex_unlock E m h = Some (Inr (), h\<lparr>m_locked := (m_locked h)(m := False), m_owner := (m_owner h)(m := 0)\<rparr>)"
  using assms by (simp add: ABT_mutex_unlock_def mutex_give_def wl_pop_def spin_take_def spin_release_def wake_opt_def Let_def fun_upd_idem)

lemma broadcast_keeps:
  fixes h :: "'a sync"
  assumes "is_obj c" "\<not> slock h c" "wl_rep c h ws" "wake_keeps E"
  shows "\<exists>h'. ABT_cond_broadcast E c h = Some (Inr (), h') \<and> abt_heap.more h' =
    abt_heap.more (h\<lparr>wl_head := (wl_head h)(c := nullptr), wl_tail := (wl_tail h)(c := nullptr), w_signaled := (\<lambda>w. w \<in> set ws \<or> w_signaled h w)\<rparr>)"
proof -
  let ?h = "h\<lparr>wl_head := (wl_head h)(c := nullptr), wl_tail := (wl_tail h)(c := nullptr)\<rparr>"
  have "wchain (w_next ?h) (wl_head h c) ws nullptr" using assms(3) by (simp add: wl_rep_def)
  from wake_list_keeps [OF assms(4) this] obtain h' where
    h': "wake_list E (wl_head h c) ?h = Some h'" "abt_heap.more h' = abt_heap.more (?h\<lparr>w_signaled := (\<lambda>w. w \<in> set ws \<or> w_signaled ?h w)\<rparr>)" by blast
  have "spin_release c (snd (wl_take c (spin_take c h))) = ?h" "fst (wl_take c (spin_take c h)) = wl_head h c"
    using assms(2) by (simp_all add: wl_take_def spin_take_def spin_release_def fun_upd_idem)
  then show ?thesis using assms(1,2) h' by (simp add: ABT_cond_broadcast_def case_prod_unfold)
qed


subsection \<open>The states of a future\<close>

text \<open>The future \<open>f\<close> has \<open>n\<close> compartments, \<open>vs\<close> were set, \<open>ws\<close> wait, and nobody holds its mutex.\<close>

definition future_at :: "ptr \<Rightarrow> 32 word \<Rightarrow> ptr list \<Rightarrow> ptr list \<Rightarrow> 'a sync \<Rightarrow> bool" where
  "future_at f n vs ws h \<longleftrightarrow> is_obj f \<and> is_obj (f_m h f) \<and> is_obj (f_c h f) \<and> f_m h f \<noteq> f_c h f \<and> mutex_free (f_m h f) h \<and>
     \<not> slock h (f_c h f) \<and> wl_rep (f_c h f) h ws \<and> f_n h f = n \<and> length vs \<le> unat n \<and> f_count h f = of_nat (length vs) \<and>
     f_values h f = vs @ replicate (unat n - length vs) nullptr \<and> f_ready h f = (vs \<noteq> [] \<and> length vs = unat n)"

lemma future_atD:
  assumes "future_at f n vs ws h"
  shows "is_obj f" "is_obj (f_m h f)" "is_obj (f_c h f)" "f_m h f \<noteq> f_c h f" "mutex_free (f_m h f) h" "\<not> slock h (f_c h f)"
    "wl_rep (f_c h f) h ws" "f_n h f = n" "length vs \<le> unat n" "f_count h f = of_nat (length vs)"
    "f_values h f = vs @ replicate (unat n - length vs) nullptr" "f_ready h f = (vs \<noteq> [] \<and> length vs = unat n)"
  using assms unfolding future_at_def by simp_all

lemma count_unat:
  assumes "k \<le> unat (n :: 32 word)"
  shows "unat (of_nat k :: 32 word) = k"
proof -
  have "unat n < 2 ^ LENGTH(32)" by (rule unsigned_less)
  then show ?thesis using assms by (simp add: unat_of_nat)
qed

text \<open>The future after \<open>v\<close> went into the next compartment.\<close>

definition filled :: "ptr \<Rightarrow> 32 word \<Rightarrow> ptr list \<Rightarrow> ptr \<Rightarrow> 'a sync \<Rightarrow> 'a sync" where
  "filled f n vs v h = h\<lparr>f_values := (f_values h)(f := vs @ v # replicate (unat n - Suc (length vs)) nullptr),
     f_count := (f_count h)(f := of_nat (Suc (length vs))), f_ready := (f_ready h)(f := Suc (length vs) = unat n)\<rparr>"

lemma filled_sel [simp]:
  "f_m (filled f n vs v h) = f_m h" "f_c (filled f n vs v h) = f_c h" "f_n (filled f n vs v h) = f_n h" "f_cb (filled f n vs v h) = f_cb h"
  "slock (filled f n vs v h) = slock h" "wl_head (filled f n vs v h) = wl_head h" "w_signaled (filled f n vs v h) = w_signaled h"
  "wl_rep c (filled f n vs v h) ws = wl_rep c h ws"
  by (simp_all add: filled_def wl_rep_def)

lemma owned_sel [simp]:
  "f_m (mutex_owned m me h) = f_m h" "f_c (mutex_owned m me h) = f_c h" "f_cb (mutex_owned m me h) = f_cb h" "f_values (mutex_owned m me h) = f_values h"
  "slock (mutex_owned m me h) = slock h" "wl_head (mutex_owned m me h) = wl_head h" "m_nesting (mutex_owned m me h) m = 0"
  "w_signaled (mutex_owned m me h) = w_signaled h" "wl_rep c (mutex_owned m me h) ws = wl_rep c h ws"
  by (simp_all add: mutex_owned_def wl_rep_def)

lemma future_put_at:
  assumes a: "future_at f n vs ws h"
  shows "future_put f v (mutex_owned m me h) =
    (if length vs = unat n then None
     else Some (Suc (length vs) = unat n, mutex_owned m me (filled f n vs v h)))"
proof -
  note d = future_atD [OF a]
  have le: "n \<le> of_nat (length vs) \<longleftrightarrow> length vs = unat n" using d(9) count_unat [OF d(9)] by (auto simp: word_le_nat_alt)
  have u: "unat (of_nat (length vs) :: 32 word) = length vs" by (rule count_unat [OF d(9)])
  show ?thesis
  proof (cases "length vs = unat n")
    case True
    then show ?thesis using le d by (simp add: future_put_def mutex_owned_def)
  next
    case False
    then have l: "Suc (length vs) \<le> unat n" using d(9) by simp
    have e: "(of_nat (length vs) :: 32 word) + 1 = of_nat (Suc (length vs))" by simp
    have q: "(of_nat (Suc (length vs)) :: 32 word) = n \<longleftrightarrow> Suc (length vs) = unat n" unfolding word_unat_eq_iff count_unat [OF l] ..
    have r: "(vs @ replicate (unat n - length vs) nullptr)[length vs := v] = vs @ v # replicate (unat n - Suc (length vs)) nullptr"
      using l by (cases "unat n - length vs") (auto simp: list_update_append)
    have nr: "\<not> f_ready h f" using d(12) False by simp
    show ?thesis using False le d(8,10,11) q nr
      by (simp add: future_put_def mutex_owned_def filled_def Let_def u e r fun_upd_idem del: of_nat_Suc)
  qed
qed

text \<open>A call that finds the mutex free: what it does while it has it, and the state it leaves.\<close>

definition released :: "ptr \<Rightarrow> 'a sync \<Rightarrow> 'a sync" where
  "released m h = h\<lparr>m_locked := (m_locked h)(m := False), m_owner := (m_owner h)(m := 0)\<rparr>"

lemma future_at_filled:
  assumes a: "future_at f n vs ws h" and l: "length vs \<noteq> unat n"
    and h': "f_m h' = f_m h" "f_c h' = f_c h" "f_n h' = f_n h" "f_count h' = f_count (filled f n vs v h)" "f_values h' = f_values (filled f n vs v h)"
      "f_ready h' = f_ready (filled f n vs v h)" "slock h' = slock h" "m_nesting h' (f_m h f) = 0" "wl_head h' (f_m h f) = nullptr" "wl_rep (f_c h f) h' us"
  shows "future_at f n (vs @ [v]) us (released (f_m h f) h')"
proof -
  note d = future_atD [OF a]
  have "mutex_free (f_m h f) (released (f_m h f) h')" using d(5) h'(7-9) by (simp add: mutex_free_def released_def)
  moreover have "wl_rep (f_c h f) (released (f_m h f) h') us" using h'(10) by (simp add: wl_rep_def released_def)
  ultimately show ?thesis unfolding future_at_def using d(1-4,6,8,9) l h'(1-7) by (simp add: released_def filled_def del: of_nat_Suc)
qed

lemma future_set_none:
  assumes a: "future_at f n vs ws h" and l: "length vs = unat n"
  shows "\<exists>h'. ABT_future_set E cb mw f v h = Some (Inl ABT_ERR_FUTURE, h') \<and> future_at f n vs ws h' \<and> w_signaled h' = w_signaled h"
proof -
  note d = future_atD [OF a]
  from lock_free_mutex [OF d(2,5)] obtain me where lock: "ABT_mutex_lock E mw (f_m h f) h = Some (Inr (), mutex_owned (f_m h f) me h)" by blast
  let ?h = "released (f_m h f) (mutex_owned (f_m h f) me h)"
  have "ABT_mutex_unlock E (f_m h f) (mutex_owned (f_m h f) me h) = Some (Inr (), ?h)"
    using d(5) by (subst unlock_free_mutex [OF d(2)]) (simp_all add: released_def mutex_free_def)
  then have "ABT_future_set E cb mw f v h = Some (Inl ABT_ERR_FUTURE, ?h)"
    using l lock future_put_at [OF a, of v "f_m h f"] d(1) by (simp add: ABT_future_set_def)
  moreover have "future_at f n vs ws ?h" using a by (simp add: future_at_def mutex_free_def released_def mutex_owned_def wl_rep_def)
  ultimately show ?thesis by (simp add: released_def)
qed

lemma future_set_more:
  assumes a: "future_at f n vs ws h" and l: "length vs \<noteq> unat n" "Suc (length vs) \<noteq> unat n"
  shows "\<exists>h'. ABT_future_set E cb mw f v h = Some (Inr (), h') \<and> future_at f n (vs @ [v]) ws h' \<and> w_signaled h' = w_signaled h"
proof -
  note d = future_atD [OF a]
  from lock_free_mutex [OF d(2,5)] obtain me where lock: "ABT_mutex_lock E mw (f_m h f) h = Some (Inr (), mutex_owned (f_m h f) me h)" by blast
  let ?g = "mutex_owned (f_m h f) me (filled f n vs v h)"
  have "ABT_mutex_unlock E (f_m h f) ?g = Some (Inr (), released (f_m h f) ?g)"
    using d(5) by (subst unlock_free_mutex [OF d(2)]) (simp_all add: released_def mutex_free_def)
  then have "ABT_future_set E cb mw f v h = Some (Inr (), released (f_m h f) ?g)"
    using l lock future_put_at [OF a, of v "f_m h f"] d(1) by (simp add: ABT_future_set_def)
  moreover have "future_at f n (vs @ [v]) ws (released (f_m h f) ?g)"
    by (rule future_at_filled [OF a l(1)]) (use d(5,7) in \<open>simp_all add: mutex_free_def\<close>, simp_all add: mutex_owned_def)
  ultimately show ?thesis by (simp add: released_def)
qed

lemma future_set_full:
  fixes h :: "'a sync"
  assumes a: "future_at f n vs ws h" and l: "Suc (length vs) = unat n" and law: "wake_keeps E" "callback_keeps cb"
  shows "\<exists>h'. ABT_future_set E cb mw f v h = Some (Inr (), h') \<and> future_at f n (vs @ [v]) [] h' \<and>
    w_signaled h' = (\<lambda>w. w \<in> set ws \<or> w_signaled h w)"
proof -
  note d = future_atD [OF a]
  have l': "length vs \<noteq> unat n" using l by simp
  from lock_free_mutex [OF d(2,5)] obtain me where lock: "ABT_mutex_lock E mw (f_m h f) h = Some (Inr (), mutex_owned (f_m h f) me h)" by blast
  let ?g = "mutex_owned (f_m h f) me (filled f n vs v h)"
  define h3 where "h3 = (if f_cb h f \<noteq> nullptr then cb (f_cb h f) (f_values ?g f) ?g else ?g)"
  have m3: "abt_heap.more h3 = abt_heap.more ?g" using law(2) by (simp add: h3_def callback_keeps_def)
  note s3 = sync_more [OF m3]
  have "wl_rep (f_c h f) h3 ws" "\<not> slock h3 (f_c h f)" using d(6,7) by (simp_all add: wl_rep_def s3 mutex_owned_def filled_def)
  from broadcast_keeps [OF d(3) this(2,1) law(1)] obtain h4 where h4: "ABT_cond_broadcast E (f_c h f) h3 = Some (Inr (), h4)"
    "abt_heap.more h4 = abt_heap.more (h3\<lparr>wl_head := (wl_head h3)(f_c h f := nullptr), wl_tail := (wl_tail h3)(f_c h f := nullptr),
      w_signaled := (\<lambda>w. w \<in> set ws \<or> w_signaled h3 w)\<rparr>)" by blast
  note s4 = sync_more [OF h4(2)]
  have f: "f_m h3 = f_m h" "f_c h3 = f_c h" "f_m h4 = f_m h" "f_c h4 = f_c h" by (simp_all add: s3 s4)
  have u: "\<not> slock h4 (f_m h f)" "m_nesting h4 (f_m h f) = 0" "wl_head h4 (f_m h f) = nullptr" using d(4,5) by (simp_all add: s3 s4 mutex_free_def)
  have "ABT_mutex_unlock E (f_m h f) h4 = Some (Inr (), released (f_m h f) h4)" unfolding released_def by (rule unlock_free_mutex [OF d(2) u])
  then have "ABT_future_set E cb mw f v h = Some (Inr (), released (f_m h f) h4)"
    using l' l lock future_put_at [OF a, of v "f_m h f"] d(1) h4(1) f
    by (cases "f_cb h f = nullptr") (simp_all add: ABT_future_set_def h3_def)
  moreover have "future_at f n (vs @ [v]) [] (released (f_m h f) h4)"
    by (rule future_at_filled [OF a l']) (use u in \<open>simp_all add: s3 s4 wl_rep_def\<close>, simp_all add: mutex_owned_def)
  ultimately show ?thesis by (simp add: released_def s3 s4)
qed

primrec future_sets :: "'a sync_env \<Rightarrow> (ptr \<Rightarrow> ptr list \<Rightarrow> 'a sync \<Rightarrow> 'a sync) \<Rightarrow> ptr \<Rightarrow> ptr \<Rightarrow> ptr list \<Rightarrow> 'a sync \<Rightarrow>
    ((ABT_error + unit) list \<times> 'a sync) option" where
  "future_sets E cb mw f [] h = Some ([], h)"
| "future_sets E cb mw f (v # vs) h =
     do { (r, h1) \<leftarrow> ABT_future_set E cb mw f v h; (rs, h2) \<leftarrow> future_sets E cb mw f vs h1; Some (r # rs, h2) }"

lemma future_sets_at:
  fixes h :: "'a sync"
  assumes "future_at f n us ws h" "wake_keeps E" "callback_keeps cb" "length us \<le> unat n"
  shows "\<exists>h'. future_sets E cb mw f vs h =
      Some (replicate (min (length vs) (unat n - length us)) (Inr ()) @ replicate (length vs - (unat n - length us)) (Inl ABT_ERR_FUTURE), h') \<and>
    (let done = length us < unat n \<and> unat n \<le> length us + length vs in
     future_at f n (take (unat n) (us @ vs)) (if done then [] else ws) h' \<and>
     w_signaled h' = (if done then (\<lambda>w. w \<in> set ws \<or> w_signaled h w) else w_signaled h))"
  using assms(1,4)
proof (induction vs arbitrary: us ws h)
  case Nil
  then show ?case by (auto simp: Let_def)
next
  case (Cons v vs)
  consider (none) "length us = unat n" | (more) "length us \<noteq> unat n" "Suc (length us) \<noteq> unat n" | (full) "Suc (length us) = unat n" by linarith
  then show ?case
  proof cases
    case none
    from future_set_none [OF Cons.prems(1) none, of E cb mw v] obtain h1 where
      h1: "ABT_future_set E cb mw f v h = Some (Inl ABT_ERR_FUTURE, h1)" "future_at f n us ws h1" "w_signaled h1 = w_signaled h" by blast
    from Cons.IH [OF h1(2)] none show ?thesis by (auto simp: h1(1,3) Let_def)
  next
    case more
    from future_set_more [OF Cons.prems(1) more, of E cb mw v] obtain h1 where
      h1: "ABT_future_set E cb mw f v h = Some (Inr (), h1)" "future_at f n (us @ [v]) ws h1" "w_signaled h1 = w_signaled h" by blast
    obtain k where k: "unat n = Suc (length us + k)" "k \<noteq> 0" 
      using more Cons.prems(2) that [of "unat n - Suc (length us)"] by linarith
    have "length (us @ [v]) \<le> unat n" using k by simp
    from Cons.IH [OF h1(2) this] show ?thesis by (auto simp: h1(1,3) k Let_def min_def)
  next
    case full
    from future_set_full [OF Cons.prems(1) full assms(2,3), of mw v] obtain h1 where
      h1: "ABT_future_set E cb mw f v h = Some (Inr (), h1)" "future_at f n (us @ [v]) [] h1" "w_signaled h1 = (\<lambda>w. w \<in> set ws \<or> w_signaled h w)" by blast
    have "length (us @ [v]) \<le> unat n" using full by simp
    from Cons.IH [OF h1(2) this] show ?thesis by (auto simp: h1(1,3) Let_def min_def full [symmetric])
  qed
qed


text \<open>
  C13.  A future takes exactly as many values as it has compartments, in the order they are set, and refuses
  every later one with \<^verbatim>\<open>ABT_ERR_FUTURE\<close>.  It becomes ready with the value that fills the last
  compartment, and not earlier: at that point every waiter is signalled and the list of waiters is empty,
  and until then the waiters are left alone.  A future without compartments is never ready.
\<close>

theorem future_fills_in_order:
  fixes h :: "'a sync"
  assumes "future_at f n [] ws h" "wake_keeps E" "callback_keeps cb"
  shows "\<exists>h'. future_sets E cb mw f vs h =
      Some (replicate (min (length vs) (unat n)) (Inr ()) @ replicate (length vs - unat n) (Inl ABT_ERR_FUTURE), h') \<and>
    f_values h' f = take (unat n) vs @ replicate (unat n - length vs) nullptr \<and>
    f_ready h' f = (0 < unat n \<and> unat n \<le> length vs) \<and>
    (if f_ready h' f then wl_rep (f_c h' f) h' [] \<and> w_signaled h' = (\<lambda>w. w \<in> set ws \<or> w_signaled h w)
     else wl_rep (f_c h' f) h' ws \<and> w_signaled h' = w_signaled h)"
proof -
  from future_sets_at [OF assms(1-3), of mw vs] obtain h' where
    r: "future_sets E cb mw f vs h =
      Some (replicate (min (length vs) (unat n)) (Inr ()) @ replicate (length vs - unat n) (Inl ABT_ERR_FUTURE), h')" and
    a: "future_at f n (take (unat n) vs) (if 0 < unat n \<and> unat n \<le> length vs then [] else ws) h'" and
    s: "w_signaled h' = (if 0 < unat n \<and> unat n \<le> length vs then (\<lambda>w. w \<in> set ws \<or> w_signaled h w) else w_signaled h)"
    by (auto simp: Let_def)
  note d = future_atD [OF a]
  have "f_ready h' f = (0 < unat n \<and> unat n \<le> length vs)" using d(12) by (auto simp: min_def)
  then show ?thesis using r s d(7,11) by (auto simp: min_def)
qed

definition future2 :: sync_heap where
  "future2 = (zero_sync (abt_of heap0))\<lparr>w_next := (\<lambda>_. nullptr), slock := (\<lambda>_. False), wl_head := (\<lambda>_. nullptr)(1024 := 768),
     wl_tail := (\<lambda>_. nullptr)(1024 := 768), m_locked := (\<lambda>_. False), m_nesting := (\<lambda>_. 0), w_signaled := (\<lambda>_. False),
     f_m := (\<lambda>_. 512), f_c := (\<lambda>_. 1024), f_n := (\<lambda>_. 2), f_count := (\<lambda>_. 0), f_values := (\<lambda>_. [0, 0]), f_ready := (\<lambda>_. False)\<rparr>"

theorem future_fills_in_order_witness:
  "(\<exists>h'. future_sets env0 (\<lambda>_ _ h. h) 1280 256 [7, 8, 9] future2 = Some ([Inr (), Inr (), Inl ABT_ERR_FUTURE], h') \<and>
     f_values h' 256 = [7, 8] \<and> f_ready h' 256 \<and> w_signaled h' 768) \<and>
   (\<exists>h'. future_sets env0 (\<lambda>_ _ h. h) 1280 256 [7] future2 = Some ([Inr ()], h') \<and>
     f_values h' 256 = [7, 0] \<and> \<not> f_ready h' 256 \<and> \<not> w_signaled h' 768)"
proof -
  have u: "unat (2 :: 32 word) = Suc (Suc 0)" by simp
  have a: "future_at 256 2 [] [768] future2"
    unfolding future_at_def u by (simp add: future2_def mutex_free_def wl_rep_def ABTI_is_null_handle_def)
  have e: "wake_keeps env0" "callback_keeps (\<lambda>_ _ h. h)" by (auto simp: wake_keeps_def callback_keeps_def env0_def)
  have s: "w_signaled future2 768 = False" by (simp add: future2_def)
  note t = future_fills_in_order [OF a e, where mw = 1280, unfolded u]
  have "\<exists>h'. future_sets env0 (\<lambda>_ _ h. h) 1280 256 [7, 8, 9] future2 = Some ([Inr (), Inr (), Inl ABT_ERR_FUTURE], h') \<and>
     f_values h' 256 = [7, 8] \<and> f_ready h' 256 \<and> w_signaled h' 768" 
    using t [of "[7, 8, 9]"] by (auto simp: min_def simp del: future_sets.simps)
  moreover have "\<exists>h'. future_sets env0 (\<lambda>_ _ h. h) 1280 256 [7] future2 = Some ([Inr ()], h') \<and>
     f_values h' 256 = [7, 0] \<and> \<not> f_ready h' 256 \<and> \<not> w_signaled h' 768" 
    using t [of "[7]"] s by (auto simp: min_def simp del: future_sets.simps)
  ultimately show ?thesis by (rule conjI)
qed

end
