(* ===== verification/Static_Objects.thy ===== *)
theory Static_Objects
  imports Eventual
begin

section \<open>Statically initialised objects\<close>

text \<open>
  \<^verbatim>\<open>src/include/abt.h\<close> lets a program put a mutex, a condition variable or an eventual into a struct of 16
  integers with a static initialiser; \<^verbatim>\<open>src/src/sync.cpp\<close> reads these integers as its own structs.  The
  fields lie at the offsets they have with 32-bit \<^verbatim>\<open>int\<close> and 64-bit, 8-aligned pointers, low word first.  The
  lemmas show that such an object is the one the create function makes, except that it is not on the heap.
\<close>

type_synonym memory = "32 word list"

definition ABT_MUTEX_INITIALIZER :: memory where
  "ABT_MUTEX_INITIALIZER = [0, 0, 0, 0, 0, 0, 0, 0, 0, 0, 0, 0, 0, 0, 0, 0]"

definition ABT_RECURSIVE_MUTEX_INITIALIZER :: memory where
  "ABT_RECURSIVE_MUTEX_INITIALIZER = [1, 0, 0, 0, 0, 0, 0, 0, 0, 0, 0, 0, 0, 0, 0, 0]"

definition ABT_COND_INITIALIZER :: memory where
  "ABT_COND_INITIALIZER = [0, 0, 0, 0, 0, 0, 0, 0, 0, 0, 0, 0, 0, 0, 0, 0]"

definition ABT_EVENTUAL_INITIALIZER :: memory where
  "ABT_EVENTUAL_INITIALIZER = [0, 0, 0, 0, 0, 0, 0, 0, 0, 0, 0, 0, 0, 0, 0, 0]"

text \<open>The 64-bit value in two consecutive words.\<close>

definition dword :: "memory \<Rightarrow> nat \<Rightarrow> nat" where
  "dword ws i = unat (ws ! i) + 2 ^ 32 * unat (ws ! Suc i)"

definition ABTI_mutex_at :: "ptr \<Rightarrow> memory \<Rightarrow> 'a sync \<Rightarrow> 'a sync" where
  "ABTI_mutex_at m ws h =
     h\<lparr>m_attrs := (m_attrs h)(m := ws ! 0), slock := (slock h)(m := ws ! 1 \<noteq> 0), m_locked := (m_locked h)(m := ws ! 2 \<noteq> 0),
       m_nesting := (m_nesting h)(m := sint (ws ! 3)), m_owner := (m_owner h)(m := of_nat (dword ws 4)),
       wl_head := (wl_head h)(m := dword ws 6), wl_tail := (wl_tail h)(m := dword ws 8)\<rparr>"

definition ABTI_cond_at :: "ptr \<Rightarrow> memory \<Rightarrow> 'a sync \<Rightarrow> 'a sync" where
  "ABTI_cond_at c ws h =
     h\<lparr>slock := (slock h)(c := ws ! 0 \<noteq> 0), c_mutex := (c_mutex h)(c := dword ws 2),
       wl_head := (wl_head h)(c := dword ws 4), wl_tail := (wl_tail h)(c := dword ws 6)\<rparr>"

definition ABTI_eventual_at :: "ptr \<Rightarrow> memory \<Rightarrow> 'a sync \<Rightarrow> 'a sync" where
  "ABTI_eventual_at e ws h =
     h\<lparr>slock := (slock h)(e := ws ! 0 \<noteq> 0), e_ready := (e_ready h)(e := ws ! 1 \<noteq> 0), e_nbytes := (e_nbytes h)(e := sint (ws ! 2)),
       e_value := (e_value h)(e := dword ws 4), wl_head := (wl_head h)(e := dword ws 6), wl_tail := (wl_tail h)(e := dword ws 8)\<rparr>"

text \<open>The handle of such an object is its address.\<close>

definition ABT_MUTEX_MEMORY_GET_HANDLE :: "ptr \<Rightarrow> ptr" where "ABT_MUTEX_MEMORY_GET_HANDLE p = p"
definition ABT_COND_MEMORY_GET_HANDLE :: "ptr \<Rightarrow> ptr" where "ABT_COND_MEMORY_GET_HANDLE p = p"
definition ABT_EVENTUAL_MEMORY_GET_HANDLE :: "ptr \<Rightarrow> ptr" where "ABT_EVENTUAL_MEMORY_GET_HANDLE p = p"


subsection \<open>Static and created objects agree\<close>

lemmas static_defs = ABT_MUTEX_INITIALIZER_def ABT_RECURSIVE_MUTEX_INITIALIZER_def ABT_COND_INITIALIZER_def ABT_EVENTUAL_INITIALIZER_def
  ABTI_mutex_at_def ABTI_cond_at_def ABTI_eventual_at_def dword_def

lemma static_mutex_created:
  "snd (ABT_mutex_create m h) = (ABTI_mutex_at m ABT_MUTEX_INITIALIZER h)\<lparr>live := insert m (live h)\<rparr>"
  by (simp add: ABT_mutex_create_def static_defs)

lemma static_recursive_mutex_created:
  assumes "is_obj a" "ma_recursive h a"
  shows "snd (ABT_mutex_create_with_attr a m h) = (ABTI_mutex_at m ABT_RECURSIVE_MUTEX_INITIALIZER h)\<lparr>live := insert m (live h)\<rparr>"
  using assms by (simp add: ABT_mutex_create_with_attr_def ABT_mutex_create_def static_defs ABTI_obj_def)

lemma static_cond_created:
  "snd (ABT_cond_create c h) = (ABTI_cond_at c ABT_COND_INITIALIZER h)\<lparr>live := insert c (live h)\<rparr>"
  by (simp add: ABT_cond_create_def static_defs)

lemma static_eventual_created:
  "snd (ABT_eventual_create e v 0 h) = (ABTI_eventual_at e ABT_EVENTUAL_INITIALIZER h)\<lparr>live := insert e (live h)\<rparr>"
  by (simp add: ABT_eventual_create_def static_defs)

end
