(* ===== verification/Timer.thy ===== *)
theory Timer
  imports Complex_Main Abt_Types
begin

section \<open>Timers\<close>

text \<open>
  The timers of \<^verbatim>\<open>src/src/misc.cpp\<close>.  They use no state of the library, only \<^verbatim>\<open>new\<close>, \<^verbatim>\<open>delete\<close> and the wall
  clock, so they have a state of their own: the timers, and the variables of the caller that handles and
  results are written to, by address.  The clock readings are arguments, and so is the address \<^verbatim>\<open>new\<close>
  returns (null when there is no memory).  A \<^verbatim>\<open>double\<close> is an exact number of seconds; rounding is not modelled.
\<close>

type_synonym seconds = rat

record timer_heap =
  tm_start :: "ptr \<Rightarrow> seconds"
  tm_end :: "ptr \<Rightarrow> seconds"
  tm_live :: "ptr set"
  handle_at :: "ptr \<Rightarrow> ptr"
  double_at :: "ptr \<Rightarrow> seconds"

definition abti_timer_get :: "ptr \<Rightarrow> ptr" where
  "abti_timer_get h = (if ABTI_is_null_handle h then nullptr else h)"

definition abti_timer_handle :: "ptr \<Rightarrow> ptr" where
  "abti_timer_handle t = t"

definition ABT_get_wtime :: "seconds \<Rightarrow> seconds" where
  "ABT_get_wtime now = now"

definition ABT_timer_create :: "ptr \<Rightarrow> ptr \<Rightarrow> timer_heap \<Rightarrow> ABT_error \<times> timer_heap" where
  "ABT_timer_create t newtimer h =
     (if newtimer = nullptr then (ABT_ERR_TIMER, h)
      else let h1 = h\<lparr>handle_at := (handle_at h)(newtimer := ABT_TIMER_NULL)\<rparr>
           in if t = nullptr then (ABT_ERR_MEM, h1)
              else (ABT_SUCCESS, h1\<lparr>tm_live := insert t (tm_live h1), tm_start := (tm_start h1)(t := 0), tm_end := (tm_end h1)(t := 0),
                      handle_at := (handle_at h1)(newtimer := abti_timer_handle t)\<rparr>))"

definition ABT_timer_dup :: "ptr \<Rightarrow> ptr \<Rightarrow> ptr \<Rightarrow> timer_heap \<Rightarrow> ABT_error \<times> timer_heap" where
  "ABT_timer_dup t timer newtimer h =
     (if newtimer = nullptr then (ABT_ERR_TIMER, h)
      else let h1 = h\<lparr>handle_at := (handle_at h)(newtimer := ABT_TIMER_NULL)\<rparr>; src = abti_timer_get timer
           in if src = nullptr then (ABT_ERR_INV_TIMER, h1)
              else if t = nullptr then (ABT_ERR_MEM, h1)
              else (ABT_SUCCESS, h1\<lparr>tm_live := insert t (tm_live h1), tm_start := (tm_start h1)(t := tm_start h1 src),
                      tm_end := (tm_end h1)(t := tm_end h1 src), handle_at := (handle_at h1)(newtimer := abti_timer_handle t)\<rparr>))"

definition ABT_timer_free :: "ptr \<Rightarrow> timer_heap \<Rightarrow> ABT_error \<times> timer_heap" where
  "ABT_timer_free timer h =
     (if timer = nullptr then (ABT_ERR_TIMER, h)
      else let t = abti_timer_get (handle_at h timer)
           in if t = nullptr then (ABT_ERR_INV_TIMER, h)
              else (ABT_SUCCESS, h\<lparr>tm_live := tm_live h - {t}, handle_at := (handle_at h)(timer := ABT_TIMER_NULL)\<rparr>))"

definition ABT_timer_start :: "seconds \<Rightarrow> ptr \<Rightarrow> timer_heap \<Rightarrow> ABT_error \<times> timer_heap" where
  "ABT_timer_start now timer h =
     (let t = abti_timer_get timer
      in if t = nullptr then (ABT_ERR_INV_TIMER, h) else (ABT_SUCCESS, h\<lparr>tm_start := (tm_start h)(t := now)\<rparr>))"

definition ABT_timer_stop :: "seconds \<Rightarrow> ptr \<Rightarrow> timer_heap \<Rightarrow> ABT_error \<times> timer_heap" where
  "ABT_timer_stop now timer h =
     (let t = abti_timer_get timer
      in if t = nullptr then (ABT_ERR_INV_TIMER, h) else (ABT_SUCCESS, h\<lparr>tm_end := (tm_end h)(t := now)\<rparr>))"

definition ABT_timer_read :: "ptr \<Rightarrow> ptr \<Rightarrow> timer_heap \<Rightarrow> ABT_error \<times> timer_heap" where
  "ABT_timer_read timer secs h =
     (let t = abti_timer_get timer
      in if t = nullptr then (ABT_ERR_INV_TIMER, h)
         else if secs = nullptr then (ABT_ERR_TIMER, h)
         else (ABT_SUCCESS, h\<lparr>double_at := (double_at h)(secs := tm_end h t - tm_start h t)\<rparr>))"

definition ABT_timer_stop_and_read :: "seconds \<Rightarrow> ptr \<Rightarrow> ptr \<Rightarrow> timer_heap \<Rightarrow> ABT_error \<times> timer_heap" where
  "ABT_timer_stop_and_read now timer secs h =
     (let t = abti_timer_get timer
      in if t = nullptr then (ABT_ERR_INV_TIMER, h)
         else if secs = nullptr then (ABT_ERR_TIMER, h)
         else let h1 = h\<lparr>tm_end := (tm_end h)(t := now)\<rparr>
              in (ABT_SUCCESS, h1\<lparr>double_at := (double_at h1)(secs := tm_end h1 t - tm_start h1 t)\<rparr>))"

definition ABT_timer_stop_and_add :: "seconds \<Rightarrow> ptr \<Rightarrow> ptr \<Rightarrow> timer_heap \<Rightarrow> ABT_error \<times> timer_heap" where
  "ABT_timer_stop_and_add now timer secs h =
     (let t = abti_timer_get timer
      in if t = nullptr then (ABT_ERR_INV_TIMER, h)
         else if secs = nullptr then (ABT_ERR_TIMER, h)
         else let h1 = h\<lparr>tm_end := (tm_end h)(t := now)\<rparr>
              in (ABT_SUCCESS, h1\<lparr>double_at := (double_at h1)(secs := double_at h1 secs + (tm_end h1 t - tm_start h1 t))\<rparr>))"

text \<open>
  The loop of \<^verbatim>\<open>ABT_timer_get_overhead\<close>: \<open>clock i\<close> is the \<open>i\<close>-th reading, \<open>th\<close> the handle, \<open>sv\<close> the local \<^verbatim>\<open>secs\<close>.
\<close>

primrec overhead_loop :: "(nat \<Rightarrow> seconds) \<Rightarrow> ptr \<Rightarrow> ptr \<Rightarrow> nat \<Rightarrow> seconds \<times> timer_heap \<Rightarrow> seconds \<times> timer_heap" where
  "overhead_loop clock th sv 0 r = r"
| "overhead_loop clock th sv (Suc i) r =
     (let (sum, h) = overhead_loop clock th sv i r;
          h1 = h\<lparr>double_at := (double_at h)(sv := 0)\<rparr>;
          h2 = snd (ABT_timer_start (clock (2 * i)) th h1);
          h3 = snd (ABT_timer_stop (clock (2 * i + 1)) th h2);
          h4 = snd (ABT_timer_read th sv h3)
      in (sum + double_at h4 sv, h4))"

text \<open>\<open>hv\<close> is the address of the local handle variable, \<open>overhead_iter\<close> the constant \<^verbatim>\<open>iter\<close>.\<close>

definition overhead_iter :: nat where
  "overhead_iter = 5000"

definition ABT_timer_get_overhead :: "(nat \<Rightarrow> seconds) \<Rightarrow> ptr \<Rightarrow> ptr \<Rightarrow> ptr \<Rightarrow> ptr \<Rightarrow> timer_heap \<Rightarrow> ABT_error \<times> timer_heap" where
  "ABT_timer_get_overhead clock t hv sv overhead h =
     (if overhead = nullptr then (ABT_ERR_TIMER, h)
      else let (ret, h1) = ABT_timer_create t hv h
           in if ret \<noteq> ABT_SUCCESS then (ret, h1)
              else let (sum, h2) = overhead_loop clock (handle_at h1 hv) sv overhead_iter (0, h1);
                       h3 = snd (ABT_timer_free hv h2)
                   in (ABT_SUCCESS, h3\<lparr>double_at := (double_at h3)(overhead := sum / of_nat overhead_iter)\<rparr>))"


subsection \<open>What timers measure\<close>

lemmas timer_ops = ABT_timer_create_def ABT_timer_dup_def ABT_timer_free_def ABT_timer_start_def ABT_timer_stop_def
  ABT_timer_read_def ABT_timer_stop_and_read_def ABT_timer_stop_and_add_def abti_timer_get_def abti_timer_handle_def

text \<open>One lap: start and stop-and-add.  A sequence of laps adds up their lengths.\<close>

definition lap :: "ptr \<Rightarrow> ptr \<Rightarrow> seconds \<times> seconds \<Rightarrow> timer_heap \<Rightarrow> timer_heap" where
  "lap timer secs = (\<lambda>(t0, t1) h. snd (ABT_timer_stop_and_add t1 timer secs (snd (ABT_timer_start t0 timer h))))"

lemma laps_add_up:
  assumes "is_obj timer" "secs \<noteq> nullptr"
  shows "double_at (fold (lap timer secs) ls h) secs = double_at h secs + (\<Sum>(t0, t1)\<leftarrow>ls. t1 - t0)"
  using assms by (induction ls arbitrary: h) (auto simp: lap_def timer_ops Let_def)

text \<open>A copy goes on by itself: what happens to it leaves the reading of the original alone, and the other way round.\<close>

lemma dup_independent:
  assumes "is_obj timer" "is_obj t" "t \<noteq> timer" "newtimer \<noteq> nullptr" "ABT_timer_dup t timer newtimer h = (r, h1)"
  shows "r = ABT_SUCCESS \<and> handle_at h1 newtimer = t \<and> tm_end h1 t - tm_start h1 t = tm_end h timer - tm_start h timer \<and>
    (let h2 = snd (ABT_timer_stop now t h1) in tm_end h2 timer = tm_end h timer \<and> tm_start h2 timer = tm_start h timer)"
  using assms by (auto simp: timer_ops Let_def)

text \<open>With a clock that does not run backwards the overhead is between 0 and the time the measurement took over 5000.\<close>

lemma overhead_loop_sum:
  assumes "is_obj th" "sv \<noteq> nullptr"
  shows "\<exists>h'. overhead_loop clock th sv n (s, h) = (s + (\<Sum>i<n. clock (2 * i + 1) - clock (2 * i)), h') \<and>
    tm_live h' = tm_live h \<and> handle_at h' = handle_at h"
proof (induction n)
  case (Suc n)
  then show ?case using assms by (auto simp: timer_ops Let_def algebra_simps)
qed simp

lemma clock_sum_bounds:
  fixes clock :: "nat \<Rightarrow> seconds"
  assumes "mono clock"
  shows "0 \<le> (\<Sum>i<n. clock (2 * i + 1) - clock (2 * i)) \<and> (\<Sum>i<n. clock (2 * i + 1) - clock (2 * i)) \<le> clock (2 * n) - clock 0"
proof (induction n)
  case (Suc n)
  have "clock (2 * n) \<le> clock (2 * n + 1)" "clock (2 * n + 1) \<le> clock (2 * Suc n)" using assms by (auto intro: monoD)
  with Suc show ?case by auto
qed simp

lemma timer_overhead_bounds:
  assumes "mono clock" "is_obj t" "t \<notin> tm_live h" "hv \<noteq> nullptr" "sv \<noteq> nullptr" "overhead \<noteq> nullptr"
  shows "\<exists>h'. ABT_timer_get_overhead clock t hv sv overhead h = (ABT_SUCCESS, h') \<and> tm_live h' = tm_live h \<and>
    0 \<le> double_at h' overhead \<and> double_at h' overhead \<le> (clock (2 * overhead_iter) - clock 0) / of_nat overhead_iter"
proof -
  have "t \<noteq> nullptr" using assms(2) by (auto simp: ABTI_is_null_handle_def)
  then obtain h1 where c: "ABT_timer_create t hv h = (ABT_SUCCESS, h1)" "handle_at h1 hv = t" "tm_live h1 = insert t (tm_live h)"
    using assms(4) by (auto simp: timer_ops Let_def)
  from overhead_loop_sum [OF assms(2,5), of clock overhead_iter 0 h1] obtain h2 where
    h2: "overhead_loop clock t sv overhead_iter (0, h1) = ((\<Sum>i<overhead_iter. clock (2 * i + 1) - clock (2 * i)), h2)"
    "tm_live h2 = insert t (tm_live h)" "handle_at h2 hv = t" using c by auto
  have f: "tm_live (snd (ABT_timer_free hv h2)) = tm_live h" using h2 assms(2-4) by (auto simp: timer_ops Let_def)
  show ?thesis using clock_sum_bounds [OF assms(1), of overhead_iter] assms(6) f
    by (simp add: ABT_timer_get_overhead_def c h2(1) Let_def divide_right_mono)
qed

end
