(* ===== verification/Info.thy ===== *)
theory Info
  imports Init_Life
begin

section \<open>Queries and diagnostics\<close>

text \<open>
  The rest of \<^verbatim>\<open>src/src/misc.cpp\<close>: \<^verbatim>\<open>ABT_info_query_config\<close>, whose answers must be the same before and after
  \<^verbatim>\<open>ABT_init\<close>, and the functions that print objects.  A stream is an address and holds the text written to it;
  the address of the standard output and how \<^verbatim>\<open>%p\<close> renders an address are parameters.
\<close>

datatype ABT_info_query_kind =
    ABT_INFO_QUERY_KIND_ENABLED_DEBUG | ABT_INFO_QUERY_KIND_ENABLED_PRINT_ERRNO | ABT_INFO_QUERY_KIND_ENABLED_LOG
  | ABT_INFO_QUERY_KIND_ENABLED_VALGRIND | ABT_INFO_QUERY_KIND_ENABLED_CHECK_ERROR
  | ABT_INFO_QUERY_KIND_ENABLED_CHECK_POOL_PRODUCER | ABT_INFO_QUERY_KIND_ENABLED_CHECK_POOL_CONSUMER
  | ABT_INFO_QUERY_KIND_ENABLED_PRESERVE_FPU | ABT_INFO_QUERY_KIND_ENABLED_THREAD_CANCEL
  | ABT_INFO_QUERY_KIND_ENABLED_TASK_CANCEL | ABT_INFO_QUERY_KIND_ENABLED_MIGRATION
  | ABT_INFO_QUERY_KIND_ENABLED_STACKABLE_SCHED | ABT_INFO_QUERY_KIND_ENABLED_EXTERNAL_THREAD
  | ABT_INFO_QUERY_KIND_ENABLED_SCHED_SLEEP | ABT_INFO_QUERY_KIND_ENABLED_PRINT_CONFIG
  | ABT_INFO_QUERY_KIND_ENABLED_AFFINITY | ABT_INFO_QUERY_KIND_MAX_NUM_XSTREAMS
  | ABT_INFO_QUERY_KIND_DEFAULT_THREAD_STACKSIZE | ABT_INFO_QUERY_KIND_DEFAULT_SCHED_STACKSIZE
  | ABT_INFO_QUERY_KIND_DEFAULT_SCHED_EVENT_FREQ | ABT_INFO_QUERY_KIND_DEFAULT_SCHED_SLEEP_NSEC
  | ABT_INFO_QUERY_KIND_ENABLED_TOOL | ABT_INFO_QUERY_KIND_FCONTEXT | ABT_INFO_QUERY_KIND_DYNAMIC_PROMOTION
  | ABT_INFO_QUERY_KIND_ENABLED_STACK_UNWIND | ABT_INFO_QUERY_KIND_ENABLED_STACK_OVERFLOW_CHECK
  | ABT_INFO_QUERY_KIND_WAIT_POLICY | ABT_INFO_QUERY_KIND_ENABLED_LAZY_STACK_ALLOC

text \<open>The enumerators in the order of the header, numbered from 0; a C caller may pass any integer.\<close>

definition query_kinds :: "ABT_info_query_kind list" where
  "query_kinds =
     [ABT_INFO_QUERY_KIND_ENABLED_DEBUG, ABT_INFO_QUERY_KIND_ENABLED_PRINT_ERRNO, ABT_INFO_QUERY_KIND_ENABLED_LOG,
      ABT_INFO_QUERY_KIND_ENABLED_VALGRIND, ABT_INFO_QUERY_KIND_ENABLED_CHECK_ERROR,
      ABT_INFO_QUERY_KIND_ENABLED_CHECK_POOL_PRODUCER, ABT_INFO_QUERY_KIND_ENABLED_CHECK_POOL_CONSUMER,
      ABT_INFO_QUERY_KIND_ENABLED_PRESERVE_FPU, ABT_INFO_QUERY_KIND_ENABLED_THREAD_CANCEL,
      ABT_INFO_QUERY_KIND_ENABLED_TASK_CANCEL, ABT_INFO_QUERY_KIND_ENABLED_MIGRATION,
      ABT_INFO_QUERY_KIND_ENABLED_STACKABLE_SCHED, ABT_INFO_QUERY_KIND_ENABLED_EXTERNAL_THREAD,
      ABT_INFO_QUERY_KIND_ENABLED_SCHED_SLEEP, ABT_INFO_QUERY_KIND_ENABLED_PRINT_CONFIG,
      ABT_INFO_QUERY_KIND_ENABLED_AFFINITY, ABT_INFO_QUERY_KIND_MAX_NUM_XSTREAMS,
      ABT_INFO_QUERY_KIND_DEFAULT_THREAD_STACKSIZE, ABT_INFO_QUERY_KIND_DEFAULT_SCHED_STACKSIZE,
      ABT_INFO_QUERY_KIND_DEFAULT_SCHED_EVENT_FREQ, ABT_INFO_QUERY_KIND_DEFAULT_SCHED_SLEEP_NSEC,
      ABT_INFO_QUERY_KIND_ENABLED_TOOL, ABT_INFO_QUERY_KIND_FCONTEXT, ABT_INFO_QUERY_KIND_DYNAMIC_PROMOTION,
      ABT_INFO_QUERY_KIND_ENABLED_STACK_UNWIND, ABT_INFO_QUERY_KIND_ENABLED_STACK_OVERFLOW_CHECK,
      ABT_INFO_QUERY_KIND_WAIT_POLICY, ABT_INFO_QUERY_KIND_ENABLED_LAZY_STACK_ALLOC]"

definition query_kind :: "int \<Rightarrow> ABT_info_query_kind option" where
  "query_kind k = (if 0 \<le> k \<and> nat k < length query_kinds then Some (query_kinds ! nat k) else None)"


subsection \<open>Values that do not depend on initialisation\<close>

definition abti_env_long :: "('s, 'z) process_scheme \<Rightarrow> string \<Rightarrow> int \<Rightarrow> int" where
  "abti_env_long I name dflt =
     (case getenv I name of None \<Rightarrow> dflt
      | Some v \<Rightarrow> if v = [] then dflt
          else let (x, end) = strtol v in if end = [] \<and> x > 0 then x else dflt)"

definition abti_max_xstreams :: "('s, 'z) process_scheme \<Rightarrow> 'a abt \<Rightarrow> 32 word option" where
  "abti_max_xstreams I h =
     (if g_exists h then Some (word_of_int (g_num_pes h)) else map_option word_of_int (ABTI_num_pes_rule I))"

definition abti_default_stacksize :: "('s, 'z) process_scheme \<Rightarrow> 'a abt \<Rightarrow> nat" where
  "abti_default_stacksize I h =
     (if g_exists h then g_default_stacksize h
      else let s = abti_env_long I ''ABT_THREAD_STACKSIZE'' (2 * 1024 * 1024) in nat (if s < 16384 then 16384 else s))"

text \<open>\<^verbatim>\<open>atoi\<close> converts with \<^verbatim>\<open>strtol\<close> and keeps the low 32 bits.\<close>

definition atoi :: "string \<Rightarrow> int" where
  "atoi v = signed_take_bit 31 (fst (strtol v))"

text \<open>What is stored through \<^verbatim>\<open>val\<close>, with the C type of the store.\<close>

datatype info_val = Bool_val bool | Uint_val "32 word" | Size_val nat | U64_val "64 word" | Int_val int

definition ABT_info_query_config :: "('s, 'z) process_scheme \<Rightarrow> int \<Rightarrow> ptr \<Rightarrow> 'a abt \<Rightarrow> (ABT_error + info_val) option" where
  "ABT_info_query_config I k val h =
     (if val = nullptr then Some (Inl ABT_ERR_OTHER)
      else case query_kind k of None \<Rightarrow> Some (Inl ABT_ERR_INV_QUERY_KIND)
      | Some q \<Rightarrow> (case q of
          ABT_INFO_QUERY_KIND_ENABLED_DEBUG \<Rightarrow> Some (Inr (Bool_val False))
        | ABT_INFO_QUERY_KIND_ENABLED_PRINT_ERRNO \<Rightarrow> Some (Inr (Bool_val False))
        | ABT_INFO_QUERY_KIND_ENABLED_LOG \<Rightarrow> Some (Inr (Bool_val False))
        | ABT_INFO_QUERY_KIND_ENABLED_VALGRIND \<Rightarrow> Some (Inr (Bool_val False))
        | ABT_INFO_QUERY_KIND_ENABLED_CHECK_ERROR \<Rightarrow> Some (Inr (Bool_val False))
        | ABT_INFO_QUERY_KIND_ENABLED_CHECK_POOL_PRODUCER \<Rightarrow> Some (Inr (Bool_val False))
        | ABT_INFO_QUERY_KIND_ENABLED_CHECK_POOL_CONSUMER \<Rightarrow> Some (Inr (Bool_val False))
        | ABT_INFO_QUERY_KIND_ENABLED_PRINT_CONFIG \<Rightarrow> Some (Inr (Bool_val False))
        | ABT_INFO_QUERY_KIND_ENABLED_PRESERVE_FPU \<Rightarrow> Some (Inr (Bool_val True))
        | ABT_INFO_QUERY_KIND_FCONTEXT \<Rightarrow> Some (Inr (Bool_val True))
        | ABT_INFO_QUERY_KIND_DYNAMIC_PROMOTION \<Rightarrow> Some (Inr (Bool_val False))
        | ABT_INFO_QUERY_KIND_ENABLED_THREAD_CANCEL \<Rightarrow> Some (Inr (Bool_val False))
        | ABT_INFO_QUERY_KIND_ENABLED_TASK_CANCEL \<Rightarrow> Some (Inr (Bool_val False))
        | ABT_INFO_QUERY_KIND_ENABLED_MIGRATION \<Rightarrow> Some (Inr (Bool_val True))
        | ABT_INFO_QUERY_KIND_ENABLED_STACKABLE_SCHED \<Rightarrow> Some (Inr (Bool_val True))
        | ABT_INFO_QUERY_KIND_ENABLED_EXTERNAL_THREAD \<Rightarrow> Some (Inr (Bool_val True))
        | ABT_INFO_QUERY_KIND_ENABLED_SCHED_SLEEP \<Rightarrow> Some (Inr (Bool_val True))
        | ABT_INFO_QUERY_KIND_ENABLED_AFFINITY \<Rightarrow>
            Some (Inr (Bool_val (case getenv I ''ABT_SET_AFFINITY'' of None \<Rightarrow> True | Some v \<Rightarrow> atoi v \<noteq> 0)))
        | ABT_INFO_QUERY_KIND_MAX_NUM_XSTREAMS \<Rightarrow> map_option (\<lambda>n. Inr (Uint_val n)) (abti_max_xstreams I h)
        | ABT_INFO_QUERY_KIND_DEFAULT_THREAD_STACKSIZE \<Rightarrow> Some (Inr (Size_val (abti_default_stacksize I h)))
        | ABT_INFO_QUERY_KIND_DEFAULT_SCHED_STACKSIZE \<Rightarrow> Some (Inr (Size_val 256000))
        | ABT_INFO_QUERY_KIND_DEFAULT_SCHED_EVENT_FREQ \<Rightarrow> Some (Inr (U64_val 50))
        | ABT_INFO_QUERY_KIND_DEFAULT_SCHED_SLEEP_NSEC \<Rightarrow> Some (Inr (U64_val 100))
        | ABT_INFO_QUERY_KIND_ENABLED_TOOL \<Rightarrow> Some (Inr (Bool_val False))
        | ABT_INFO_QUERY_KIND_ENABLED_STACK_UNWIND \<Rightarrow> Some (Inr (Bool_val False))
        | ABT_INFO_QUERY_KIND_ENABLED_STACK_OVERFLOW_CHECK \<Rightarrow> Some (Inr (Int_val 0))
        | ABT_INFO_QUERY_KIND_WAIT_POLICY \<Rightarrow> Some (Inr (Int_val 1))
        | ABT_INFO_QUERY_KIND_ENABLED_LAZY_STACK_ALLOC \<Rightarrow> Some (Inr (Bool_val False))))"


subsection \<open>Names\<close>

primrec abti_xstream_state_name :: "ABT_xstream_state \<Rightarrow> string" where
  "abti_xstream_state_name ABT_XSTREAM_STATE_RUNNING = ''RUNNING''"
| "abti_xstream_state_name ABT_XSTREAM_STATE_TERMINATED = ''TERMINATED''"

text \<open>\<open>None\<close> is the value -1 the caller starts with.\<close>

definition abti_thread_state_name :: "ABT_thread_state option \<Rightarrow> string" where
  "abti_thread_state_name s =
     (case s of None \<Rightarrow> ''UNKNOWN''
      | Some ABT_THREAD_STATE_READY \<Rightarrow> ''READY'' | Some ABT_THREAD_STATE_RUNNING \<Rightarrow> ''RUNNING''
      | Some ABT_THREAD_STATE_BLOCKED \<Rightarrow> ''BLOCKED'' | Some ABT_THREAD_STATE_TERMINATED \<Rightarrow> ''TERMINATED'')"

primrec abti_sched_predef_name :: "ABT_sched_predef \<Rightarrow> string" where
  "abti_sched_predef_name ABT_SCHED_DEFAULT = ''DEFAULT''"
| "abti_sched_predef_name ABT_SCHED_BASIC = ''BASIC''"
| "abti_sched_predef_name ABT_SCHED_PRIO = ''PRIO''"
| "abti_sched_predef_name ABT_SCHED_RANDWS = ''RANDWS''"
| "abti_sched_predef_name ABT_SCHED_BASIC_WAIT = ''BASIC_WAIT''"

primrec abti_pool_kind_name :: "ABT_pool_kind \<Rightarrow> string" where
  "abti_pool_kind_name ABT_POOL_FIFO = ''FIFO''"
| "abti_pool_kind_name ABT_POOL_FIFO_WAIT = ''FIFO_WAIT''"
| "abti_pool_kind_name ABT_POOL_RANDWS = ''RANDWS''"

primrec abti_pool_access_name :: "ABT_pool_access \<Rightarrow> string" where
  "abti_pool_access_name ABT_POOL_ACCESS_PRIV = ''PRIV''"
| "abti_pool_access_name ABT_POOL_ACCESS_SPSC = ''SPSC''"
| "abti_pool_access_name ABT_POOL_ACCESS_MPSC = ''MPSC''"
| "abti_pool_access_name ABT_POOL_ACCESS_SPMC = ''SPMC''"
| "abti_pool_access_name ABT_POOL_ACCESS_MPMC = ''MPMC''"

primrec abti_thread_type_name :: "ABTI_thread_type \<Rightarrow> string" where
  "abti_thread_type_name ABTI_THREAD_PRIMARY = ''PRIMARY''"
| "abti_thread_type_name ABTI_THREAD_NAMED = ''NAMED''"
| "abti_thread_type_name ABTI_THREAD_DETACHED = ''DETACHED''"
| "abti_thread_type_name ABTI_THREAD_SCHED = ''UNKNOWN''"


subsection \<open>Printing\<close>

type_synonym console = "ptr \<Rightarrow> string"

definition nl :: string where "nl = [CHR 0x0A]"

text \<open>\<^verbatim>\<open>%d\<close> and \<^verbatim>\<open>%ld\<close>; a flag is printed as a number.\<close>

definition show_int :: "int \<Rightarrow> string" where
  "show_int i = (if i < 0 then CHR ''-'' # to_string (nat (- i)) else to_string (nat i))"

definition show_flag :: "bool \<Rightarrow> string" where
  "show_flag b = (if b then ''1'' else ''0'')"

definition fprintf :: "ptr \<Rightarrow> string \<Rightarrow> console \<Rightarrow> console" where
  "fprintf f s out = out(f := out f @ s)"

definition abti_stream :: "ptr \<Rightarrow> ptr \<Rightarrow> ptr" where
  "abti_stream stdout fp = (if fp \<noteq> nullptr then fp else stdout)"

definition abti_print_pool_line :: "(ptr \<Rightarrow> string) \<Rightarrow> 'a abt_env \<Rightarrow> string \<Rightarrow> ptr \<Rightarrow> 'a abt \<Rightarrow> string" where
  "abti_print_pool_line pp E prefix p h =
     (if p = nullptr then prefix @ ''pool: (null)'' @ nl
      else let size = pool_size E p h; blocked = p_num_blocked h p
           in prefix @ ''pool: handle='' @ pp p @ '' id='' @ to_string (p_id h p) @ '' kind='' @ abti_pool_kind_name (p_kind h p) @
              '' access='' @ abti_pool_access_name (p_access h p) @ '' automatic='' @ show_flag (p_automatic h p) @
              '' user_defined='' @ show_flag (p_user h p) @ '' size='' @ to_string size @ '' blocked='' @ show_int blocked @
              '' total='' @ to_string ((size + nat (if blocked > 0 then blocked else 0)) mod 2 ^ 64) @
              '' num_scheds='' @ show_int (p_num_scheds h p) @ nl)"

definition abti_print_sched_line :: "(ptr \<Rightarrow> string) \<Rightarrow> string \<Rightarrow> ptr \<Rightarrow> 'a abt \<Rightarrow> string" where
  "abti_print_sched_line pp prefix s h =
     (if s = nullptr then prefix @ ''sched: (null)'' @ nl
      else prefix @ ''sched: handle='' @ pp s @ '' predef='' @ abti_sched_predef_name (s_predef h s) @
           '' user_def='' @ show_flag (s_user_def h s) @ '' automatic='' @ show_flag (s_automatic h s) @
           '' event_freq='' @ show_int (s_event_freq h s) @ '' num_pools='' @ to_string (length (s_pools h s)) @
           '' used_by_rank='' @ show_int (if s_used_by h s \<noteq> nullptr then x_rank h (s_used_by h s) else -1) @ nl)"

definition abti_print_xstream_line :: "(ptr \<Rightarrow> string) \<Rightarrow> string \<Rightarrow> ptr \<Rightarrow> 'a abt \<Rightarrow> string" where
  "abti_print_xstream_line pp prefix x h =
     (if x = nullptr then prefix @ ''xstream: (null)'' @ nl
      else prefix @ ''xstream: handle='' @ pp x @ '' rank='' @ show_int (x_rank h x) @
           '' state='' @ abti_xstream_state_name (x_state h x) @ '' primary='' @ show_flag (x_primary h x) @
           '' cpubind='' @ show_int (x_cpubind h x) @ '' finishing='' @ show_flag (x_finishing h x) @
           '' finished='' @ show_flag (x_finished h x) @ nl)"

definition abti_print_thread_line :: "(ptr \<Rightarrow> string) \<Rightarrow> ('s, 'z) process_scheme \<Rightarrow> 'a abt_env \<Rightarrow> string \<Rightarrow> ptr \<Rightarrow> 'a abt \<Rightarrow> string" where
  "abti_print_thread_line pp I E prefix t h =
     (if t = nullptr then prefix @ ''thread: (null)'' @ nl
      else let st = (case fst (ABT_thread_get_state E (ABTI_thread_handle t) h) of Inl _ \<Rightarrow> None | Inr s \<Rightarrow> Some s)
           in prefix @ ''thread: handle='' @ pp t @ '' id='' @ to_string (t_id h t) @
              '' type='' @ abti_thread_type_name (t_type h t) @ '' state='' @ abti_thread_state_name st @ '' pool='' @ pp (t_pool h t) @
              '' last_xstream_rank='' @ show_int (if t_last_xstream h t \<noteq> nullptr then x_rank h (t_last_xstream h t) else -1) @
              '' stacksize='' @ to_string (if attr_stacksize (t_attr h t) \<noteq> 0 then attr_stacksize (t_attr h t) else abti_default_stacksize I h) @
              '' migratable='' @ show_flag (attr_migratable (t_attr h t)) @ nl)"

definition ABTI_NO_UNWIND_MSG :: string where
  "ABTI_NO_UNWIND_MSG = ''abt-reconverse: stack unwinding is not available in this build '' @
     ''(ABT_INFO_QUERY_KIND_ENABLED_STACK_UNWIND == ABT_FALSE)'' @ nl"


definition ABT_info_print_config :: "('s, 'z) process_scheme \<Rightarrow> ptr \<Rightarrow> ptr \<Rightarrow> 'a abt \<Rightarrow> console \<Rightarrow> (ABT_error \<times> console) option" where
  "ABT_info_print_config I stdout fp h out =
     (let f = abti_stream stdout fp
      in do { n \<leftarrow> abti_max_xstreams I h;
              let out1 = fprintf f (''Argobots-on-Reconverse shim, '' @ to_string (unat n) @ '' PEs, stacksize '' @
                           to_string (abti_default_stacksize I h) @ nl) out;
                  out2 = fprintf f (''  initialized: '' @ (if g_exists h \<and> g_initialized h then ''yes'' else ''no'') @ nl) out1;
                  out3 = fprintf f (''  tool interface: disabled, stack unwinding: disabled, tasklets: unsupported'' @ nl) out2;
                  out4 = fprintf f (''  migration: enabled, external threads: enabled, stackable schedulers: unsupported'' @ nl) out3;
                  first = ABTI_first_unimplemented h;
                  out5 = (if g_exists h
                          then fprintf f (''  unimplemented calls so far: '' @ to_string (ABTI_unimplemented_count h) @
                                 (case first of None \<Rightarrow> [] | Some s \<Rightarrow> '', first: '' @ s) @ nl) out4
                          else out4)
              in Some (ABT_SUCCESS, out5) })"

text \<open>The lines of slot \<open>i\<close>; \<^verbatim>\<open>snprintf\<close> keeps at most 31 characters of the prefix.\<close>

definition xstream_block :: "(ptr \<Rightarrow> string) \<Rightarrow> 'a abt_env \<Rightarrow> nat \<Rightarrow> ptr \<Rightarrow> 'a abt \<Rightarrow> string" where
  "xstream_block pp E i x h =
     (if x = nullptr then ''  ['' @ to_string i @ ''] (free)'' @ nl
      else abti_print_xstream_line pp (take 31 (''  ['' @ to_string i @ ''] '')) x h @
           abti_print_sched_line pp ''        '' (x_main_sched h x) h @
           (if x_main_sched h x \<noteq> nullptr
            then concat (map (\<lambda>p. abti_print_pool_line pp E ''          '' p h) (s_pools h (x_main_sched h x))) else []))"

definition ABT_info_print_all_xstreams :: "(ptr \<Rightarrow> string) \<Rightarrow> 'a abt_env \<Rightarrow> ptr \<Rightarrow> ptr \<Rightarrow> 'a abt \<Rightarrow> console \<Rightarrow> ABT_error \<times> console" where
  "ABT_info_print_all_xstreams pp E stdout fp h out =
     (let f = abti_stream stdout fp
      in if \<not> g_exists h then (ABT_SUCCESS, fprintf f (''abt-reconverse: not initialized, no xstreams'' @ nl) out)
         else (ABT_SUCCESS, fold (\<lambda>(i, x). fprintf f (xstream_block pp E i x h)) (enumerate 0 (g_xstreams h))
                 (fprintf f (''# of xstreams: '' @ to_string (length (g_xstreams h)) @ '' slots'' @ nl) out)))"

definition ABT_info_print_xstream :: "(ptr \<Rightarrow> string) \<Rightarrow> ptr \<Rightarrow> ptr \<Rightarrow> ptr \<Rightarrow> 'a abt \<Rightarrow> console \<Rightarrow> ABT_error \<times> console" where
  "ABT_info_print_xstream pp stdout fp xstream h out =
     (ABT_SUCCESS, fprintf (abti_stream stdout fp) (abti_print_xstream_line pp [] (ABTI_obj xstream) h) out)"

definition ABT_info_print_sched :: "(ptr \<Rightarrow> string) \<Rightarrow> ptr \<Rightarrow> ptr \<Rightarrow> ptr \<Rightarrow> 'a abt \<Rightarrow> console \<Rightarrow> ABT_error \<times> console" where
  "ABT_info_print_sched pp stdout fp sched h out =
     (ABT_SUCCESS, fprintf (abti_stream stdout fp) (abti_print_sched_line pp [] (ABTI_obj sched) h) out)"

definition ABT_info_print_pool :: "(ptr \<Rightarrow> string) \<Rightarrow> 'a abt_env \<Rightarrow> ptr \<Rightarrow> ptr \<Rightarrow> ptr \<Rightarrow> 'a abt \<Rightarrow> console \<Rightarrow> ABT_error \<times> console" where
  "ABT_info_print_pool pp E stdout fp pool h out =
     (ABT_SUCCESS, fprintf (abti_stream stdout fp) (abti_print_pool_line pp E [] (ABTI_obj pool) h) out)"

definition ABT_info_print_thread :: "(ptr \<Rightarrow> string) \<Rightarrow> ('s, 'z) process_scheme \<Rightarrow> 'a abt_env \<Rightarrow> ptr \<Rightarrow> ptr \<Rightarrow> ptr \<Rightarrow> 'a abt \<Rightarrow> console \<Rightarrow>
    ABT_error \<times> console" where
  "ABT_info_print_thread pp I E stdout fp thread h out =
     (ABT_SUCCESS, fprintf (abti_stream stdout fp) (abti_print_thread_line pp I E [] (ABTI_obj thread) h) out)"

definition ABT_info_print_thread_attr :: "(ptr \<Rightarrow> string) \<Rightarrow> ('s, 'z) process_scheme \<Rightarrow> ptr \<Rightarrow> ptr \<Rightarrow> ptr \<Rightarrow> 'a abt \<Rightarrow> console \<Rightarrow>
    ABT_error \<times> console" where
  "ABT_info_print_thread_attr pp I stdout fp attr h out =
     (let f = abti_stream stdout fp; a = ABTI_obj attr
      in (ABT_SUCCESS,
          if a = nullptr then fprintf f (''thread_attr: (null)'' @ nl) out
          else fprintf f (''thread_attr: handle='' @ pp a @ '' stacksize='' @
                 to_string (if attr_stacksize (a_attr h a) \<noteq> 0 then attr_stacksize (a_attr h a) else abti_default_stacksize I h) @
                 '' stackaddr='' @ pp (attr_stackaddr (a_attr h a)) @ '' migratable='' @ show_flag (attr_migratable (a_attr h a)) @ nl) out))"

definition ABT_info_print_task :: "ptr \<Rightarrow> ptr \<Rightarrow> 'a abt \<Rightarrow> (unit, 'a abt) api" where
  "ABT_info_print_task fp task h = ABTI_note_unimplemented ''ABT_info_print_task'' h"

definition ABT_info_print_thread_stack :: "(ptr \<Rightarrow> string) \<Rightarrow> ('s, 'z) process_scheme \<Rightarrow> 'a abt_env \<Rightarrow> ptr \<Rightarrow> ptr \<Rightarrow> ptr \<Rightarrow> 'a abt \<Rightarrow>
    console \<Rightarrow> ABT_error \<times> console" where
  "ABT_info_print_thread_stack pp I E stdout fp thread h out =
     (let f = abti_stream stdout fp
      in (ABT_SUCCESS, fprintf f ABTI_NO_UNWIND_MSG (fprintf f (abti_print_thread_line pp I E [] (ABTI_obj thread) h) out)))"

definition ABT_info_print_thread_stacks_in_pool :: "(ptr \<Rightarrow> string) \<Rightarrow> 'a abt_env \<Rightarrow> ptr \<Rightarrow> ptr \<Rightarrow> ptr \<Rightarrow> 'a abt \<Rightarrow> console \<Rightarrow>
    ABT_error \<times> console" where
  "ABT_info_print_thread_stacks_in_pool pp E stdout fp pool h out =
     (let f = abti_stream stdout fp
      in (ABT_SUCCESS, fprintf f ABTI_NO_UNWIND_MSG (fprintf f (abti_print_pool_line pp E [] (ABTI_obj pool) h) out)))"

text \<open>\<open>call\<close> runs the callback at an address with the flag and its argument.\<close>

definition ABT_info_trigger_print_all_thread_stacks :: "(ptr \<Rightarrow> bool \<Rightarrow> ptr \<Rightarrow> 's \<Rightarrow> 's) \<Rightarrow> ptr \<Rightarrow> ptr \<Rightarrow> time \<Rightarrow> ptr \<Rightarrow> ptr \<Rightarrow> 's \<Rightarrow>
    console \<Rightarrow> ABT_error \<times> 's \<times> console" where
  "ABT_info_trigger_print_all_thread_stacks call stdout fp timeout cb_func arg h out =
     (ABT_SUCCESS, if cb_func \<noteq> nullptr then call cb_func False arg h else h,
      fprintf (abti_stream stdout fp) ABTI_NO_UNWIND_MSG out)"


subsection \<open>Queries around initialisation\<close>

lemma abti_env_long_eq: "abti_env_long = env_long"
  by (simp add: fun_eq_iff abti_env_long_def env_long_def)

lemma query_kind_range: "query_kind k = None \<longleftrightarrow> k < 0 \<or> 28 \<le> k"
  by (auto simp: query_kind_def query_kinds_def)

lemma num_pes_range: "ABTI_num_pes_rule I = Some n \<Longrightarrow> 2 \<le> n \<and> n \<le> 256"
  by (auto simp: ABTI_num_pes_rule_def Let_def split: bind_splits if_splits)

lemma init_runtime_sizes:
  fixes h :: "'a abt"
  assumes "\<not> g_exists h" "converse_law I" "init_runtime I E h = Some h'"
  shows "ABTI_num_pes_rule I = Some (g_num_pes h') \<and> g_default_stacksize h' = abti_default_stacksize I h \<and> g_exists h'"
proof -
  obtain n where n: "ABTI_num_pes_rule I = Some n" "start_runtime I E n (global_new I n h) = Some h'"
    using assms(1,3) by (auto simp: init_runtime_def Let_def split: bind_splits)
  define g where "g = rt (ConverseInit n) (global_new I n h)"
  obtain hs ts ks cs where ci: "converse_init I n g = g\<lparr>g_handlers := hs, g_pe_threads := ts, g_pe_thread_known := ks, rt_calls := cs\<rparr>"
    using assms(2) unfolding converse_law_def by blast
  obtain h2 where h2: "per_pe_setup I E (converse_init I n g) = Some h2"
    "h' = (if runtime_pid h2 \<noteq> getpid I then rt Atexit (h2\<lparr>runtime_started := True\<rparr>) else h2\<lparr>runtime_started := True\<rparr>)\<lparr>runtime_pid := getpid I\<rparr>"
    using n(2) by (auto simp: start_runtime_def g_def [symmetric] Let_def split: bind_splits)
  from per_pe_setup_frame [OF h2(1)] obtain hs' ts' ks' cs' where
    "h2 = g\<lparr>g_handlers := hs', g_pe_threads := ts', g_pe_thread_known := ks', rt_calls := cs'\<rparr>" unfolding ci by auto
  then have "g_num_pes h' = n" "g_exists h'" "g_default_stacksize h' = g_default_stacksize g"
    unfolding h2(2) g_def global_new_def Let_def by simp_all
  moreover have "g_default_stacksize g = abti_default_stacksize I h"
    using assms(1) by (simp add: g_def global_new_def abti_default_stacksize_def abti_env_long_eq Let_def) linarith
  ultimately show ?thesis using n(1) by simp
qed


text \<open>
  C37.  A configuration query answers the same before and after \<^verbatim>\<open>ABT_init\<close>: for every kind, the number of
  streams and the default stack size included, the answer read from the environment is the answer read
  from the runtime that \<^verbatim>\<open>ABT_init\<close> started.  A query is answered exactly when it has a place for the
  result and one of the 28 kinds, and the number of streams is between 2 and 256.
\<close>

theorem info_query_stable:
  fixes h :: "'a abt"
  assumes "\<not> g_exists h" "\<not> g_initialized h" "no_streams I h" "converse_law I" "init_runtime I E h = Some hr"
    and "distinct [s, p, x, t]" "t = next_desc m h" "p \<noteq> nullptr"
  shows "\<exists>h'. ABT_init I E s (p # ps) x m h = Some (Inr (), h') \<and> g_exists h' \<and>
    (\<forall>k val. ABT_info_query_config I k val h' = ABT_info_query_config I k val h \<and>
       ((\<exists>v. ABT_info_query_config I k val h = Some (Inr v)) \<longleftrightarrow> val \<noteq> nullptr \<and> 0 \<le> k \<and> k < 28)) \<and>
    (\<exists>n. abti_max_xstreams I h = Some n \<and> 2 \<le> unat n \<and> unat n \<le> 256)"
proof -
  note r = init_runtime_frame [OF assms(3-5)] and z = init_runtime_sizes [OF assms(1,4,5)]
  have t: "t = next_desc m hr" using assms(7) r by (simp add: next_desc_def)
  from init_primary_up [of hr t m s p x E ps] r assms(6,8) t obtain g where
    g: "init_primary E s (p # ps) x m hr = Some g" "g_num_pes g = g_num_pes hr" "g_default_stacksize g = g_default_stacksize hr" "g_exists g" by auto
  define h' where "h' = g\<lparr>g_initialized := True, init_refs := 1\<rparr>"
  have i: "ABT_init I E s (p # ps) x m h = Some (Inr (), h')" using assms(2,5) g(1) by (simp add: ABT_init_def h'_def)
  have m: "abti_max_xstreams I h = Some (word_of_int (g_num_pes hr))" "abti_max_xstreams I h' = Some (word_of_int (g_num_pes hr))"
    using z g assms(1) by (simp_all add: abti_max_xstreams_def h'_def)
  have d: "abti_default_stacksize I h' = abti_default_stacksize I h" 
  proof -
    have "g_exists h'" "g_default_stacksize h' = abti_default_stacksize I h" using z g by (simp_all add: h'_def)
    then show ?thesis by (simp add: abti_default_stacksize_def [of I h'])
  qed
  have q: "ABT_info_query_config I k val h' = ABT_info_query_config I k val h" for k val
    unfolding ABT_info_query_config_def m d by (rule refl)
  have a: "(\<exists>v. ABT_info_query_config I k val h = Some (Inr v)) \<longleftrightarrow> val \<noteq> nullptr \<and> query_kind k \<noteq> None" for k val
    unfolding ABT_info_query_config_def m by (cases "query_kind k") (auto split: ABT_info_query_kind.split)
  have n: "2 \<le> g_num_pes hr" "g_num_pes hr \<le> 256" using num_pes_range z by auto
  then have "uint (word_of_int (g_num_pes hr) :: 32 word) = g_num_pes hr" unfolding uint_word_of_int_eq by (intro take_bit_int_eq_self) simp_all
  then have "unat (word_of_int (g_num_pes hr) :: 32 word) = nat (g_num_pes hr)" by (simp only: unat_eq_nat_uint)
  then have "\<exists>n. abti_max_xstreams I h = Some n \<and> 2 \<le> unat n \<and> unat n \<le> 256" using m n by (simp add: le_nat_iff nat_le_iff)
  moreover have "g_exists h'" using g(4) by (simp add: h'_def)
  ultimately show ?thesis using i q a by (auto simp: query_kind_range)
qed


text \<open>A process that has not started anything yet.\<close>

definition unstarted :: abt_heap where
  "unstarted = dormant\<lparr>g_exists := False, runtime_started := False\<rparr>"

theorem info_query_stable_witness:
  "\<exists>h'. ABT_init env64 env0 2048 [256] 768 4096 unstarted = Some (Inr (), h') \<and> g_exists h' \<and>
     ABT_info_query_config env64 16 8 h' = Some (Inr (Uint_val 65)) \<and> ABT_info_query_config env64 16 8 unstarted = Some (Inr (Uint_val 65)) \<and>
     ABT_info_query_config env64 28 8 h' = Some (Inl ABT_ERR_INV_QUERY_KIND)"
proof -
  have sel: "\<not> g_initialized unstarted" "\<not> g_exists unstarted" "s_used_by unstarted = (\<lambda>_. nullptr)" "tls_held unstarted = nullptr"
    "tls_task unstarted = nullptr" "tls_thread_cache unstarted = []"
    by (simp_all add: unstarted_def dormant_def abt_of_def pool_heap.defs abt_heap.defs heap0_def)
  have n: "no_streams env64 unstarted" using sel by (simp add: no_streams_def)
  have c: "converse_law env64" unfolding converse_law_def env64_def
    by (intro allI, rule_tac x = "g_handlers h" in exI, rule_tac x = "g_pe_threads h" in exI, rule_tac x = "g_pe_thread_known h" in exI,
        rule_tac x = "rt_calls h" in exI) simp
  have p: "ABTI_num_pes_rule env64 = Some 65" by code_simp
  have e: "handler_indices env64 = (1, 2, 3, 4)" "converse_init env64 = (\<lambda>_ s. s)" by (simp_all add: env64_def)
  define g where "g = rt (ConverseInit 65) (global_new env64 65 unstarted)"
  have "g_handlers g = [-1, -1, -1, -1]" by (simp add: g_def global_new_def Let_def)
  then have "\<exists>g1. per_pe_setup env64 env0 g = Some g1"
    by (simp add: per_pe_setup_def e ABTI_register_handlers_def record_handler_def Let_def)
  then obtain hr where i: "init_runtime env64 env0 unstarted = Some hr"
    by (auto simp: init_runtime_def sel p start_runtime_def e g_def [symmetric] Let_def)
  have k: "query_kind 16 = Some ABT_INFO_QUERY_KIND_MAX_NUM_XSTREAMS" "query_kind 28 = None" by (simp_all add: query_kind_def query_kinds_def)
  have u: "ABT_info_query_config env64 16 8 unstarted = Some (Inr (Uint_val 65))" "ABT_info_query_config env64 28 8 unstarted = Some (Inl ABT_ERR_INV_QUERY_KIND)"
    by (simp_all add: ABT_info_query_config_def k abti_max_xstreams_def sel p)
  from info_query_stable [OF sel(2,1) n c i, of 2048 256 768 4096 4096 "[]"] sel(6) obtain h' where
    h': "ABT_init env64 env0 2048 [256] 768 4096 unstarted = Some (Inr (), h')" "g_exists h'"
    "\<And>k val. ABT_info_query_config env64 k val h' = ABT_info_query_config env64 k val unstarted" by (auto simp: next_desc_def)
  with u show ?thesis by auto
qed

end
