(* ===== verification/Spec2Isabelle.thy ===== *)
theory Spec2Isabelle
  imports Pool_Mpsc_Steps Blocking Thread_Keys Init_Life Mutex_Steps Timed_Steps Sync_Steps Future_Life Static_Objects Timer Info
begin

text \<open>
  A model of abt-reconverse, the Argobots threading interface implemented on the Reconverse runtime.

  \<^bold>\<open>The program.\<close>  A process runs a fixed number of PEs (kernel threads of the runtime).  An execution stream
  (\<^verbatim>\<open>xstream.cpp\<close>) is a PE on lease; its main scheduler (\<^verbatim>\<open>sched.cpp\<close>) pops work units from pools (\<^verbatim>\<open>pool.cpp\<close>)
  and runs them.  A unit is a user-level thread or a tasklet (\<^verbatim>\<open>thread.cpp\<close>).  A thread that waits for a
  mutex, a condition, an eventual and so on (\<^verbatim>\<open>sync.cpp\<close>) leaves its PE and is pushed back to a pool when it
  is woken.  \<^verbatim>\<open>init.cpp\<close> starts and stops all this, \<^verbatim>\<open>misc.cpp\<close> holds timers, queries and printing, \<^verbatim>\<open>abti.h\<close>
  the structs and \<^verbatim>\<open>abt.h\<close> the public interface.

  \<^bold>\<open>State.\<close>  A struct is a group of record fields, each a function from the address of the object; addresses
  are natural numbers with 0 for null.  The records extend each other in the order of the components:
  \<open>queue_heap\<close>, \<open>pool_heap\<close>, \<open>abt_heap\<close>, then one level for each kind of synchronisation object up to
  \<open>sync_heap\<close>.  Addresses that \<^verbatim>\<open>new\<close> returns are arguments.  An operation returns an error code or a result
  together with the new state; the value \<open>None\<close> stands for an abort, undefined behaviour or a loop that does
  not end.  Counters and owners that can wrap around are words of their width.  Times are integers in
  nanoseconds, in the timers exact rationals.

  \<^bold>\<open>What is not in the sources.\<close>  The runtime and the application are the record \<open>env\<close> of \<open>Runtime\<close>; the
  operating system and the start of the runtime are the record \<open>process\<close> of \<open>Init\<close>.  Named hypotheses say what is
  relied on: \<open>awaken_law\<close> (waking a blocked thread runs the awaken function the library installed for it),
  \<open>claim_law\<close> (\<^verbatim>\<open>CthClaimReady\<close> succeeds on a thread that was popped; where it fails the code aborts),
  \<open>callbacks_keep\<close>, \<open>wake_keeps\<close>, \<open>callback_keeps\<close>, and \<open>converse_law\<close> for \<^verbatim>\<open>ConverseInit\<close>.  Every theorem with such a
  hypothesis has a witness with a concrete environment.

  \<^bold>\<open>Theories.\<close>
  \<^item> \<open>Abt_Prelude\<close>, \<open>Abt_Types\<close>: addresses, null handles, reachability and the locale \<open>transition_system\<close>; the
    enumerations and error codes of \<^verbatim>\<open>abt.h\<close>.
  \<^item> \<open>Pool_Heap\<close>, \<open>Pool_List\<close>, \<open>Pool_Mpsc\<close>: the two queues of a built-in pool.  Both interpret the locale
    \<open>unit_store\<close>, the contract pools rely on.  \<open>Pool_Mpsc_Steps\<close> runs the lock-free queue access by access:
    first-in first-out order and exact counts under every interleaving, and agreement of the steps with
    the sequential operation.
  \<^item> \<open>Sleepers\<close>, \<open>Runtime\<close>, \<open>Pool\<close>, \<open>Pool_Frame\<close>, \<open>Pool_Api\<close>: sleeping PEs, the methods of \<^verbatim>\<open>ABTI_pool\<close>, what they
    leave alone, and the pool calls.  \<open>pools_view\<close> relates the heap to one list per pool; pushing, popping
    and removing refine the list operations.
  \<^item> \<open>Config\<close>: scheduler and pool configurations, two instances of the locale \<open>typed_config\<close>.
  \<^item> \<open>Abt_Heap\<close>, \<open>Thread\<close>, \<open>Thread_Api\<close>, \<open>Thread_Life\<close>, \<open>Thread_Keys\<close>: the whole state, units from creation to
    release, blocking and waking, join, keys and their destructors.  \<open>Blocking\<close> runs suspensions and
    wake-ups in any order: the count of blocked threads of each pool is exact in every reachable state.
  \<^item> \<open>Sched\<close>, \<open>Sched_Refs\<close>: policies, polling with a parked unit, stacked schedulers, and the counts that
    decide when a pool is freed.
  \<^item> \<open>Xstream\<close>, \<open>Xstream_Life\<close>: leases, their handlers, direct switches, the idle hook; consistency of the
    slot table over every sequence of stream operations, and that running streams do not share a main
    scheduler under a rule for finished streams, with a run that shows why the rule is needed.
  \<^item> \<open>Init\<close>, \<open>Init_Life\<close>, \<open>Info\<close>: the environment, \<^verbatim>\<open>ABT_init\<close> and \<^verbatim>\<open>ABT_finalize\<close>, configuration queries and
    printing.  Initialisation and finalisation are a round trip, and queries do not change with it.
  \<^item> \<open>Waitlist\<close>, \<open>Mutex\<close>, \<open>Eventual\<close>, \<open>Sync_Objects\<close>, \<open>Static_Objects\<close>: the synchronisation objects as one thread
    executes them; the wait list interprets the locale \<open>wait_queue\<close>.
  \<^item> \<open>Mutex_Steps\<close>, \<open>Sync_Steps\<close>, \<open>Future_Life\<close>: mutual exclusion and hand-over of a mutex under every
    interleaving of its memory accesses; read-write locks and barriers under every interleaving of their
    critical sections; filling a future.
  \<^item> \<open>Timed_Steps\<close>: a signaller and a timed waiter access by access, and the race between them that loses the
    signal and uses a dead stack frame.
  \<^item> \<open>Timer\<close>: timers and what a sequence of measurements adds up to.

  \<^bold>\<open>Loops.\<close>  No fuel is used.  A loop that is bounded by its data is a total function; a loop that waits for
  somebody else is a \<open>partial_function\<close> whose value \<open>None\<close> means that it never ends, and where the code means
  to return, the theorem says that it does.  In the sequential definitions other threads act through the
  runtime functions a waiting loop calls.

  \<^bold>\<open>Sequential consistency.\<close>  In the step relations one step is one atomic access and the memory is
  sequentially consistent; reordering that the C++ memory orders would allow is not covered.  A section under
  a \<^verbatim>\<open>std::mutex\<close> or \<^verbatim>\<open>ABTI_spinlock\<close> is one operation.

  \<^bold>\<open>Not modelled.\<close>
  \<^item> \<^verbatim>\<open>ABTI_spinlock\<close> and \<^verbatim>\<open>ABTI_cpu_relax\<close>: see above.
  \<^item> \<^verbatim>\<open>ABTI_DBG\<close>, the statistics line and the trace of unimplemented calls: output to stderr only.
  \<^item> The layout of messages to a PE (\<^verbatim>\<open>ABTI_pe_msg\<close>, \<^verbatim>\<open>ABTI_run_msg\<close>, \<^verbatim>\<open>send_pe_msg\<close>): sending is recorded, the
    handlers are definitions.  Likewise \<^verbatim>\<open>ABTI_sched_build_table\<close>, which wraps \<^verbatim>\<open>ABTI_poll_sched\<close>.
  \<^item> Context switches, stacks and \<^verbatim>\<open>setjmp\<close>: parts of the runtime and of the C library.
  \<^item> The tool interface and the other calls that only report that they are not implemented: their common
    effect is \<open>ABTI_note_unimplemented\<close>, with the list of their names.
  \<^item> Rounding of floating-point numbers, exhaustion of memory except where the code tests for it, and the
    branches for macOS.
  \<^item> The prototypes and comments of \<^verbatim>\<open>abt.h\<close>, the tests, the build files and the skeleton generator.
\<close>

end
